(* ===== verification/Prelude.thy ===== *)
theory Prelude
  imports Main "HOL-Library.Sublist"
begin

text \<open>
  Shared vocabulary of the development: the exceptions the program raises, results as sums,
  the operations on Python strings and lists the program uses, and the generic lemmas the
  component theories share.

  A Python \<open>str\<close> is modelled as a \<open>string\<close> that holds its UTF-8 encoding: one
  \<open>char\<close> per byte. Concatenation, equality, prefixes and splitting at an ASCII character agree
  with Python on this representation; an operation that counts code points is only used on ASCII
  text.
\<close>

named_theorems result_iff \<open>equations that say when a computation returns a value\<close>


section \<open>Exceptions and results\<close>

datatype exn =
    InvalidCommand string
  | PathViolation string
  | UploadTooLarge string
  | FileNotFoundError string
  | FileExistsError string
  | NotADirectoryError string
  | IsADirectoryError string
  | OSError string
  | ValueError string
  | TypeError string
  | KeyError string
  | AttributeError string
  | TimeoutError string
  | RuntimeError string
  | IndexError string
  | AwsCommandError string
  | DemoError string
  | CalledProcessError "string list" int
  | TimeoutExpired
  | StopIteration
  | KeyboardInterrupt
  | HTTPException nat string
  | OutOfFuel  \<comment> \<open>no Python exception: the model's loop ran out of its fuel\<close>

type_synonym 'a result = "exn + 'a"

definition bindE :: "'e + 'a \<Rightarrow> ('a \<Rightarrow> 'e + 'b) \<Rightarrow> 'e + 'b" where
  "bindE r f = (case r of Inl e \<Rightarrow> Inl e | Inr a \<Rightarrow> f a)"

definition guardE :: "bool \<Rightarrow> 'e \<Rightarrow> 'e + unit" where
  "guardE b e = (if b then Inr () else Inl e)"

lemma bindE_simps [simp]:
  "bindE (Inl e) f = Inl e"
  "bindE (Inr a) f = f a"
  by (simp_all add: bindE_def)

lemma guardE_simps [simp]:
  "guardE True e = Inr ()"
  "guardE False e = Inl e"
  by (simp_all add: guardE_def)

lemma bindE_assoc: "bindE (bindE r f) g = bindE r (\<lambda>x. bindE (f x) g)"
  by (cases r) simp_all

lemma bindE_Inr_iff [result_iff]:
  "bindE r f = Inr y \<longleftrightarrow> (\<exists>x. r = Inr x \<and> f x = Inr y)"
  by (cases r) simp_all

lemma bindE_Inl_iff [result_iff]:
  "bindE r f = Inl e \<longleftrightarrow> r = Inl e \<or> (\<exists>x. r = Inr x \<and> f x = Inl e)"
  by (cases r) simp_all

lemma guardE_Inr_iff [result_iff]: "guardE b e = Inr u \<longleftrightarrow> b"
  by (cases b) simp_all

lemma guardE_Inl_iff [result_iff]: "guardE b e = Inl e' \<longleftrightarrow> \<not> b \<and> e' = e"
  by (cases b) auto

text \<open>\<open>[f(x) for x in xs]\<close> where \<open>f\<close> may raise: the first exception stops the list.\<close>

fun mapE :: "('a \<Rightarrow> 'e + 'b) \<Rightarrow> 'a list \<Rightarrow> 'e + 'b list" where
  "mapE f [] = Inr []"
| "mapE f (x # xs) = bindE (f x) (\<lambda>y. bindE (mapE f xs) (\<lambda>ys. Inr (y # ys)))"

lemma mapE_Inr_iff: "mapE f xs = Inr ys \<longleftrightarrow> list_all2 (\<lambda>x y. f x = Inr y) xs ys"
proof (induction xs arbitrary: ys)
  case Nil
  then show ?case by auto
next
  case (Cons x xs)
  then show ?case by (cases ys) (auto simp: result_iff)
qed

lemma mapE_pure [simp]: "mapE (\<lambda>x. Inr (g x)) xs = Inr (map g xs)"
  by (induction xs) simp_all

lemma mapE_length: "mapE f xs = Inr ys \<Longrightarrow> length ys = length xs"
  by (auto simp: mapE_Inr_iff dest: list_all2_lengthD)

lemma mapE_member:
  "mapE f xs = Inr ys \<Longrightarrow> x \<in> set xs \<Longrightarrow> \<exists>y pre post. f x = Inr y \<and> ys = pre @ y # post"
proof (induction xs arbitrary: ys)
  case (Cons a xs)
  then obtain y ys' where y: "f a = Inr y" "mapE f xs = Inr ys'" "ys = y # ys'" by (auto simp: result_iff)
  show ?case
  proof (cases "x = a")
    case True
    then show ?thesis using y by (metis append_Nil)
  next
    case False
    with Cons y obtain z pre post where "f x = Inr z" "ys' = pre @ z # post" by auto
    then show ?thesis using y(3) by (metis append_Cons)
  qed
qed simp

lemma mapE_total:
  "\<forall>x \<in> set xs. \<exists>y. f x = Inr y \<Longrightarrow> \<exists>ys. mapE f xs = Inr ys"
  by (induction xs) (auto simp: result_iff)

text \<open>\<open>[x for x in xs if f(x)]\<close>\<close>

fun filterE :: "('a \<Rightarrow> bool result) \<Rightarrow> 'a list \<Rightarrow> 'a list result" where
  "filterE f [] = Inr []"
| "filterE f (x # xs) =
     bindE (f x) (\<lambda>b. bindE (filterE f xs) (\<lambda>ys. Inr (if b then x # ys else ys)))"


section \<open>Strings\<close>

abbreviation NL :: char where "NL \<equiv> CHR 0x0A"
abbreviation QUOTE :: char where "QUOTE \<equiv> CHR 0x27"
abbreviation DQUOTE :: char where "DQUOTE \<equiv> CHR 0x22"
abbreviation BACKSLASH :: char where "BACKSLASH \<equiv> CHR 0x5C"
abbreviation NUL :: char where "NUL \<equiv> CHR 0x00"

abbreviation startswith :: "'a list \<Rightarrow> 'a list \<Rightarrow> bool" where
  "startswith s p \<equiv> prefix p s"

abbreviation endswith :: "'a list \<Rightarrow> 'a list \<Rightarrow> bool" where
  "endswith s p \<equiv> suffix p s"

definition removeprefix :: "'a list \<Rightarrow> 'a list \<Rightarrow> 'a list" where
  "removeprefix s p = (if startswith s p then drop (length p) s else s)"

definition removesuffix :: "'a list \<Rightarrow> 'a list \<Rightarrow> 'a list" where
  "removesuffix s p = (if p \<noteq> [] \<and> endswith s p then take (length s - length p) s else s)"

definition strip_by :: "('a \<Rightarrow> bool) \<Rightarrow> 'a list \<Rightarrow> 'a list" where
  "strip_by P s = rev (dropWhile P (rev (dropWhile P s)))"

fun join_with :: "'a list \<Rightarrow> 'a list list \<Rightarrow> 'a list" where
  "join_with sep [] = []"
| "join_with sep [x] = x"
| "join_with sep (x # y # r) = x @ sep @ join_with sep (y # r)"

text \<open>\<open>s.split(c)\<close> for a separator of one character.\<close>

fun split_on :: "'a \<Rightarrow> 'a list \<Rightarrow> 'a list list" where
  "split_on c [] = [[]]"
| "split_on c (x # xs) =
     (if x = c then [] # split_on c xs
      else (case split_on c xs of [] \<Rightarrow> [[x]] | y # ys \<Rightarrow> (x # y) # ys))"

text \<open>\<open>s.partition(c)\<close> for a separator of one character: the part before the first
  occurrence, whether there is one, and the part after it.\<close>

fun partition_on :: "'a \<Rightarrow> 'a list \<Rightarrow> 'a list \<times> bool \<times> 'a list" where
  "partition_on c [] = ([], False, [])"
| "partition_on c (x # xs) =
     (if x = c then ([], True, xs)
      else (let (a, f, b) = partition_on c xs in (x # a, f, b)))"

text \<open>\<open>s.replace(old, new)\<close> for a non-empty \<open>old\<close>: leftmost occurrences that do not overlap.\<close>

function replace_all :: "'a list \<Rightarrow> 'a list \<Rightarrow> 'a list \<Rightarrow> 'a list" where
  "replace_all old new s =
     (if old = [] \<or> s = [] then s
      else if startswith s old then new @ replace_all old new (drop (length old) s)
      else hd s # replace_all old new (tl s))"
  by pat_completeness auto
termination
  by (relation "measure (\<lambda>(old, new, s). length s)") auto

declare replace_all.simps [simp del]

text \<open>\<open>s.replace(c, new)\<close> for a single character \<open>c\<close>.\<close>

definition replace_char :: "'a \<Rightarrow> 'a list \<Rightarrow> 'a list \<Rightarrow> 'a list" where
  "replace_char c new s = concat (map (\<lambda>x. if x = c then new else [x]) s)"

lemma replace_char_simps [simp]:
  "replace_char c new [] = []"
  "replace_char c new (x # xs) = (if x = c then new else [x]) @ replace_char c new xs"
  by (simp_all add: replace_char_def)

lemma replace_all_Nil [simp]: "replace_all old new [] = []"
  by (simp add: replace_all.simps)

lemma replace_all_hit [simp]:
  "old \<noteq> [] \<Longrightarrow> replace_all old new (old @ s) = new @ replace_all old new s"
  by (subst replace_all.simps) simp

lemma replace_all_miss:
  "\<not> prefix old (x # s) \<Longrightarrow> replace_all old new (x # s) = x # replace_all old new s"
  by (subst replace_all.simps) (auto dest: prefix_order.trans)

lemma replace_char_is_replace_all: "replace_all [c] new s = replace_char c new s"
proof (induction s)
  case Nil
  then show ?case by simp
next
  case (Cons x xs)
  then show ?case
    by (cases "x = c") (use replace_all_hit [of "[c]" new xs] in \<open>auto simp: replace_all_miss\<close>)
qed

lemma split_on_nonempty [simp]: "split_on c s \<noteq> []"
  by (induction s) (auto split: list.splits)

lemma join_with_push: "join_with sep ((x # a) # r) = x # join_with sep (a # r)"
  by (cases r) simp_all

lemma join_with_cut: "r \<noteq> [] \<Longrightarrow> join_with sep (a # r) = a @ sep @ join_with sep r"
  by (cases r) simp_all

lemma join_split_on [simp]: "join_with [c] (split_on c s) = s"
proof (induction s)
  case Nil
  then show ?case by simp
next
  case (Cons x xs)
  then show ?case by (auto simp: join_with_push join_with_cut split: list.splits)
qed

lemma split_on_no_sep: "y \<in> set (split_on c s) \<Longrightarrow> c \<notin> set y"
proof (induction s arbitrary: y)
  case Nil
  then show ?case by simp
next
  case (Cons x xs)
  then show ?case by (fastforce split: if_splits list.splits)
qed

lemma split_on_append:
  "c \<notin> set a \<Longrightarrow> split_on c (a @ c # b) = a # split_on c b"
  by (induction a) auto

lemma split_on_single: "c \<notin> set a \<Longrightarrow> split_on c a = [a]"
  by (induction a) auto

lemma partition_on_rebuild:
  "partition_on c s = (a, f, b) \<Longrightarrow> s = (if f then a @ c # b else a) \<and> c \<notin> set a"
  by (induction s arbitrary: a f b) (auto split: if_splits prod.splits)

lemma partition_on_hit: "c \<notin> set a \<Longrightarrow> partition_on c (a @ c # b) = (a, True, b)"
  by (induction a) auto

lemma partition_on_miss: "c \<notin> set a \<Longrightarrow> partition_on c a = (a, False, [])"
  by (induction a) auto

lemma strip_by_Nil [simp]: "strip_by P [] = []"
  by (simp add: strip_by_def)

lemma strip_by_eq_Nil_iff: "strip_by P s = [] \<longleftrightarrow> (\<forall>x \<in> set s. P x)"
  by (auto simp: strip_by_def dest: set_dropWhileD)
    (metis dropWhile_eq_Nil_conv hd_dropWhile hd_in_set set_rev)

lemma removeprefix_append [simp]: "removeprefix (p @ s) p = s"
  by (simp add: removeprefix_def)

lemma removesuffix_append [simp]: "removesuffix (s @ p) p = s"
  by (cases "p = []") (simp_all add: removesuffix_def suffix_def)


section \<open>Numbers as text\<close>

definition digit_char :: "nat \<Rightarrow> char" where
  "digit_char n = char_of (48 + n)"

definition digit_value :: "char \<Rightarrow> nat" where
  "digit_value c = of_char c - 48"

definition is_digit :: "char \<Rightarrow> bool" where
  "is_digit c \<longleftrightarrow> (48 :: nat) \<le> of_char c \<and> of_char c \<le> (57 :: nat)"

fun str_of_nat :: "nat \<Rightarrow> string" where
  "str_of_nat n =
     (if n < 10 then [digit_char n] else str_of_nat (n div 10) @ [digit_char (n mod 10)])"

declare str_of_nat.simps [simp del]

definition str_of_int :: "int \<Rightarrow> string" where
  "str_of_int i = (if i < 0 then CHR ''-'' # str_of_nat (nat (- i)) else str_of_nat (nat i))"

fun digits_value :: "nat \<Rightarrow> string \<Rightarrow> nat" where
  "digits_value acc [] = acc"
| "digits_value acc (c # cs) = digits_value (10 * acc + digit_value c) cs"

lemma digit_char_simps:
  assumes "n < 10"
  shows "is_digit (digit_char n)" and "digit_value (digit_char n) = n"
  using assms by (simp_all add: is_digit_def digit_char_def digit_value_def)

lemma digits_value_append:
  "digits_value acc (xs @ ys) = digits_value (digits_value acc xs) ys"
  by (induction xs arbitrary: acc) simp_all

lemma digits_value_str_of_nat: "digits_value 0 (str_of_nat n) = n"
proof (induction n rule: str_of_nat.induct)
  case (1 n)
  then show ?case
    by (subst str_of_nat.simps) (auto simp: digits_value_append digit_char_simps)
qed

lemma str_of_nat_digits: "c \<in> set (str_of_nat n) \<Longrightarrow> is_digit c"
proof (induction n rule: str_of_nat.induct)
  case (1 n)
  then show ?case
    by (subst (asm) (2) str_of_nat.simps) (auto simp: digit_char_simps split: if_splits)
qed

lemma str_of_nat_length: "m < 10 ^ p \<Longrightarrow> 0 < p \<Longrightarrow> length (str_of_nat m) \<le> p"
proof (induction m arbitrary: p rule: str_of_nat.induct)
  case (1 m)
  show ?case
  proof (cases "m < 10")
    case True
    then show ?thesis using "1.prems" by (subst str_of_nat.simps) simp
  next
    case False
    obtain q where p: "p = Suc q" using "1.prems"(2) by (cases p) auto
    have "q \<noteq> 0" using False "1.prems"(1) p by (cases q) auto
    then have "0 < q" by simp
    with False have "length (str_of_nat (m div 10)) \<le> q"
      using "1.IH" [OF False, of q] "1.prems"(1) p by (simp add: less_mult_imp_div_less mult.commute)
    then show ?thesis using False p by (subst str_of_nat.simps) simp
  qed
qed

lemma digits_value_join: "digits_value 0 (a @ b) = digits_value 0 a * 10 ^ length b + digits_value 0 b"
proof (induction b rule: rev_induct)
  case (snoc x b)
  have "digits_value 0 (a @ b @ [x]) = 10 * digits_value 0 (a @ b) + digit_value x"
    by (simp only: append_assoc [symmetric] digits_value_append) simp
  with snoc show ?case by (simp add: digits_value_append algebra_simps)
qed simp

lemma str_of_nat_not_Nil [simp]: "str_of_nat n \<noteq> []"
  by (subst str_of_nat.simps) simp

lemma str_of_nat_inject [simp]: "str_of_nat m = str_of_nat n \<longleftrightarrow> m = n"
  by (metis digits_value_str_of_nat)

lemma str_of_nat_hd_digit: "str_of_nat n = c # cs \<Longrightarrow> is_digit c"
  by (rule str_of_nat_digits [of _ n]) simp

lemma not_digit_minus [simp]: "\<not> is_digit (CHR ''-'')"
  by (simp add: is_digit_def)

lemma str_of_int_inject [simp]: "str_of_int i = str_of_int j \<longleftrightarrow> i = j"
proof -
  have no_minus: "str_of_nat m \<noteq> CHR ''-'' # s" for m s
    using str_of_nat_hd_digit not_digit_minus by blast
  show ?thesis
    by (auto simp: str_of_int_def no_minus no_minus [symmetric] split: if_splits)
qed


section \<open>Lists\<close>

lemma concat_append_single [simp]: "concat (xs @ [x]) = concat xs @ x"
  by simp

end
