(* ===== verification/Py_Effects.thy ===== *)
theory Py_Effects
  imports Prelude
begin

text \<open>
  Stateful Python code that may raise: a procedure takes the state and returns a value or an
  exception, and the state it leaves in either case. \<open>try_finally\<close> and \<open>try_except\<close> follow
  Python: a \<open>finally\<close> block runs on both ways out and an exception of its own replaces the one in
  flight. The weakest-precondition equations \<open>wp_simps\<close> turn a claim about a procedure into one
  about its parts.
\<close>

type_synonym ('s, 'a) proc = "'s \<Rightarrow> (exn + 'a) \<times> 's"

definition ret :: "'a \<Rightarrow> ('s, 'a) proc" where
  "ret a s = (Inr a, s)"

definition raising :: "exn \<Rightarrow> ('s, 'a) proc" where
  "raising e s = (Inl e, s)"

definition seq :: "('s, 'a) proc \<Rightarrow> ('a \<Rightarrow> ('s, 'b) proc) \<Rightarrow> ('s, 'b) proc" where
  "seq m f s = (case m s of (Inl e, t) \<Rightarrow> (Inl e, t) | (Inr a, t) \<Rightarrow> f a t)"

definition liftE :: "exn + 'a \<Rightarrow> ('s, 'a) proc" where
  "liftE r s = (r, s)"

definition gets :: "('s \<Rightarrow> 'a) \<Rightarrow> ('s, 'a) proc" where
  "gets f s = (Inr (f s), s)"

definition modify :: "('s \<Rightarrow> 's) \<Rightarrow> ('s, unit) proc" where
  "modify f s = (Inr (), f s)"

definition try_finally :: "('s, 'a) proc \<Rightarrow> ('s, unit) proc \<Rightarrow> ('s, 'a) proc" where
  "try_finally m fin s =
     (case m s of (r, t) \<Rightarrow> (case fin t of (Inl e, u) \<Rightarrow> (Inl e, u) | (Inr _, u) \<Rightarrow> (r, u)))"

definition try_except :: "('s, 'a) proc \<Rightarrow> (exn \<Rightarrow> ('s, 'a) proc) \<Rightarrow> ('s, 'a) proc" where
  "try_except m h s = (case m s of (Inl e, t) \<Rightarrow> h e t | (Inr a, t) \<Rightarrow> (Inr a, t))"

definition whenP :: "bool \<Rightarrow> ('s, unit) proc \<Rightarrow> ('s, unit) proc" where
  "whenP b m = (if b then m else ret ())"

fun for_each :: "('a \<Rightarrow> ('s, unit) proc) \<Rightarrow> 'a list \<Rightarrow> ('s, unit) proc" where
  "for_each f [] = ret ()"
| "for_each f (x # xs) = seq (f x) (\<lambda>_. for_each f xs)"

fun map_each :: "('a \<Rightarrow> ('s, 'b) proc) \<Rightarrow> 'a list \<Rightarrow> ('s, 'b list) proc" where
  "map_each f [] = ret []"
| "map_each f (x # xs) = seq (f x) (\<lambda>y. seq (map_each f xs) (\<lambda>ys. ret (y # ys)))"


section \<open>Running\<close>

lemmas proc_defs = ret_def raising_def seq_def liftE_def gets_def modify_def try_finally_def
  try_except_def whenP_def

lemma ret_run: "ret a s = (Inr a, s)" by (simp add: ret_def)
lemma raising_run: "raising e s = (Inl e, s)" by (simp add: raising_def)
lemma liftE_run: "liftE r s = (r, s)" by (simp add: liftE_def)
lemma gets_run [simp]: "gets f s = (Inr (f s), s)" by (simp add: gets_def)
lemma modify_run [simp]: "modify f s = (Inr (), f s)" by (simp add: modify_def)

lemma seq_run [simp]:
  "m s = (Inr a, t) \<Longrightarrow> seq m f s = f a t"
  "m s = (Inl e, t) \<Longrightarrow> seq m f s = (Inl e, t)"
  by (simp_all add: seq_def)

lemma seq_ret [simp]: "seq (ret a) f = f a"
  by (rule ext) (simp add: ret_def)

lemma seq_raising [simp]: "seq (raising e) f = raising e"
  by (rule ext) (simp add: raising_def)

lemma seq_ret_right: "seq m ret = m"
  by (rule ext) (auto simp: seq_def ret_def split: prod.splits sum.splits)

lemma seq_assoc: "seq (seq m f) g = seq m (\<lambda>x. seq (f x) g)"
  by (rule ext) (auto simp: seq_def split: prod.splits sum.splits)

lemma seq_Inr: "seq m f w = (Inr a, w') \<longleftrightarrow> (\<exists>b u. m w = (Inr b, u) \<and> f b u = (Inr a, w'))"
  by (auto simp: seq_def split: prod.splits sum.splits)

lemma seq_Inl:
  "seq m f w = (Inl e, w') \<longleftrightarrow>
     m w = (Inl e, w') \<or> (\<exists>b u. m w = (Inr b, u) \<and> f b u = (Inl e, w'))"
  by (auto simp: seq_def split: prod.splits sum.splits)

lemma try_finally_result:
  "try_finally m h w = (r, w') \<Longrightarrow> \<exists>x u y. m w = (x, u) \<and> h u = (y, w')
     \<and> r = (case y of Inl e \<Rightarrow> Inl e | Inr _ \<Rightarrow> x)"
  by (auto simp: try_finally_def split: prod.splits sum.splits)

lemma whenP_simps [simp]: "whenP True m = m" "whenP False m = ret ()"
  by (simp_all add: whenP_def)


section \<open>Weakest preconditions\<close>

text \<open>\<open>wp m Q E s\<close>: run from \<open>s\<close>, procedure \<open>m\<close> returns into \<open>Q\<close> or raises into \<open>E\<close>.\<close>

definition wp :: "('s, 'a) proc \<Rightarrow> ('a \<Rightarrow> 's \<Rightarrow> bool) \<Rightarrow> (exn \<Rightarrow> 's \<Rightarrow> bool) \<Rightarrow> 's \<Rightarrow> bool" where
  "wp m Q E s = (case m s of (Inl e, t) \<Rightarrow> E e t | (Inr a, t) \<Rightarrow> Q a t)"

lemma wp_ret: "wp (ret a) Q E s = Q a s" by (simp add: wp_def ret_def)
lemma wp_raising: "wp (raising e) Q E s = E e s" by (simp add: wp_def raising_def)
lemma wp_gets: "wp (gets f) Q E s = Q (f s) s" by (simp add: wp_def)
lemma wp_modify: "wp (modify f) Q E s = Q () (f s)" by (simp add: wp_def)

lemma wp_liftE: "wp (liftE r) Q E s = (case r of Inl e \<Rightarrow> E e s | Inr a \<Rightarrow> Q a s)"
  by (simp add: wp_def liftE_def)

lemma wp_seq: "wp (seq m f) Q E s = wp m (\<lambda>a. wp (f a) Q E) E s"
  by (auto simp: wp_def seq_def split: prod.splits sum.splits)

lemma wp_try_finally:
  "wp (try_finally m fin) Q E s =
     wp m (\<lambda>a. wp fin (\<lambda>_. Q a) E) (\<lambda>e. wp fin (\<lambda>_. E e) E) s"
  by (auto simp: wp_def try_finally_def split: prod.splits sum.splits)

lemma wp_try_except:
  "wp (try_except m h) Q E s = wp m Q (\<lambda>e. wp (h e) Q E) s"
  by (auto simp: wp_def try_except_def split: prod.splits sum.splits)

lemma wp_whenP: "wp (whenP b m) Q E s = (if b then wp m Q E s else Q () s)"
  by (simp add: wp_def ret_def)

lemma wp_if: "wp (if b then m else n) Q E s = (if b then wp m Q E s else wp n Q E s)"
  by simp

lemmas wp_simps = wp_ret wp_raising wp_gets wp_modify wp_liftE wp_seq wp_try_finally
  wp_try_except wp_whenP wp_if

lemma wp_mono:
  "wp m Q E s \<Longrightarrow> (\<And>a t. Q a t \<Longrightarrow> Q' a t) \<Longrightarrow> (\<And>e t. E e t \<Longrightarrow> E' e t) \<Longrightarrow> wp m Q' E' s"
  by (auto simp: wp_def split: prod.splits sum.splits)

lemma wp_conj:
  "wp m Q E s \<Longrightarrow> wp m Q' E' s \<Longrightarrow> wp m (\<lambda>a t. Q a t \<and> Q' a t) (\<lambda>e t. E e t \<and> E' e t) s"
  by (auto simp: wp_def split: prod.splits sum.splits)

lemma wp_Inr: "wp m Q E s \<Longrightarrow> m s = (Inr a, t) \<Longrightarrow> Q a t"
  by (simp add: wp_def)

lemma wp_Inl: "wp m Q E s \<Longrightarrow> m s = (Inl e, t) \<Longrightarrow> E e t"
  by (simp add: wp_def)

text \<open>A state predicate that a procedure keeps on every way out.\<close>

definition keeps :: "('s \<Rightarrow> bool) \<Rightarrow> ('s, 'a) proc \<Rightarrow> bool" where
  "keeps I m \<longleftrightarrow> (\<forall>s. I s \<longrightarrow> wp m (\<lambda>_. I) (\<lambda>_. I) s)"

lemma keepsD: "keeps I m \<Longrightarrow> I s \<Longrightarrow> wp m (\<lambda>_. I) (\<lambda>_. I) s"
  by (simp add: keeps_def)

lemma keeps_run: "keeps I m \<Longrightarrow> I s \<Longrightarrow> I (snd (m s))"
  by (cases "m s"; cases "fst (m s)") (auto simp: keeps_def wp_def)

lemma keeps_snd: "keeps I m \<longleftrightarrow> (\<forall>s. I s \<longrightarrow> I (snd (m s)))"
proof -
  have "wp m (\<lambda>_. I) (\<lambda>_. I) s \<longleftrightarrow> I (snd (m s))" for s
    by (cases "m s"; cases "fst (m s)") (simp_all add: wp_def)
  then show ?thesis by (simp add: keeps_def)
qed

named_theorems keeps_intros \<open>rules that build \<open>keeps\<close> along the code\<close>

lemma keeps_ret [keeps_intros]: "keeps I (ret a)"
  by (simp add: keeps_def wp_simps)

lemma keeps_raising [keeps_intros]: "keeps I (raising e)"
  by (simp add: keeps_def wp_simps)

lemma keeps_gets [keeps_intros]: "keeps I (gets f)"
  by (simp add: keeps_def wp_simps)

lemma keeps_liftE [keeps_intros]: "keeps I (liftE r)"
  by (auto simp: keeps_def wp_simps split: sum.splits)

lemma keeps_seq [keeps_intros]: "keeps I m \<Longrightarrow> (\<And>a. keeps I (f a)) \<Longrightarrow> keeps I (seq m f)"
  by (auto simp: keeps_def wp_simps elim!: wp_mono)

lemma keeps_whenP [keeps_intros]: "keeps I m \<Longrightarrow> keeps I (whenP b m)"
  by (simp add: keeps_def wp_simps)

lemma keeps_if [keeps_intros]: "(b \<Longrightarrow> keeps I m) \<Longrightarrow> (\<not> b \<Longrightarrow> keeps I n) \<Longrightarrow> keeps I (if b then m else n)"
  by simp

lemma keeps_try_finally [keeps_intros]: "keeps I m \<Longrightarrow> keeps I fin \<Longrightarrow> keeps I (try_finally m fin)"
  unfolding keeps_def wp_try_finally by (blast intro: wp_mono)

lemma keeps_try_except [keeps_intros]:
  "keeps I m \<Longrightarrow> (\<And>e. keeps I (h e)) \<Longrightarrow> keeps I (try_except m h)"
  unfolding keeps_def wp_try_except by (blast intro: wp_mono)

lemma keeps_for_each [keeps_intros]: "(\<And>x. keeps I (f x)) \<Longrightarrow> keeps I (for_each f xs)"
  by (induction xs) (auto intro: keeps_intros)

lemma keeps_map_each [keeps_intros]: "(\<And>x. keeps I (f x)) \<Longrightarrow> keeps I (map_each f xs)"
  by (induction xs) (auto intro!: keeps_intros)

end
