(* ===== verification/Py_Text.thy ===== *)
theory Py_Text
  imports Prelude "HOL-Library.Word"
begin

text \<open>
  Python's \<open>bytes\<close> and the text operations of its standard library that the program calls:
  \<open>bytes.decode("utf-8", errors="replace")\<close>, \<open>str.strip\<close>, \<open>int(str)\<close> and \<open>str.encode\<close>.
  Decoding follows CPython: every maximal ill-formed piece of a sequence becomes one U+FFFD.
\<close>

type_synonym byte = "8 word"
type_synonym bytes = "byte list"

definition char_of_byte :: "byte \<Rightarrow> char" where
  "char_of_byte b = char_of (unat b)"

definition byte_of_char :: "char \<Rightarrow> byte" where
  "byte_of_char c = of_nat (of_char c)"

definition encode :: "string \<Rightarrow> bytes" where
  "encode s = map byte_of_char s"

lemma char_code_less: "(of_char c :: nat) < 256"
proof -
  have "(of_char c :: nat) mod 256 < 256" by simp
  then show ?thesis by simp
qed

lemma byte_of_char_of_byte [simp]: "byte_of_char (char_of_byte b) = b"
proof -
  have "unat b < 256" using unsigned_less [of b, where ?'a = nat] by simp
  then show ?thesis by (simp add: byte_of_char_def char_of_byte_def)
qed

lemma char_of_byte_of_char [simp]: "char_of_byte (byte_of_char c) = c"
  using char_code_less [of c]
  by (simp add: byte_of_char_def char_of_byte_def unat_of_nat)

lemma encode_simps [simp]:
  "encode [] = []"
  "encode (c # s) = byte_of_char c # encode s"
  "encode (s @ t) = encode s @ encode t"
  by (simp_all add: encode_def)

lemma length_encode [simp]: "length (encode s) = length s"
  by (simp add: encode_def)

lemma map_char_of_byte_encode [simp]: "map char_of_byte (encode s) = s"
  by (induction s) simp_all

lemma encode_map_char_of_byte [simp]: "encode (map char_of_byte bs) = bs"
  by (induction bs) simp_all


section \<open>UTF-8 sequences\<close>

text \<open>\<open>need n ranges rest\<close> checks the continuation bytes after \<open>n\<close> bytes already taken, and
  returns whether all are in range and how many bytes the (maximal) piece has.\<close>

fun need :: "nat \<Rightarrow> (byte \<times> byte) list \<Rightarrow> bytes \<Rightarrow> bool \<times> nat" where
  "need n [] bs = (True, n)"
| "need n (r # rs) [] = (False, n)"
| "need n ((lo, hi) # rs) (b # bs) = (if lo \<le> b \<and> b \<le> hi then need (Suc n) rs bs else (False, n))"

fun continuations :: "byte \<Rightarrow> (byte \<times> byte) list option" where
  "continuations b =
     (if b < 0x80 then Some []
      else if 0xC2 \<le> b \<and> b \<le> 0xDF then Some [(0x80, 0xBF)]
      else if b = 0xE0 then Some [(0xA0, 0xBF), (0x80, 0xBF)]
      else if b = 0xED then Some [(0x80, 0x9F), (0x80, 0xBF)]
      else if 0xE1 \<le> b \<and> b \<le> 0xEF then Some [(0x80, 0xBF), (0x80, 0xBF)]
      else if b = 0xF0 then Some [(0x90, 0xBF), (0x80, 0xBF), (0x80, 0xBF)]
      else if 0xF1 \<le> b \<and> b \<le> 0xF3 then Some [(0x80, 0xBF), (0x80, 0xBF), (0x80, 0xBF)]
      else if b = 0xF4 then Some [(0x80, 0x8F), (0x80, 0xBF), (0x80, 0xBF)]
      else None)"

declare continuations.simps [simp del]

fun utf8_step :: "bytes \<Rightarrow> bool \<times> nat" where
  "utf8_step [] = (True, 0)"
| "utf8_step (b # bs) =
     (case continuations b of None \<Rightarrow> (False, 1) | Some rs \<Rightarrow> need 1 rs bs)"

lemma need_bounds: "need n rs bs = (ok, k) \<Longrightarrow> n \<le> k \<and> k \<le> n + length bs"
  by (induction n rs bs rule: need.induct) (auto split: if_splits)

lemma need_ok: "need n rs bs = (True, k) \<Longrightarrow> k = n + length rs"
  by (induction n rs bs rule: need.induct) (auto split: if_splits)

lemma utf8_step_bounds:
  "utf8_step (b # bs) = (ok, k) \<Longrightarrow> 1 \<le> k \<and> k \<le> Suc (length bs)"
  by (auto split: option.splits dest: need_bounds)

lemma utf8_step_positive: "0 < snd (utf8_step (b # bs))"
  by (cases "utf8_step (b # bs)") (auto dest: utf8_step_bounds simp del: utf8_step.simps)

text \<open>U+FFFD, the replacement character, in UTF-8.\<close>

definition replacement :: bytes where
  "replacement = [0xEF, 0xBF, 0xBD]"

text \<open>\<open>pieces bs\<close> cuts a byte string into the code points and the ill-formed pieces a decoder
  sees.\<close>

function pieces :: "bytes \<Rightarrow> (bool \<times> bytes) list" where
  "pieces bs =
     (if bs = [] then []
      else (let n = snd (utf8_step bs)
            in (fst (utf8_step bs), take n bs) # pieces (drop n bs)))"
  by pat_completeness auto
termination
  by (relation "measure length") (use utf8_step_positive in \<open>auto simp: neq_Nil_conv simp del: utf8_step.simps\<close>)

declare pieces.simps [simp del]

definition decode_piece :: "bool \<times> bytes \<Rightarrow> bytes" where
  "decode_piece p = (if fst p then snd p else replacement)"

definition decode_replace :: "bytes \<Rightarrow> string" where
  "decode_replace bs = map char_of_byte (concat (map decode_piece (pieces bs)))"

definition well_formed :: "bytes \<Rightarrow> bool" where
  "well_formed bs \<longleftrightarrow> (\<forall>p \<in> set (pieces bs). fst p)"

text \<open>The code points of a string, each as its UTF-8 bytes.\<close>

definition code_points :: "string \<Rightarrow> string list" where
  "code_points s = map (map char_of_byte \<circ> snd) (pieces (encode s))"

definition str_len :: "string \<Rightarrow> nat" where
  "str_len s = length (code_points s)"

lemma pieces_Nil [simp]: "pieces [] = []"
  by (simp add: pieces.simps)

lemma concat_pieces: "concat (map snd (pieces bs)) = bs"
proof (induction bs rule: pieces.induct)
  case (1 bs)
  then show ?case by (subst pieces.simps) (auto simp: Let_def)
qed

lemma pieces_nonempty: "(b, q) \<in> set (pieces bs) \<Longrightarrow> q \<noteq> []"
proof (induction bs rule: pieces.induct)
  case (1 bs)
  show ?case
  proof (cases bs)
    case Nil
    with "1.prems" show ?thesis by simp
  next
    case (Cons c cs)
    have "0 < snd (utf8_step bs)" unfolding Cons by (rule utf8_step_positive)
    with "1.prems" "1.IH" Cons show ?thesis
      by (subst (asm) pieces.simps) (auto simp: Let_def simp del: utf8_step.simps)
  qed
qed

lemma code_points_nonempty: "cp \<in> set (code_points s) \<Longrightarrow> cp \<noteq> []"
  using pieces_nonempty by (auto simp: code_points_def)

lemma concat_code_points: "concat (code_points s) = s"
proof -
  have "concat (code_points s) = map char_of_byte (concat (map snd (pieces (encode s))))"
    by (simp add: code_points_def map_concat comp_def)
  then show ?thesis by (simp add: concat_pieces)
qed

text \<open>A well-formed prefix is decoded on its own.\<close>

lemma need_append: "need n rs bs = (True, k) \<Longrightarrow> need n rs (bs @ cs) = (True, k)"
  by (induction n rs bs rule: need.induct) (auto split: if_splits)

lemma utf8_step_append:
  "bs \<noteq> [] \<Longrightarrow> utf8_step bs = (True, k) \<Longrightarrow> utf8_step (bs @ cs) = (True, k)"
  by (cases bs) (auto split: option.splits dest: need_append)

lemma utf8_step_le: "bs \<noteq> [] \<Longrightarrow> utf8_step bs = (ok, k) \<Longrightarrow> 1 \<le> k \<and> k \<le> length bs"
  by (cases bs) (auto simp del: utf8_step.simps dest: utf8_step_bounds)

lemma pieces_append:
  "well_formed bs \<Longrightarrow> pieces (bs @ cs) = pieces bs @ pieces cs"
proof (induction bs rule: pieces.induct)
  case (1 bs)
  show ?case
  proof (cases "bs = []")
    case False
    obtain ok n where step: "utf8_step bs = (ok, n)" by fastforce
    with False have pb: "pieces bs = (ok, take n bs) # pieces (drop n bs)"
      by (subst pieces.simps) simp
    with "1.prems" have ok: "ok" and wf: "well_formed (drop n bs)"
      by (auto simp: well_formed_def)
    from step ok have "utf8_step (bs @ cs) = (True, n)"
      using False by (auto intro: utf8_step_append)
    moreover have "n \<le> length bs" using utf8_step_le [OF False step] by simp
    ultimately have "pieces (bs @ cs) = (True, take n bs) # pieces (drop n bs @ cs)"
      using False by (subst pieces.simps) simp
    moreover have "pieces (drop n bs @ cs) = pieces (drop n bs) @ pieces cs"
      using "1.IH" False step wf by simp
    ultimately show ?thesis using pb ok by simp
  qed simp
qed

lemma decode_replace_append:
  "well_formed bs \<Longrightarrow> decode_replace (bs @ cs) = decode_replace bs @ decode_replace cs"
  by (simp add: decode_replace_def pieces_append)

lemma decode_replace_Nil [simp]: "decode_replace [] = []"
  by (simp add: decode_replace_def)

lemma decode_replace_well_formed:
  assumes "well_formed bs"
  shows "decode_replace bs = map char_of_byte bs"
proof -
  have "concat (map decode_piece (pieces bs)) = concat (map snd (pieces bs))"
    using assms by (intro arg_cong [where f = concat] map_cong) (auto simp: well_formed_def decode_piece_def)
  then show ?thesis by (simp add: decode_replace_def concat_pieces)
qed

lemma well_formed_Nil [simp]: "well_formed []"
  by (simp add: well_formed_def)

lemma well_formed_append:
  "well_formed bs \<Longrightarrow> well_formed (bs @ cs) \<longleftrightarrow> well_formed cs"
  by (auto simp: well_formed_def pieces_append)

lemma ascii_well_formed:
  assumes "\<forall>b \<in> set bs. b < 0x80"
  shows "well_formed bs"
  using assms
proof (induction bs)
  case (Cons b bs)
  then have "pieces (b # bs) = (True, [b]) # pieces bs"
    by (subst pieces.simps) (simp add: continuations.simps)
  with Cons show ?case by (simp add: well_formed_def)
qed simp

lemma well_formed_replacement: "well_formed replacement"
proof -
  have "pieces replacement = [(True, replacement)]"
    by (subst pieces.simps) (simp add: replacement_def continuations.simps)
  then show ?thesis by (simp add: well_formed_def)
qed

lemma need_take: "need n rs bs = (True, n + length rs) \<Longrightarrow> need n rs (take (length rs) bs) = (True, n + length rs)"
proof (induction rs arbitrary: n bs)
  case (Cons r rs)
  obtain lo hi where r: "r = (lo, hi)" by fastforce
  show ?case
  proof (cases bs)
    case Nil
    with Cons.prems show ?thesis by (simp add: r)
  next
    case (Cons b bs')
    with Cons.prems have "lo \<le> b \<and> b \<le> hi" and "need (Suc n) rs bs' = (True, Suc n + length rs)"
      by (auto simp: r split: if_splits)
    with Cons.IH [of "Suc n" bs'] show ?thesis by (simp add: r Cons)
  qed
qed simp

lemma utf8_step_take:
  assumes "bs \<noteq> []" and "utf8_step bs = (True, k)"
  shows "utf8_step (take k bs) = (True, k)"
proof -
  obtain b r where bs: "bs = b # r" using assms(1) by (cases bs) auto
  with assms(2) obtain rs where rs: "continuations b = Some rs" and need: "need 1 rs r = (True, k)"
    by (auto split: option.splits)
  have k: "k = 1 + length rs" using need_ok [OF need] .
  with need have "need 1 rs (take (length rs) r) = (True, k)" using need_take [of 1 rs r] by simp
  with rs show ?thesis by (simp add: bs k)
qed

lemma well_formed_piece:
  assumes "(True, p) \<in> set (pieces bs)"
  shows "well_formed p"
  using assms
proof (induction bs rule: pieces.induct)
  case (1 bs)
  show ?case
  proof (cases "bs = []")
    case False
    obtain ok n where step: "utf8_step bs = (ok, n)" by fastforce
    have n: "1 \<le> n" "n \<le> length bs" using utf8_step_le [OF False step] by auto
    from "1.prems" step False have "ok \<and> p = take n bs \<or> (True, p) \<in> set (pieces (drop n bs))"
      by (subst (asm) pieces.simps) auto
    then show ?thesis
    proof
      assume p: "ok \<and> p = take n bs"
      then have "utf8_step p = (True, n)" using step utf8_step_take [OF False] by simp
      moreover have "p \<noteq> []" "length p = n" using p n False by auto
      ultimately have "pieces p = [(True, p)]" by (subst pieces.simps) simp
      then show ?thesis by (simp add: well_formed_def)
    next
      assume "(True, p) \<in> set (pieces (drop n bs))"
      then show ?thesis using "1.IH" False step by simp
    qed
  qed (use "1.prems" in simp)
qed

lemma well_formed_concat: "(\<forall>p \<in> set ps. well_formed p) \<Longrightarrow> well_formed (concat ps)"
  by (induction ps) (simp_all add: well_formed_append)

text \<open>What \<open>decode_replace\<close> returns is well-formed text, whatever the bytes.\<close>

lemma well_formed_decode_replace: "well_formed (encode (decode_replace bs))"
proof -
  have "well_formed (decode_piece p)" if "p \<in> set (pieces bs)" for p
  proof (cases p)
    case (Pair ok q)
    with that well_formed_piece [of q bs] well_formed_replacement show ?thesis
      by (cases ok) (auto simp: decode_piece_def)
  qed
  then show ?thesis by (simp add: decode_replace_def well_formed_concat)
qed


section \<open>Whitespace and numbers\<close>

definition ascii_space :: "char \<Rightarrow> bool" where
  "ascii_space c \<longleftrightarrow> (let n = of_char c :: nat in (9 \<le> n \<and> n \<le> 13) \<or> (28 \<le> n \<and> n \<le> 32))"

text \<open>\<open>str.isspace\<close> for one code point, given by its UTF-8 bytes.\<close>

definition is_space :: "string \<Rightarrow> bool" where
  "is_space cp \<longleftrightarrow>
     (case map of_char cp :: nat list of
        [a] \<Rightarrow> (9 \<le> a \<and> a \<le> 13) \<or> (28 \<le> a \<and> a \<le> 32)
      | [a, b] \<Rightarrow> a = 0xC2 \<and> (b = 0x85 \<or> b = 0xA0)
      | [a, b, c] \<Rightarrow>
          (a = 0xE1 \<and> b = 0x9A \<and> c = 0x80)
          \<or> (a = 0xE2 \<and> b = 0x80 \<and> ((0x80 \<le> c \<and> c \<le> 0x8A) \<or> c = 0xA8 \<or> c = 0xA9 \<or> c = 0xAF))
          \<or> (a = 0xE2 \<and> b = 0x81 \<and> c = 0x9F)
          \<or> (a = 0xE3 \<and> b = 0x80 \<and> c = 0x80)
      | _ \<Rightarrow> False)"

definition strip :: "string \<Rightarrow> string" where
  "strip s = concat (strip_by is_space (code_points s))"

text \<open>The body of \<open>int(s)\<close>: decimal digits, with single underscores between digits.\<close>

fun int_digits :: "bool \<Rightarrow> nat \<Rightarrow> string \<Rightarrow> nat option" where
  "int_digits after_digit acc [] = (if after_digit then Some acc else None)"
| "int_digits after_digit acc (c # cs) =
     (if is_digit c then int_digits True (10 * acc + digit_value c) cs
      else if c = CHR ''_'' \<and> after_digit \<and> cs \<noteq> [] then int_digits False acc cs
      else None)"

definition int_of_str :: "string \<Rightarrow> int result" where
  "int_of_str s =
     (let t = strip s;
          (neg, body) = (case t of
             [] \<Rightarrow> (False, [])
           | c # cs \<Rightarrow> if c = CHR ''-'' then (True, cs) else if c = CHR ''+'' then (False, cs) else (False, t))
      in (case int_digits False 0 body of
            None \<Rightarrow> Inl (ValueError ''invalid literal for int() with base 10'')
          | Some n \<Rightarrow> Inr (if neg then - int n else int n)))"

lemma code_points_Nil [simp]: "code_points [] = []"
  by (simp add: code_points_def)

lemma strip_Nil [simp]: "strip [] = []"
  by (simp add: strip_def)

lemma code_points_ascii:
  assumes "\<forall>c \<in> set s. (of_char c :: nat) < 128"
  shows "code_points s = map (\<lambda>c. [c]) s"
  using assms
proof (induction s)
  case (Cons c s)
  have "unat (byte_of_char c) = of_char c"
    by (simp add: byte_of_char_def unat_of_nat)
  with Cons.prems have "byte_of_char c < 0x80" by (simp add: word_less_nat_alt)
  then have "pieces (encode (c # s)) = (True, [byte_of_char c]) # pieces (encode s)"
    by (subst pieces.simps) (simp add: continuations.simps)
  with Cons show ?case by (simp add: code_points_def)
qed simp

lemma dropWhile_single: "dropWhile P (map (\<lambda>c. [c]) s) = map (\<lambda>c. [c]) (dropWhile (\<lambda>c. P [c]) s)"
  by (induction s) simp_all

lemma rev_map_single: "rev (map (\<lambda>c. [c]) s) = map (\<lambda>c. [c]) (rev s)"
  by (rule rev_map)

lemma strip_ascii:
  assumes "\<forall>c \<in> set s. (of_char c :: nat) < 128"
  shows "strip s = strip_by ascii_space s"
proof -
  have sp: "is_space [c] \<longleftrightarrow> ascii_space c" for c
    by (simp add: is_space_def ascii_space_def Let_def)
  have "strip_by is_space (map (\<lambda>c. [c]) s) = map (\<lambda>c. [c]) (strip_by ascii_space s)"
    by (simp add: strip_by_def dropWhile_single sp rev_map_single)
  moreover have "concat (map (\<lambda>c. [c]) t) = t" for t :: string
    by (induction t) simp_all
  ultimately show ?thesis by (simp add: strip_def code_points_ascii [OF assms])
qed

text \<open>Stripping ASCII text needs no decoding.\<close>

definition ascii_char :: "char \<Rightarrow> bool" where
  "ascii_char c \<longleftrightarrow> (of_char c :: nat) < 128"

lemma ascii_char_code [code]: "ascii_char c \<longleftrightarrow> \<not> digit7 c"
  by (cases c) (simp add: ascii_char_def of_bool_def split: if_splits)

lemma strip_code [code]:
  "strip s = (if list_all ascii_char s then strip_by ascii_space s
              else concat (strip_by is_space (code_points s)))"
  using strip_ascii [of s] by (auto simp: list_all_iff ascii_char_def strip_def)

lemma int_digits_digits:
  "s \<noteq> [] \<or> b \<Longrightarrow> \<forall>c \<in> set s. is_digit c \<Longrightarrow> int_digits b acc s = Some (digits_value acc s)"
  by (induction s arbitrary: b acc) auto

end
