(* ===== verification/Py_Fs.thy ===== *)
theory Py_Fs
  imports Py_Effects Py_Text "HOL-Library.AList"
begin

text \<open>
  The file system and the operations of \<open>os\<close> and \<open>pathlib\<close> the runtime calls, on POSIX. A path in
  the file system is the list of its components from the root. \<open>realpath\<close> is the algorithm of
  \<open>os.path.realpath(..., strict=False)\<close> of the Python the image installs (3.14): a stack of parts
  still to resolve, and a table of the symbolic links already seen, which breaks link cycles.
\<close>

type_synonym path = "string list"

datatype node = Dir | File bytes | Link string

type_synonym fs = "(path \<times> node) list"

definition node_at :: "fs \<Rightarrow> path \<Rightarrow> node option" where
  "node_at fs p = (if p = [] then Some Dir else map_of fs p)"

definition link_at :: "fs \<Rightarrow> path \<Rightarrow> string option" where
  "link_at fs p = (case node_at fs p of Some (Link t) \<Rightarrow> Some t | _ \<Rightarrow> None)"

definition is_dir :: "fs \<Rightarrow> path \<Rightarrow> bool" where
  "is_dir fs p \<longleftrightarrow> node_at fs p = Some Dir"

definition is_file :: "fs \<Rightarrow> path \<Rightarrow> bool" where
  "is_file fs p \<longleftrightarrow> (\<exists>b. node_at fs p = Some (File b))"

lemma is_file_code [code]:
  "is_file fs p = (case node_at fs p of Some (File b) \<Rightarrow> True | _ \<Rightarrow> False)"
  by (auto simp: is_file_def split: option.splits node.splits)


section \<open>Pure paths\<close>

text \<open>A \<open>PurePosixPath\<close>: whether it is absolute and its parts; empty parts and \<open>.\<close> are dropped.\<close>

record pure_path =
  absolute :: bool
  parts :: "string list"

definition parse_path :: "string \<Rightarrow> pure_path" where
  "parse_path s =
     \<lparr>absolute = startswith s ''/'',
      parts = filter (\<lambda>c. c \<noteq> [] \<and> c \<noteq> ''.'') (split_on (CHR ''/'') s)\<rparr>"


section \<open>Resolving symbolic links\<close>

datatype item = Part string | Resolved path

type_synonym seen = "(path \<times> path option) list"

definition unseen_links :: "fs \<Rightarrow> seen \<Rightarrow> nat" where
  "unseen_links fs seen =
     length (filter (\<lambda>(p, n). (\<exists>t. n = Link t) \<and> p \<notin> fst ` set seen) fs)"

lemma unseen_links_insert: "unseen_links fs ((q, v) # seen) \<le> unseen_links fs seen"
  unfolding unseen_links_def by (induction fs) auto

lemma unseen_links_expand:
  assumes "link_at fs p = Some t" and "map_of seen p = None"
  shows "unseen_links fs ((p, v) # seen) < unseen_links fs seen"
proof -
  have "(p, Link t) \<in> set fs"
    using assms(1) by (auto simp: link_at_def node_at_def split: option.splits node.splits if_splits
        dest: map_of_SomeD)
  moreover have "p \<notin> fst ` set seen" using assms(2) by (simp add: map_of_eq_None_iff)
  ultimately show ?thesis
  proof (induction fs)
    case (Cons e fs)
    show ?case
    proof (cases "e = (p, Link t)")
      case True
      then show ?thesis
        using unseen_links_insert [of fs p v seen] Cons.prems(2) by (simp add: unseen_links_def)
    next
      case False
      with Cons have "unseen_links fs ((p, v) # seen) < unseen_links fs seen" by simp
      then show ?thesis by (auto simp: unseen_links_def)
    qed
  qed simp
qed

text \<open>\<open>realpath_loop fs path rest seen looped\<close>: the loop of \<open>realpath\<close>; \<open>path\<close> is the part resolved
  so far and \<open>rest\<close> the stack, its top first. \<open>looped\<close> only records whether a link cycle was met
  (the code keeps the link unresolved there); it does not influence the path.\<close>

function realpath_loop :: "fs \<Rightarrow> path \<Rightarrow> item list \<Rightarrow> seen \<Rightarrow> bool \<Rightarrow> path \<times> bool" where
  "realpath_loop fs path [] seen looped = (path, looped)"
| "realpath_loop fs path (Resolved q # rest) seen looped =
     realpath_loop fs path rest ((q, Some path) # seen) looped"
| "realpath_loop fs path (Part name # rest) seen looped =
     (if name = [] \<or> name = ''.'' then realpath_loop fs path rest seen looped
      else if name = ''..'' then realpath_loop fs (butlast path) rest seen looped
      else (case link_at fs (path @ [name]) of
              None \<Rightarrow> realpath_loop fs (path @ [name]) rest seen looped
            | Some target \<Rightarrow>
                (case map_of seen (path @ [name]) of
                   Some (Some p) \<Rightarrow> realpath_loop fs p rest seen looped
                 | Some None \<Rightarrow> realpath_loop fs (path @ [name]) rest seen True
                 | None \<Rightarrow>
                     realpath_loop fs (if startswith target ''/'' then [] else path)
                       (map Part (split_on (CHR ''/'') target) @ Resolved (path @ [name]) # rest)
                       ((path @ [name], None) # seen) looped)))"
  by pat_completeness auto
termination
  by (relation "measures [\<lambda>(fs, _, _, seen, _). unseen_links fs seen, \<lambda>(_, _, rest, _, _). length rest]")
     (use unseen_links_insert unseen_links_expand in \<open>auto simp: less_le\<close>)

declare realpath_loop.simps [simp del]
lemmas realpath_loop_Nil [simp] = realpath_loop.simps(1)

lemma realpath_loop_cong:
  assumes "link_at fs' = link_at fs"
  shows "realpath_loop fs' path rest seen looped = realpath_loop fs path rest seen looped"
  using assms
proof (induction fs path rest seen looped rule: realpath_loop.induct)
  case (3 fs path name rest seen looped)
  then show ?case
    by (subst (1 2) realpath_loop.simps(3)) (auto split: option.split)
qed (simp_all add: realpath_loop.simps)

definition realpath_run :: "fs \<Rightarrow> path \<Rightarrow> pure_path \<Rightarrow> path \<times> bool" where
  "realpath_run fs cwd p =
     realpath_loop fs (if absolute p then [] else cwd) (map Part (parts p)) [] False"

definition realpath :: "fs \<Rightarrow> path \<Rightarrow> pure_path \<Rightarrow> path" where
  "realpath fs cwd p = fst (realpath_run fs cwd p)"

definition meets_cycle :: "fs \<Rightarrow> path \<Rightarrow> pure_path \<Rightarrow> bool" where
  "meets_cycle fs cwd p = snd (realpath_run fs cwd p)"


section \<open>What the result of \<open>realpath\<close> is\<close>

definition canonical :: "path \<Rightarrow> bool" where
  "canonical p \<longleftrightarrow> (\<forall>c \<in> set p. c \<noteq> [] \<and> c \<noteq> ''.'' \<and> c \<noteq> ''..'' \<and> CHR ''/'' \<notin> set c)"

definition link_free :: "fs \<Rightarrow> path \<Rightarrow> bool" where
  "link_free fs p \<longleftrightarrow> (\<forall>q. prefix q p \<longrightarrow> link_at fs q = None)"

lemma link_at_root [simp]: "link_at fs [] = None"
  by (simp add: link_at_def node_at_def)

lemma canonical_simps [simp]:
  "canonical []"
  "canonical (p @ q) \<longleftrightarrow> canonical p \<and> canonical q"
  "canonical (c # p) \<longleftrightarrow> (c \<noteq> [] \<and> c \<noteq> ''.'' \<and> c \<noteq> ''..'' \<and> CHR ''/'' \<notin> set c) \<and> canonical p"
  by (auto simp: canonical_def)

lemma canonical_butlast: "canonical p \<Longrightarrow> canonical (butlast p)"
  by (auto simp: canonical_def dest: in_set_butlastD)

lemma link_free_Nil [simp]: "link_free fs []"
  by (simp add: link_free_def)

lemma link_free_snoc: "link_free fs (p @ [c]) \<longleftrightarrow> link_free fs p \<and> link_at fs (p @ [c]) = None"
  by (auto simp: link_free_def)

lemma link_free_prefix: "link_free fs p \<Longrightarrow> prefix q p \<Longrightarrow> link_free fs q"
  by (auto simp: link_free_def dest: prefix_order.trans)

lemma link_free_butlast: "link_free fs p \<Longrightarrow> link_free fs (butlast p)"
  by (rule link_free_prefix) (auto simp: prefixeq_butlast)

definition item_ok :: "item \<Rightarrow> bool" where
  "item_ok i = (case i of Part c \<Rightarrow> CHR ''/'' \<notin> set c | Resolved q \<Rightarrow> True)"

lemma item_ok_simps [simp]: "item_ok (Part c) \<longleftrightarrow> CHR ''/'' \<notin> set c" "item_ok (Resolved q)"
  by (simp_all add: item_ok_def)

lemma split_items_ok: "list_all item_ok (map Part (split_on (CHR ''/'') s))"
  by (auto simp: list_all_iff dest: split_on_no_sep)

lemma realpath_loop_canonical:
  assumes "canonical path" and "list_all item_ok rest"
    and "\<forall>q p. (q, Some p) \<in> set seen \<longrightarrow> canonical p"
  shows "canonical (fst (realpath_loop fs path rest seen looped))"
  using assms
proof (induction fs path rest seen looped rule: realpath_loop.induct)
  case (2 fs path q rest seen looped)
  then show ?case by (subst realpath_loop.simps) auto
next
  case (3 fs path name rest seen looped)
  consider "name = [] \<or> name = ''.''" | "name = ''..''" | "name \<noteq> []" "name \<noteq> ''.''" "name \<noteq> ''..''"
    by blast
  then show ?case
  proof cases
    case 1
    with 3 show ?thesis by (subst realpath_loop.simps) auto
  next
    case 2
    with 3 show ?thesis by (subst realpath_loop.simps) (auto simp: canonical_butlast)
  next
    case 3
    note name = this
    have ok: "canonical (path @ [name])" using name "3.prems" by (simp add: item_ok_def)
    show ?thesis
    proof (cases "link_at fs (path @ [name])")
      case None
      with "3.IH" "3.prems" name ok show ?thesis by (simp add: realpath_loop.simps(3))
    next
      case (Some target)
      show ?thesis
      proof (cases "map_of seen (path @ [name])")
        case None
        with "3.IH" "3.prems" name Some show ?thesis
          by (simp add: realpath_loop.simps(3) split_items_ok)
      next
        case cached: (Some v)
        show ?thesis
        proof (cases v)
          case None
          with "3.IH" "3.prems" name Some cached ok show ?thesis by (simp add: realpath_loop.simps(3))
        next
          case v: (Some p)
          with "3.prems"(3) cached have "canonical p" by (auto dest: map_of_SomeD)
          with "3.IH" "3.prems" name cached Some v show ?thesis by (simp add: realpath_loop.simps(3))
        qed
      qed
    qed
  qed
qed simp

lemma realpath_loop_looped: "looped \<Longrightarrow> snd (realpath_loop fs path rest seen looped)"
proof (induction fs path rest seen looped rule: realpath_loop.induct)
  case (3 fs path name rest seen looped)
  then show ?case by (subst realpath_loop.simps) (auto split: option.splits)
qed (simp_all add: realpath_loop.simps)

lemma realpath_loop_link_free:
  assumes "link_free fs path" and "\<forall>q p. (q, Some p) \<in> set seen \<longrightarrow> link_free fs p"
    and "\<not> snd (realpath_loop fs path rest seen looped)"
  shows "link_free fs (fst (realpath_loop fs path rest seen looped))"
  using assms
proof (induction fs path rest seen looped rule: realpath_loop.induct)
  case (2 fs path q rest seen looped)
  then show ?case by (simp add: realpath_loop.simps(2))
next
  case (3 fs path name rest seen looped)
  consider "name = [] \<or> name = ''.''" | "name = ''..''" | "name \<noteq> []" "name \<noteq> ''.''" "name \<noteq> ''..''"
    by blast
  then show ?case
  proof cases
    case 1
    with 3 show ?thesis by (auto simp: realpath_loop.simps(3))
  next
    case 2
    with 3 show ?thesis by (auto simp: realpath_loop.simps(3) link_free_butlast)
  next
    case 3
    note name = this
    show ?thesis
    proof (cases "link_at fs (path @ [name])")
      case None
      with "3.IH" "3.prems" name show ?thesis by (simp add: realpath_loop.simps(3) link_free_snoc)
    next
      case (Some target)
      show ?thesis
      proof (cases "map_of seen (path @ [name])")
        case None
        with "3.IH" "3.prems" name Some show ?thesis by (simp add: realpath_loop.simps(3))
      next
        case cached: (Some v)
        show ?thesis
        proof (cases v)
          case None
          with "3.prems"(3) name Some cached show ?thesis
            by (simp add: realpath_loop.simps(3) realpath_loop_looped)
        next
          case v: (Some p)
          with "3.prems"(2) cached have "link_free fs p" by (auto dest: map_of_SomeD)
          with "3.IH" "3.prems" name cached Some v show ?thesis by (simp add: realpath_loop.simps(3))
        qed
      qed
    qed
  qed
qed simp

lemma parse_path_items_ok: "list_all item_ok (map Part (parts (parse_path s)))"
  using split_items_ok [of s] by (auto simp: parse_path_def list_all_iff)

lemma realpath_link_free:
  "link_free fs cwd \<Longrightarrow> \<not> meets_cycle fs cwd p \<Longrightarrow> link_free fs (realpath fs cwd p)"
  by (auto simp: realpath_def meets_cycle_def realpath_run_def intro!: realpath_loop_link_free
      split: if_splits)


section \<open>Paths without links: lexical normalisation\<close>

fun normalize :: "path \<Rightarrow> string list \<Rightarrow> path" where
  "normalize path [] = path"
| "normalize path (c # cs) =
     (if c = [] \<or> c = ''.'' then normalize path cs
      else if c = ''..'' then normalize (butlast path) cs
      else normalize (path @ [c]) cs)"

lemma realpath_loop_no_links:
  "\<forall>p. link_at fs p = None \<Longrightarrow>
     realpath_loop fs path (map Part cs) seen looped = (normalize path cs, looped)"
  by (induction cs arbitrary: path) (simp_all add: realpath_loop.simps(3))

lemma realpath_no_links:
  "\<forall>p. link_at fs p = None \<Longrightarrow>
     realpath fs cwd p = normalize (if absolute p then [] else cwd) (parts p)"
  by (simp add: realpath_def realpath_run_def realpath_loop_no_links)

lemma realpath_loop_plain:
  "canonical cs \<Longrightarrow> (\<forall>q. strict_prefix path q \<and> prefix q (path @ cs) \<longrightarrow> link_at fs q = None) \<Longrightarrow>
     realpath_loop fs path (map Part cs @ rest) seen looped
   = realpath_loop fs (path @ cs) rest seen looped"
proof (induction cs arbitrary: path)
  case (Cons c cs)
  have "link_at fs (path @ [c]) = None" using Cons.prems(2) by (simp add: strict_prefix_def)
  moreover have "link_at fs q = None"
    if "strict_prefix (path @ [c]) q" "prefix q ((path @ [c]) @ cs)" for q
    using that Cons.prems(2) by (auto simp: strict_prefix_def dest: append_prefixD)
  ultimately show ?case
    using Cons.prems(1) Cons.IH [of "path @ [c]"] by (simp add: realpath_loop.simps(3))
qed simp

lemma normalize_canonical_append:
  "canonical base \<Longrightarrow> normalize path (base @ cs) = normalize (path @ base) cs"
  by (induction base arbitrary: path) simp_all


section \<open>How the kernel follows a path\<close>

text \<open>The kernel's walk from the directory \<open>cur\<close>: it follows at most \<open>budget\<close> links (\<open>ELOOP\<close>
  after that).\<close>

function kernel_walk :: "fs \<Rightarrow> nat \<Rightarrow> path \<Rightarrow> string list \<Rightarrow> path option" where
  "kernel_walk fs budget cur [] = Some cur"
| "kernel_walk fs budget cur (c # cs) =
     (if c = [] \<or> c = ''.'' then kernel_walk fs budget cur cs
      else if c = ''..'' then kernel_walk fs budget (butlast cur) cs
      else (case link_at fs (cur @ [c]) of
              None \<Rightarrow> kernel_walk fs budget (cur @ [c]) cs
            | Some target \<Rightarrow>
                if budget = 0 then None
                else kernel_walk fs (budget - 1) (if startswith target ''/'' then [] else cur)
                       (split_on (CHR ''/'') target @ cs)))"
  by pat_completeness auto
termination
  by (relation "measures [\<lambda>(fs, n, _, _). n, \<lambda>(_, _, _, cs). length cs]") auto

lemma kernel_walk_link_free:
  "canonical cs \<Longrightarrow> link_free fs (cur @ cs) \<Longrightarrow> kernel_walk fs budget cur cs = Some (cur @ cs)"
proof (induction cs arbitrary: cur)
  case (Cons c cs)
  have "link_at fs (cur @ [c]) = None"
    using Cons.prems(2) by (simp add: link_free_def)
  with Cons show ?case by simp
qed simp

end
