(* ===== verification/Py_Shlex.thy ===== *)
theory Py_Shlex
  imports Prelude
begin

text \<open>
  The part of Python's \<open>shlex\<close> the program calls: \<open>shlex.split\<close> (POSIX mode, split on
  whitespace only, no comments) as the character automaton of \<open>shlex.read_token\<close>, and
  \<open>shlex.quote\<close> and \<open>shlex.join\<close>. The main lemma is that splitting undoes quoting.
\<close>

section \<open>The scanner\<close>

datatype lex_state =
    Blank            \<comment> \<open>state \<open>' '\<close>: between tokens\<close>
  | Word             \<comment> \<open>state \<open>'a'\<close>: inside a token\<close>
  | Quoted char      \<comment> \<open>inside the quotes of that character\<close>
  | Escaped "char option"  \<comment> \<open>after a backslash, in a word or inside those quotes\<close>

definition lex_space :: "char \<Rightarrow> bool" where
  "lex_space c \<longleftrightarrow> c = CHR '' '' \<or> c = CHR 0x09 \<or> c = CHR 0x0D \<or> c = NL"

definition lex_quote :: "char \<Rightarrow> bool" where
  "lex_quote c \<longleftrightarrow> c = QUOTE \<or> c = DQUOTE"

text \<open>\<open>scan st tok q s\<close>: \<open>tok\<close> is the token read so far and \<open>q\<close> says whether it had quotes
  (an empty token counts only then). The result lists the tokens still to come.\<close>

fun scan :: "lex_state \<Rightarrow> string \<Rightarrow> bool \<Rightarrow> string \<Rightarrow> string + string list" where
  "scan Blank tok q [] = Inr []"
| "scan Blank tok q (c # cs) =
     (if lex_space c then scan Blank [] False cs
      else if c = BACKSLASH then scan (Escaped None) [] False cs
      else if lex_quote c then scan (Quoted c) [] False cs
      else scan Word [c] False cs)"
| "scan (Quoted k) tok q [] = Inl ''No closing quotation''"
| "scan (Quoted k) tok q (c # cs) =
     (if c = k then scan Word tok True cs
      else if c = BACKSLASH \<and> k = DQUOTE then scan (Escaped (Some k)) tok True cs
      else scan (Quoted k) (tok @ [c]) True cs)"
| "scan (Escaped es) tok q [] = Inl ''No escaped character''"
| "scan (Escaped es) tok q (c # cs) =
     (case es of
        None \<Rightarrow> scan Word (tok @ [c]) q cs
      | Some k \<Rightarrow>
          scan (Quoted k) (tok @ (if c \<noteq> BACKSLASH \<and> c \<noteq> k then [BACKSLASH, c] else [c])) q cs)"
| "scan Word tok q [] = Inr (if tok \<noteq> [] \<or> q then [tok] else [])"
| "scan Word tok q (c # cs) =
     (if lex_space c then
        (if tok \<noteq> [] \<or> q then bindE (scan Blank [] False cs) (\<lambda>ts. Inr (tok # ts))
         else scan Blank [] False cs)
      else if lex_quote c then scan (Quoted c) tok q cs
      else if c = BACKSLASH then scan (Escaped None) tok q cs
      else scan Word (tok @ [c]) q cs)"

definition shlex_split :: "string \<Rightarrow> string + string list" where
  "shlex_split s = scan Blank [] False s"


section \<open>Quoting\<close>

text \<open>The characters \<open>shlex.quote\<close> leaves alone: \<open>[\w@%+=:,./-]\<close> in ASCII.\<close>

definition safe_char :: "char \<Rightarrow> bool" where
  "safe_char c \<longleftrightarrow>
     (let n = of_char c :: nat
      in (48 \<le> n \<and> n \<le> 57) \<or> (65 \<le> n \<and> n \<le> 90) \<or> (97 \<le> n \<and> n \<le> 122))
     \<or> c \<in> set ''_@%+=:,./-''"

definition quote_body :: "string \<Rightarrow> string" where
  "quote_body s = QUOTE # replace_char QUOTE [QUOTE, DQUOTE, QUOTE, DQUOTE, QUOTE] s @ [QUOTE]"

definition shlex_quote :: "string \<Rightarrow> string" where
  "shlex_quote s = (if s = [] then [QUOTE, QUOTE] else if list_all safe_char s then s else quote_body s)"

definition shlex_join :: "string list \<Rightarrow> string" where
  "shlex_join args = join_with '' '' (map shlex_quote args)"


section \<open>Splitting undoes quoting\<close>

lemma safe_char_plain:
  assumes "safe_char c"
  shows "\<not> lex_space c" and "\<not> lex_quote c" and "c \<noteq> BACKSLASH"
proof -
  have "\<not> safe_char c" if "lex_space c \<or> lex_quote c \<or> c = BACKSLASH"
    using that by (auto simp: lex_space_def lex_quote_def safe_char_def)
  with assms show "\<not> lex_space c" and "\<not> lex_quote c" and "c \<noteq> BACKSLASH" by blast+
qed

lemma scan_safe_word:
  "list_all safe_char s \<Longrightarrow> scan Word tok q (s @ rest) = scan Word (tok @ s) q rest"
  by (induction s arbitrary: tok) (simp_all add: safe_char_plain)

lemma scan_quote_body:
  "scan (Quoted QUOTE) tok q
     (replace_char QUOTE [QUOTE, DQUOTE, QUOTE, DQUOTE, QUOTE] s @ QUOTE # rest)
   = scan Word (tok @ s) True rest"
proof (induction s arbitrary: tok q)
  case Nil
  show ?case by simp
next
  case (Cons c s)
  then show ?case by (simp add: lex_quote_def lex_space_def)
qed

lemma scan_quote_body_blank:
  "scan Blank [] False (quote_body s @ rest) = scan Word s True rest"
  using scan_quote_body [of "[]" False s rest]
  by (simp add: quote_body_def lex_space_def lex_quote_def)

text \<open>After a quoted argument the scanner is in a word that holds exactly that argument.\<close>

lemma scan_shlex_quote:
  "\<exists>q. scan Blank [] False (shlex_quote s @ rest) = scan Word s q rest \<and> (s = [] \<longrightarrow> q)"
proof -
  consider "s = []" | c t where "s = c # t" "list_all safe_char s" | "s \<noteq> []" "\<not> list_all safe_char s"
    by (cases s) auto
  then show ?thesis
  proof cases
    case 1
    then show ?thesis
      by (intro exI [of _ True]) (simp add: shlex_quote_def lex_space_def lex_quote_def)
  next
    case 2
    then show ?thesis
      using scan_safe_word [of t "[c]" False rest]
      by (intro exI [of _ False]) (simp add: shlex_quote_def safe_char_plain)
  next
    case 3
    then show ?thesis
      by (intro exI [of _ True]) (simp add: shlex_quote_def scan_quote_body_blank)
  qed
qed

lemma scan_word_space:
  "s \<noteq> [] \<or> q \<Longrightarrow>
     scan Word s q (CHR '' '' # rest) = bindE (scan Blank [] False rest) (\<lambda>ts. Inr (s # ts))"
  by (simp add: lex_space_def)

lemma shlex_split_join: "shlex_split (shlex_join args) = Inr args"
  unfolding shlex_join_def shlex_split_def
proof (induction args rule: induct_list012)
  case (2 a)
  obtain q where "scan Blank [] False (shlex_quote a @ []) = scan Word a q []" "a = [] \<longrightarrow> q"
    using scan_shlex_quote [of a "[]"] by blast
  then show ?case by auto
next
  case (3 a b args)
  let ?rest = "join_with '' '' (map shlex_quote (b # args))"
  obtain q where "scan Blank [] False (shlex_quote a @ CHR '' '' # ?rest)
      = scan Word a q (CHR '' '' # ?rest)" "a = [] \<longrightarrow> q"
    using scan_shlex_quote [of a "CHR '' '' # ?rest"] by blast
  with 3 scan_word_space [of a q ?rest] show ?case by auto
qed simp

lemma shlex_split_quote_body: "shlex_split (quote_body s) = Inr [s]"
  using scan_quote_body_blank [of s "[]"] by (simp add: shlex_split_def)

lemma scan_Inr_nonempty:
  "scan st tok q s = Inr ts \<Longrightarrow> st \<noteq> Blank \<Longrightarrow> tok \<noteq> [] \<or> q \<or> (\<exists>k. st = Quoted k) \<or> (\<exists>e. st = Escaped e) \<Longrightarrow> ts \<noteq> []"
  by (induction st tok q s arbitrary: ts rule: scan.induct)
     (auto simp: result_iff split: if_splits option.splits)

text \<open>A string with a character that is no separator gives at least one argument.\<close>

lemma shlex_split_nonempty:
  assumes "shlex_split s = Inr ts" and "\<exists>c \<in> set s. \<not> lex_space c"
  shows "ts \<noteq> []"
  using assms unfolding shlex_split_def
proof (induction s)
  case (Cons c s)
  then show ?case by (auto split: if_splits dest: scan_Inr_nonempty)
qed simp

lemma shlex_split_blank: "\<forall>c \<in> set s. lex_space c \<Longrightarrow> shlex_split s = Inr []"
  unfolding shlex_split_def by (induction s) simp_all


section \<open>Command lines written by hand\<close>

text \<open>\<open>t\<close> is a way to write the argument \<open>w\<close>.\<close>

definition renders :: "string \<Rightarrow> string \<Rightarrow> bool" where
  "renders t w \<longleftrightarrow>
     (\<exists>q. (w = [] \<longrightarrow> q) \<and> (\<forall>rest. scan Blank [] False (t @ rest) = scan Word w q rest))"

lemma renders_safe:
  assumes "w \<noteq> []" and "list_all safe_char w"
  shows "renders w w"
proof -
  obtain c t where w: "w = c # t" using assms(1) by (cases w) auto
  have "scan Blank [] False (w @ rest) = scan Word w False rest" for rest
    using assms(2) scan_safe_word [of t "[c]" False rest] by (simp add: w safe_char_plain)
  then show ?thesis using assms(1) by (auto simp: renders_def)
qed

lemma renders_quote_body: "renders (quote_body w) w"
  unfolding renders_def using scan_quote_body_blank by blast

lemma split_renders:
  "list_all2 renders ts ws \<Longrightarrow> shlex_split (join_with '' '' ts) = Inr ws"
  unfolding shlex_split_def
proof (induction ts arbitrary: ws rule: induct_list012)
  case (2 t)
  then obtain w q where "ws = [w]" and "w = [] \<longrightarrow> q"
    and "\<And>rest. scan Blank [] False (t @ rest) = scan Word w q rest"
    by (auto simp: list_all2_Cons1 renders_def)
  moreover from this(3) [of "[]"] have "scan Blank [] False t = scan Word w q []" by simp
  ultimately show ?case by auto
next
  case (3 t u ts)
  let ?rest = "join_with '' '' (u # ts)"
  obtain w ws' where ws: "ws = w # ws'" and head: "renders t w" and tail: "list_all2 renders (u # ts) ws'"
    using 3(3) by (auto simp: list_all2_Cons1 simp del: list.rel_inject)
  obtain q where q: "w = [] \<longrightarrow> q"
    and scan: "\<And>rest. scan Blank [] False (t @ rest) = scan Word w q rest"
    using head by (auto simp: renders_def)
  have "scan Blank [] False (join_with '' '' (t # u # ts)) = scan Word w q (CHR '' '' # ?rest)"
    using scan [of "CHR '' '' # ?rest"] by simp
  also have "\<dots> = Inr ws"
    using q scan_word_space [of w q ?rest] 3(2) [OF tail] by (auto simp: ws)
  finally show ?case .
qed simp

lemma split_safe_words:
  assumes "\<forall>w \<in> set ws. w \<noteq> [] \<and> list_all safe_char w"
  shows "shlex_split (join_with '' '' ws) = Inr ws"
  using assms by (intro split_renders) (auto simp: list_all2_same renders_safe)

end
