(* ===== verification/Budget.thy ===== *)
theory Budget
  imports Py_Text
begin

text \<open>
  The byte budget of a bounded output: the interface that the buffered reader, the event stream
  and the interactive session each implement with code of their own. \<open>keep n c\<close> is the part of the
  chunk \<open>c\<close> that is kept when \<open>n\<close> bytes were kept before.
\<close>

fun drain :: "(nat \<Rightarrow> bytes \<Rightarrow> bytes) \<Rightarrow> bytes \<Rightarrow> bytes list \<Rightarrow> bytes" where
  "drain keep acc [] = acc"
| "drain keep acc (c # cs) = drain keep (acc @ keep (length acc) c) cs"

lemma drain_snoc: "drain keep acc (cs @ [c]) = (let a = drain keep acc cs in a @ keep (length a) c)"
  by (induction cs arbitrary: acc) (simp_all add: Let_def)

locale output_budget =
  fixes limit :: int
    and keep :: "nat \<Rightarrow> bytes \<Rightarrow> bytes"
  assumes keep_prefix: "prefix (keep n c) c"
    and keep_bounded: "int n \<le> max 0 limit \<Longrightarrow> int (n + length (keep n c)) \<le> max 0 limit"
    and keep_cut_full: "keep n c \<noteq> c \<Longrightarrow> limit \<le> int (n + length (keep n c))"
begin

lemma keep_take:
  assumes "int n \<le> max 0 limit"
  shows "keep n c = take (nat limit - n) c"
proof -
  obtain rest where c: "c = keep n c @ rest" using keep_prefix [of n c] by (auto simp: prefix_def)
  have bound: "length (keep n c) \<le> nat limit - n" using keep_bounded [OF assms, of c] by auto
  show ?thesis
  proof (cases "rest = []")
    case True
    with c bound show ?thesis by simp
  next
    case False
    with c have "keep n c \<noteq> c" by (metis append_self_conv)
    with bound have "length (keep n c) = nat limit - n"
      using keep_cut_full [of n c] by linarith
    then show ?thesis by (metis append_eq_conv_conj c)
  qed
qed

lemma drain_gen:
  "int (length acc) \<le> max 0 limit \<Longrightarrow>
     drain keep acc cs = acc @ take (nat limit - length acc) (concat cs)"
proof (induction cs arbitrary: acc)
  case (Cons c cs)
  have "int (length (acc @ keep (length acc) c)) \<le> max 0 limit"
    using keep_bounded [OF Cons.prems, of c] by simp
  note step = Cons.IH [OF this]
  have "keep (length acc) c = take (nat limit - length acc) c" by (rule keep_take [OF Cons.prems])
  then show ?case using step
    by (cases "length c \<le> nat limit - length acc") auto
qed simp

lemma drain_is_take: "drain keep [] cs = take (nat limit) (concat cs)"
  using drain_gen [of "[]" cs] by simp

lemma drain_length: "int (length (drain keep [] cs)) \<le> max 0 limit"
  by (simp add: drain_is_take)

lemma drain_whole: "int (length (concat cs)) \<le> limit \<Longrightarrow> drain keep [] cs = concat cs"
  by (simp add: drain_is_take)

end

end
