(* ===== verification/Runtime_Core.thy ===== *)
theory Runtime_Core
  imports Py_Fs Py_Shlex Budget
begin

text \<open>
  \<open>services/xolis-runtime-python/src/xolis_runtime/core.py\<close>, first half: the settings and how they
  are read from the environment, the command parser, the resolution of workspace paths, the bounded
  reader and \<open>execute_command\<close>.

  A spawned process is a parameter: how it behaves if its group is killed at a given time, or never.
  Times are milliseconds since the spawn.
\<close>

section \<open>Settings\<close>

record settings =
  workspace :: pure_path
  maximum_command_timeout_seconds :: int
  maximum_output_bytes :: int
  maximum_upload_bytes :: int

type_synonym environ = "string \<Rightarrow> string option"

definition environ_get :: "environ \<Rightarrow> string \<Rightarrow> string \<Rightarrow> string" where
  "environ_get env name dflt = (case env name of None \<Rightarrow> dflt | Some v \<Rightarrow> v)"

definition from_environment :: "environ \<Rightarrow> settings result" where
  "from_environment env =
     bindE (int_of_str (environ_get env ''XOLIS_MAXIMUM_COMMAND_TIMEOUT_SECONDS'' ''300'')) (\<lambda>t.
     bindE (int_of_str (environ_get env ''XOLIS_MAXIMUM_OUTPUT_BYTES'' (str_of_int (1024 * 1024)))) (\<lambda>out.
     bindE (int_of_str (environ_get env ''XOLIS_MAXIMUM_UPLOAD_BYTES'' (str_of_int (10 * 1024 * 1024)))) (\<lambda>up.
       Inr \<lparr>workspace = parse_path (environ_get env ''XOLIS_WORKSPACE'' ''/workspace''),
            maximum_command_timeout_seconds = t,
            maximum_output_bytes = out,
            maximum_upload_bytes = up\<rparr>)))"


text \<open>\<open>str(error)\<close>, for the exceptions with a single argument.\<close>

definition error_text :: "exn \<Rightarrow> string" where
  "error_text e =
     (case e of InvalidCommand m \<Rightarrow> m | PathViolation m \<Rightarrow> m | UploadTooLarge m \<Rightarrow> m
      | FileNotFoundError m \<Rightarrow> m | FileExistsError m \<Rightarrow> m | NotADirectoryError m \<Rightarrow> m
      | OSError m \<Rightarrow> m | ValueError m \<Rightarrow> m | TypeError m \<Rightarrow> m | AttributeError m \<Rightarrow> m
      | TimeoutError m \<Rightarrow> m | RuntimeError m \<Rightarrow> m
      | KeyError k \<Rightarrow> [QUOTE] @ k @ [QUOTE] | _ \<Rightarrow> [])"


section \<open>Commands\<close>

definition empty_command :: exn where
  "empty_command = InvalidCommand ''command cannot be empty''"

definition parse_command :: "settings \<Rightarrow> string \<Rightarrow> int \<Rightarrow> string list result" where
  "parse_command st command timeout_seconds =
     (if strip command = [] then Inl empty_command
      else if \<not> (1 \<le> timeout_seconds \<and> timeout_seconds \<le> maximum_command_timeout_seconds st)
      then Inl (InvalidCommand (''timeout_seconds must be between 1 and ''
                  @ str_of_int (maximum_command_timeout_seconds st)))
      else (case shlex_split command of
              Inl m \<Rightarrow> Inl (InvalidCommand (''command cannot be parsed: '' @ m))
            | Inr arguments \<Rightarrow> if arguments = [] then Inl empty_command else Inr arguments))"


section \<open>Workspace paths\<close>

definition join_path :: "path \<Rightarrow> pure_path \<Rightarrow> pure_path" where
  "join_path base p = (if absolute p then p else \<lparr>absolute = True, parts = base @ parts p\<rparr>)"

definition resolve_workspace_path ::
  "fs \<Rightarrow> path \<Rightarrow> pure_path \<Rightarrow> string \<Rightarrow> path result" where
  "resolve_workspace_path fs cwd ws requested_path =
     (if requested_path = [] \<or> NUL \<in> set requested_path
      then Inl (PathViolation ''path must be a non-empty workspace-relative path'')
      else let relative_path = parse_path requested_path in
      if absolute relative_path then Inl (PathViolation ''absolute paths are not allowed'')
      else let base = realpath fs cwd ws;
               resolved = realpath fs cwd (join_path base relative_path) in
      if \<not> prefix base resolved \<or> resolved = base
      then Inl (PathViolation ''path must stay within the workspace'')
      else Inr resolved)"


section \<open>The bounded reader\<close>

definition read_keep :: "int \<Rightarrow> nat \<Rightarrow> bytes \<Rightarrow> bytes" where
  "read_keep maximum_bytes captured chunk =
     (let remaining = maximum_bytes - int captured
      in if remaining > 0 then take (nat remaining) chunk else [])"

text \<open>The loop of \<open>_read_limited\<close> over what \<open>stream.read\<close> returns; an empty read is the end of the
  stream, and so is the end of the list.\<close>

fun read_limited_loop :: "int \<Rightarrow> bytes \<Rightarrow> bytes list \<Rightarrow> bytes" where
  "read_limited_loop maximum_bytes captured [] = captured"
| "read_limited_loop maximum_bytes captured (chunk # chunks) =
     (if chunk = [] then captured
      else read_limited_loop maximum_bytes
             (captured @ read_keep maximum_bytes (length captured) chunk) chunks)"

definition read_limited :: "bytes list option \<Rightarrow> int \<Rightarrow> bytes" where
  "read_limited stream maximum_bytes =
     (case stream of None \<Rightarrow> [] | Some chunks \<Rightarrow> read_limited_loop maximum_bytes [] chunks)"


section \<open>Running a command\<close>

record pipe =
  chunks :: "bytes list"
  eof_at :: "nat option"  \<comment> \<open>when the last writer closed it; \<open>None\<close>: never\<close>

record process =
  pid :: int
  exit_at :: "nat option"  \<comment> \<open>when \<open>process.wait()\<close> returns\<close>
  returncode :: int
  stdout :: pipe
  stderr :: pipe

datatype spawned =
    SpawnOSError string
  | Spawned "nat option \<Rightarrow> process"  \<comment> \<open>the behaviour, given when the group is killed (if ever)\<close>

type_synonym spawner = "string list \<Rightarrow> spawned"

text \<open>\<open>create_subprocess_exec\<close>: an argument with a NUL byte is a \<open>ValueError\<close> before anything runs.\<close>

definition create_subprocess_exec :: "spawner \<Rightarrow> string list \<Rightarrow> spawned result" where
  "create_subprocess_exec spawn arguments =
     (if \<exists>a \<in> set arguments. NUL \<in> set a then Inl (ValueError ''embedded null byte'')
      else Inr (spawn arguments))"

record command_result =
  res_stdout :: string
  res_stderr :: string
  exit_code :: int

text \<open>When a call returns (\<open>None\<close>: it never does) and what it returns.\<close>

record completion =
  finished_at :: "nat option"
  result :: command_result

definition both_by :: "nat option \<Rightarrow> nat option \<Rightarrow> nat option" where
  "both_by a b = (case (a, b) of (Some x, Some y) \<Rightarrow> Some (max x y) | _ \<Rightarrow> None)"

definition exits_within :: "process \<Rightarrow> nat \<Rightarrow> bool" where
  "exits_within p t = (case exit_at p of None \<Rightarrow> False | Some e \<Rightarrow> e \<le> t)"

definition timeout_message :: "int \<Rightarrow> string" where
  "timeout_message timeout_seconds =
     ''command timed out after '' @ str_of_int timeout_seconds @ '' seconds''"

definition spawn_failure :: "string \<Rightarrow> string" where
  "spawn_failure m = ''Failed to execute command: '' @ m"

text \<open>What \<open>execute_command\<close> does with a process it has spawned: it waits for it, after a kill at the deadline
  a second time and without a limit, and then for the end of both pipes.\<close>

definition collect_process :: "settings \<Rightarrow> (nat option \<Rightarrow> process) \<Rightarrow> int \<Rightarrow> completion" where
  "collect_process st run timeout_seconds =
     (let deadline = nat (1000 * timeout_seconds);
          timed_out = (\<not> exits_within (run None) deadline);
          p = (if timed_out then run (Some deadline) else run None);
          waited = (if timed_out then both_by (Some deadline) (exit_at p) else exit_at p);
          out = decode_replace (read_limited (Some (chunks (stdout p))) (maximum_output_bytes st));
          err = decode_replace (read_limited (Some (chunks (stderr p))) (maximum_output_bytes st));
          done = both_by waited (both_by (eof_at (stdout p)) (eof_at (stderr p)))
      in \<lparr>finished_at = done,
          result =
            (if timed_out
             then \<lparr>res_stdout = out,
                   res_stderr = (if err \<noteq> [] then err @ [NL] @ timeout_message timeout_seconds
                                 else timeout_message timeout_seconds),
                   exit_code = 124\<rparr>
             else \<lparr>res_stdout = out, res_stderr = err, exit_code = returncode p\<rparr>)\<rparr>)"

text \<open>\<open>mkdir\<close> is the outcome of creating the workspace directory.\<close>

definition execute_command ::
  "settings \<Rightarrow> unit result \<Rightarrow> spawner \<Rightarrow> string \<Rightarrow> int \<Rightarrow> completion result" where
  "execute_command st mkdir spawn command timeout_seconds =
     bindE (parse_command st command timeout_seconds) (\<lambda>arguments.
     bindE mkdir (\<lambda>_.
     bindE (create_subprocess_exec spawn arguments) (\<lambda>process.
       case process of
         SpawnOSError m \<Rightarrow>
           Inr \<lparr>finished_at = Some 0,
                result = \<lparr>res_stdout = [], res_stderr = spawn_failure m, exit_code = 127\<rparr>\<rparr>
       | Spawned run \<Rightarrow> Inr (collect_process st run timeout_seconds))))"


section \<open>Settings round trip\<close>

lemma is_digit_ascii: "is_digit c \<Longrightarrow> (of_char c :: nat) < 128 \<and> \<not> ascii_space c"
  by (auto simp: is_digit_def ascii_space_def Let_def)

lemma strip_by_none: "\<forall>c \<in> set s. \<not> P c \<Longrightarrow> strip_by P s = s"
proof -
  have keep: "dropWhile P t = t" if "\<forall>c \<in> set t. \<not> P c" for t
    using that by (cases t) auto
  assume "\<forall>c \<in> set s. \<not> P c"
  then show ?thesis using keep [of s] keep [of "rev s"] by (simp add: strip_by_def)
qed

lemma str_of_int_chars: "c \<in> set (str_of_int i) \<Longrightarrow> is_digit c \<or> c = CHR ''-''"
  by (auto simp: str_of_int_def dest: str_of_nat_digits split: if_splits)

lemma strip_str_of_int: "strip (str_of_int i) = str_of_int i"
proof -
  have "(of_char c :: nat) < 128 \<and> \<not> ascii_space c" if "c \<in> set (str_of_int i)" for c
    using str_of_int_chars [OF that] is_digit_ascii [of c] by (auto simp: ascii_space_def Let_def)
  then show ?thesis by (simp add: strip_ascii strip_by_none)
qed

lemma int_digits_str_of_nat: "int_digits False 0 (str_of_nat n) = Some n"
  by (simp add: int_digits_digits str_of_nat_digits digits_value_str_of_nat)

lemma not_digit_plus: "\<not> is_digit (CHR ''+'')"
  by (simp add: is_digit_def)

lemma int_of_str_of_int: "int_of_str (str_of_int i) = Inr i"
proof -
  have body: "(case str_of_nat n of [] \<Rightarrow> (False, []) | c # cs \<Rightarrow>
       if c = CHR ''-'' then (True, cs) else if c = CHR ''+'' then (False, cs) else (False, str_of_nat n))
     = (False, str_of_nat n)" for n
  proof (cases "str_of_nat n")
    case (Cons c cs)
    then have "is_digit c" by (rule str_of_nat_hd_digit)
    then have "c \<noteq> CHR ''-''" and "c \<noteq> CHR ''+''" using not_digit_minus not_digit_plus by blast+
    with Cons show ?thesis by simp
  qed simp
  show ?thesis
  proof (cases "i < 0")
    case True
    then show ?thesis
      unfolding int_of_str_def Let_def strip_str_of_int by (simp add: str_of_int_def int_digits_str_of_nat)
  next
    case False
    then show ?thesis
      unfolding int_of_str_def Let_def strip_str_of_int
      by (simp only: str_of_int_def if_False body prod.case) (simp add: int_digits_str_of_nat)
  qed
qed

section \<open>Commands that are accepted\<close>

lemma strip_eq_Nil_chars:
  assumes "strip s = []" and "c \<in> set s"
  shows "ascii_space c \<or> 128 \<le> (of_char c :: nat)"
proof -
  have "concat (strip_by is_space (code_points s)) = []" using assms(1) by (simp add: strip_def)
  moreover note code_points_nonempty [of _ s]
  moreover have "set (strip_by is_space xs) \<subseteq> set xs" for xs
    unfolding strip_by_def by (metis set_dropWhileD set_rev subsetI)
  ultimately have "strip_by is_space (code_points s) = []"
    by (metis concat_eq_Nil_conv list.set_intros(1) neq_Nil_conv subsetD)
  then have sp: "\<forall>cp \<in> set (code_points s). is_space cp" by (simp add: strip_by_eq_Nil_iff)
  obtain cp where cp: "cp \<in> set (code_points s)" "c \<in> set cp"
    using assms(2) concat_code_points [of s] by (metis UN_E set_concat)
  with sp have "is_space cp" by blast
  with cp(2) show ?thesis
    by (auto simp: is_space_def ascii_space_def Let_def split: list.splits)
qed

lemma strip_blank: "\<forall>c \<in> set s. lex_space c \<Longrightarrow> strip s = []"
proof -
  assume blank: "\<forall>c \<in> set s. lex_space c"
  have "lex_space c \<Longrightarrow> (of_char c :: nat) < 128 \<and> ascii_space c" for c
    by (auto simp: lex_space_def ascii_space_def Let_def)
  with blank show ?thesis by (simp add: strip_ascii strip_by_eq_Nil_iff)
qed

lemma shlex_split_of_command: "strip s \<noteq> [] \<Longrightarrow> shlex_split s = Inr ts \<Longrightarrow> ts \<noteq> []"
  using shlex_split_nonempty strip_blank by blast

lemma shlex_quote_visible: "\<exists>c \<in> set (shlex_quote a). \<not> ascii_space c \<and> (of_char c :: nat) < 128"
proof -
  have safe: "\<not> ascii_space c \<and> (of_char c :: nat) < 128" if "safe_char c" for c
    using that by (auto simp: safe_char_def ascii_space_def Let_def)
  have quote: "\<not> ascii_space QUOTE \<and> (of_char QUOTE :: nat) < 128"
    by (simp add: ascii_space_def)
  show ?thesis
  proof (cases "a \<noteq> [] \<and> list_all safe_char a")
    case True
    then obtain c where "c \<in> set a" "safe_char c" by (cases a) auto
    with True safe show ?thesis by (auto simp: shlex_quote_def)
  next
    case False
    then have "QUOTE \<in> set (shlex_quote a)" by (auto simp: shlex_quote_def quote_body_def)
    with quote show ?thesis by blast
  qed
qed

lemma strip_shlex_join: "args \<noteq> [] \<Longrightarrow> strip (shlex_join args) \<noteq> []"
proof
  assume ne: "args \<noteq> []" and blank: "strip (shlex_join args) = []"
  obtain a as where args: "args = a # as" using ne by (cases args) auto
  have "set (shlex_quote a) \<subseteq> set (shlex_join args)"
    by (cases as) (auto simp: shlex_join_def args)
  with shlex_quote_visible [of a] strip_eq_Nil_chars [OF blank] show False
    by (meson leD subsetD)
qed


section \<open>The reader keeps a budget\<close>

interpretation reader: output_budget maximum "read_keep maximum" for maximum
  by unfold_locales (auto simp: read_keep_def Let_def take_is_prefix split: if_splits)

lemma read_limited_loop_drain:
  "read_limited_loop m acc cs = drain (read_keep m) acc (takeWhile (\<lambda>c. c \<noteq> []) cs)"
  by (induction cs arbitrary: acc) simp_all

lemma read_limited_take:
  "read_limited (Some cs) m = take (nat m) (concat (takeWhile (\<lambda>c. c \<noteq> []) cs))"
  by (simp add: read_limited_def read_limited_loop_drain reader.drain_is_take)


section \<open>Resolved paths stay in the workspace\<close>

lemma realpath_canonical:
  assumes "canonical cwd" and "list_all item_ok (map Part (parts p))"
  shows "canonical (realpath fs cwd p)"
  using assms by (auto simp: realpath_def realpath_run_def intro!: realpath_loop_canonical)

lemma canonical_items_ok: "canonical p \<Longrightarrow> list_all item_ok (map Part p)"
  by (auto simp: canonical_def list_all_iff)

lemma join_path_items_ok:
  "canonical base \<Longrightarrow> list_all item_ok (map Part (parts (join_path base (parse_path r))))"
  using parse_path_items_ok [of r] canonical_items_ok [of base] by (simp add: join_path_def)

lemma resolve_workspace_path_cases:
  assumes "resolve_workspace_path fs cwd ws requested = Inr p"
  shows "requested \<noteq> []" and "NUL \<notin> set requested"
    and "\<not> absolute (parse_path requested)"
    and "p = realpath fs cwd (join_path (realpath fs cwd ws) (parse_path requested))"
    and "strict_prefix (realpath fs cwd ws) p"
  using assms by (auto simp: resolve_workspace_path_def Let_def strict_prefix_def split: if_splits)

lemma resolve_workspace_path_errors:
  "resolve_workspace_path fs cwd ws requested = Inl e \<Longrightarrow> \<exists>m. e = PathViolation m"
  by (auto simp: resolve_workspace_path_def Let_def split: if_splits)


section \<open>Properties\<close>

text \<open>C1: a path that \<open>resolve_workspace_path\<close> accepts is a proper descendant of the resolved
  workspace, in canonical form, and when no link cycle is met on the way it holds no symbolic link:
  following it in the kernel reaches that very object, so a file operation on it cannot leave the
  workspace.\<close>

theorem resolve_workspace_path_confined:
  assumes "resolve_workspace_path fs cwd (parse_path ws) requested = Inr p"
    and "canonical cwd" and "link_free fs cwd"
    and "\<not> meets_cycle fs cwd (join_path (realpath fs cwd (parse_path ws)) (parse_path requested))"
  shows "strict_prefix (realpath fs cwd (parse_path ws)) p
    \<and> canonical p \<and> link_free fs p \<and> kernel_walk fs budget [] p = Some p"
proof -
  let ?base = "realpath fs cwd (parse_path ws)"
  note p = resolve_workspace_path_cases [OF assms(1)]
  have "canonical ?base" using assms(2) parse_path_items_ok by (rule realpath_canonical)
  then have can: "canonical p"
    unfolding p(4) using assms(2) join_path_items_ok by (blast intro: realpath_canonical)
  have free: "link_free fs p"
    unfolding p(4) using assms(3,4) by (rule realpath_link_free)
  show ?thesis
    using p(5) can free kernel_walk_link_free [of p fs "[]" budget] by simp
qed

definition demo_fs :: fs where
  "demo_fs = [([''w''], Dir), ([''w'', ''d''], Link ''real''), ([''w'', ''real''], Dir),
              ([''w'', ''out''], Link ''/etc''), ([''etc''], Dir)]"

theorem resolve_workspace_path_confined_witness:
  "resolve_workspace_path demo_fs [] (parse_path ''/w'') ''d/../d/f'' = Inr [''w'', ''real'', ''f'']
   \<and> strict_prefix (realpath demo_fs [] (parse_path ''/w'')) [''w'', ''real'', ''f'']
   \<and> link_free demo_fs [''w'', ''real'', ''f'']"
proof -
  have res: "resolve_workspace_path demo_fs [] (parse_path ''/w'') ''d/../d/f''
      = Inr [''w'', ''real'', ''f'']" by code_simp
  have free: "\<not> meets_cycle demo_fs []
      (join_path (realpath demo_fs [] (parse_path ''/w'')) (parse_path ''d/../d/f''))" by code_simp
  show ?thesis
    using res resolve_workspace_path_confined [OF res _ _ free, of 0] by simp
qed

text \<open>on a file system without symbolic links, \<open>resolve_workspace_path\<close> is the lexical check
  a reader expects: it normalises the request below the workspace and accepts it exactly when the
  outcome is a proper descendant, with the three error messages in the order of the code.\<close>

theorem resolve_workspace_path_lexical:
  assumes "\<forall>p. link_at fs p = None" and "canonical cwd"
  shows "resolve_workspace_path fs cwd (parse_path ws) requested =
    (let base = normalize (if absolute (parse_path ws) then [] else cwd) (parts (parse_path ws));
         target = normalize base (parts (parse_path requested))
     in if requested = [] \<or> NUL \<in> set requested
        then Inl (PathViolation ''path must be a non-empty workspace-relative path'')
        else if startswith requested ''/'' then Inl (PathViolation ''absolute paths are not allowed'')
        else if strict_prefix base target then Inr target
        else Inl (PathViolation ''path must stay within the workspace''))"
proof -
  let ?base = "realpath fs cwd (parse_path ws)"
  have base: "?base = normalize (if absolute (parse_path ws) then [] else cwd) (parts (parse_path ws))"
    by (rule realpath_no_links [OF assms(1)])
  have can: "canonical ?base" using assms(2) parse_path_items_ok by (rule realpath_canonical)
  have target: "realpath fs cwd (join_path ?base (parse_path requested))
      = normalize ?base (parts (parse_path requested))" if "\<not> startswith requested ''/''"
    using that can by (simp add: realpath_no_links [OF assms(1)] join_path_def parse_path_def
        normalize_canonical_append)
  show ?thesis
    unfolding resolve_workspace_path_def Let_def base [symmetric]
    using target by (auto simp: strict_prefix_def parse_path_def)
qed

theorem resolve_workspace_path_lexical_witness:
  "resolve_workspace_path [] [''srv''] (parse_path ''/w'') ''a/../../w2''
     = Inl (PathViolation ''path must stay within the workspace'')
   \<and> resolve_workspace_path [] [''srv''] (parse_path ''ws'') ''a/./b'' = Inr [''srv'', ''ws'', ''a'', ''b'']"
proof -
  have none: "\<forall>p. link_at [] p = None" by (simp add: link_at_def node_at_def)
  have can: "canonical [''srv'']" by simp
  show ?thesis
    unfolding resolve_workspace_path_lexical [OF none can] by code_simp
qed

text \<open>what the bounded reader returns is the longest prefix of the stream (up to its end of
  file) that fits in the budget, however the stream was cut into chunks.\<close>

theorem read_limited_prefix:
  "read_limited (Some cs) m = take (nat m) (concat (takeWhile (\<lambda>c. c \<noteq> []) cs))
   \<and> int (length (read_limited (Some cs) m)) \<le> max 0 m"
  by (simp add: read_limited_take)

text \<open>\<open>parse_command\<close> accepts exactly the visible command lines with a timeout in range that
  \<open>shlex\<close> can split, and returns their arguments; the check for an empty argument list never fires,
  since a command that is not blank has an argument.\<close>

theorem parse_command_accepts:
  "parse_command st command t = Inr args \<longleftrightarrow>
     strip command \<noteq> [] \<and> 1 \<le> t \<and> t \<le> maximum_command_timeout_seconds st
     \<and> shlex_split command = Inr args"
  by (auto simp: parse_command_def shlex_split_of_command split: sum.splits if_splits)

text \<open>every argument vector survives the command line: joining it with \<open>shlex.join\<close> and
  parsing the command gives the same arguments, whatever quotes, backslashes or spaces they hold.\<close>

theorem parse_command_join:
  assumes "args \<noteq> []" and "1 \<le> t" and "t \<le> maximum_command_timeout_seconds st"
  shows "parse_command st (shlex_join args) t = Inr args"
  using assms strip_shlex_join [OF assms(1)] by (simp add: parse_command_def shlex_split_join)

definition demo_settings :: settings where
  "demo_settings = \<lparr>workspace = parse_path ''/w'', maximum_command_timeout_seconds = 300,
     maximum_output_bytes = 4, maximum_upload_bytes = 5\<rparr>"

theorem parse_command_join_witness:
  "parse_command demo_settings (shlex_join [''echo'', ''a b'', [QUOTE, BACKSLASH], []]) 300
     = Inr [''echo'', ''a b'', [QUOTE, BACKSLASH], []]"
  by (rule parse_command_join) (simp_all add: demo_settings_def)

text \<open>the settings read back from the environment are the numbers written there.\<close>

theorem from_environment_reads:
  assumes "env ''XOLIS_WORKSPACE'' = Some w"
    and "env ''XOLIS_MAXIMUM_COMMAND_TIMEOUT_SECONDS'' = Some (str_of_int t)"
    and "env ''XOLIS_MAXIMUM_OUTPUT_BYTES'' = Some (str_of_int out)"
    and "env ''XOLIS_MAXIMUM_UPLOAD_BYTES'' = Some (str_of_int up)"
  shows "from_environment env = Inr \<lparr>workspace = parse_path w,
     maximum_command_timeout_seconds = t, maximum_output_bytes = out, maximum_upload_bytes = up\<rparr>"
  using assms by (simp add: from_environment_def environ_get_def int_of_str_of_int)

theorem from_environment_reads_witness:
  "from_environment [''XOLIS_WORKSPACE'' \<mapsto> ''/w'',
     ''XOLIS_MAXIMUM_COMMAND_TIMEOUT_SECONDS'' \<mapsto> str_of_int 5,
     ''XOLIS_MAXIMUM_OUTPUT_BYTES'' \<mapsto> str_of_int 7, ''XOLIS_MAXIMUM_UPLOAD_BYTES'' \<mapsto> str_of_int (-1)]
   = Inr \<lparr>workspace = parse_path ''/w'', maximum_command_timeout_seconds = 5,
          maximum_output_bytes = 7, maximum_upload_bytes = -1\<rparr>"
  by (rule from_environment_reads) simp_all

lemma returns_at:
  "both_by a (both_by b c) = Some d \<longleftrightarrow>
     (\<exists>e o_end e_end. a = Some e \<and> b = Some o_end \<and> c = Some e_end \<and> d = max e (max o_end e_end))"
  by (cases a; cases b; cases c) (auto simp: both_by_def)

lemma returns_at_killed:
  "both_by (both_by (Some k) a) (both_by b c) = Some d \<longleftrightarrow>
     (\<exists>e o_end e_end. a = Some e \<and> b = Some o_end \<and> c = Some e_end \<and> d = max (max k e) (max o_end e_end))"
  by (cases a; cases b; cases c) (auto simp: both_by_def)

text \<open>What the command has to show for itself: the bounded prefix of what a pipe delivered, as text.\<close>

definition captured :: "settings \<Rightarrow> pipe \<Rightarrow> string" where
  "captured st q = decode_replace (take (nat (maximum_output_bytes st)) (concat (takeWhile (\<lambda>b. b \<noteq> []) (chunks q))))"

text \<open>C25: what a spawned command is reported with. A command that exits in time gives its own exit code and
  the bounded prefix of each of its streams as text. One that outlives its timeout is killed at the deadline
  and reported with exit code 124 and the bounded prefix of what the killed command delivered, the error text
  followed by the timeout message on a line of its own (alone when there is no error text). The call
  returns when the process has ended (a killed one not before the deadline) and both pipes are closed, and
  not earlier.\<close>

theorem execute_command_outcome:
  assumes "parse_command st command t = Inr args" and "\<forall>a \<in> set args. NUL \<notin> set a"
    and "spawn args = Spawned run"
  shows "\<exists>c. execute_command st (Inr ()) spawn command t = Inr c \<and>
    (let deadline = nat (1000 * t); in_time = exits_within (run None) deadline;
         p = (if in_time then run None else run (Some deadline));
         error_text = captured st (stderr p)
     in res_stdout (result c) = captured st (stdout p)
      \<and> (if in_time then exit_code (result c) = returncode p \<and> res_stderr (result c) = error_text
         else exit_code (result c) = 124
           \<and> res_stderr (result c) = (if error_text = [] then [] else error_text @ [NL]) @ timeout_message t)
      \<and> (\<forall>d. finished_at c = Some d \<longleftrightarrow>
           (\<exists>e o_end e_end. exit_at p = Some e \<and> eof_at (stdout p) = Some o_end \<and> eof_at (stderr p) = Some e_end
             \<and> d = max (if in_time then e else max deadline e) (max o_end e_end))))"
    (is "\<exists>c. ?call c \<and> ?outcome c")
proof -
  have call: "execute_command st (Inr ()) spawn command t = Inr (collect_process st run t)"
    using assms by (auto simp: execute_command_def create_subprocess_exec_def)
  show ?thesis
  proof (intro exI [of _ "collect_process st run t"] conjI call, cases "exits_within (run None) (nat (1000 * t))")
    case True
    then show "?outcome (collect_process st run t)"
      by (simp add: collect_process_def Let_def returns_at read_limited_take captured_def)
  next
    case False
    then show "?outcome (collect_process st run t)"
      by (simp add: collect_process_def Let_def returns_at_killed read_limited_take captured_def)
  qed
qed

definition demo_run :: "nat option \<Rightarrow> process" where
  "demo_run killed = \<lparr>pid = 42, exit_at = (case killed of None \<Rightarrow> None | Some t \<Rightarrow> Some t),
     returncode = (case killed of None \<Rightarrow> 0 | Some t \<Rightarrow> -9),
     stdout = \<lparr>chunks = [encode ''abc'', encode ''def''], eof_at = killed\<rparr>,
     stderr = \<lparr>chunks = [], eof_at = killed\<rparr>\<rparr>"

theorem execute_command_outcome_witness:
  "\<exists>c. execute_command demo_settings (Inr ()) (\<lambda>_. Spawned demo_run) ''sleep 9'' 1 = Inr c
     \<and> result c = \<lparr>res_stdout = ''abcd'', res_stderr = timeout_message 1, exit_code = 124\<rparr>
     \<and> finished_at c = Some 1000"
proof -
  have parse: "parse_command demo_settings ''sleep 9'' 1 = Inr [''sleep'', ''9'']" by code_simp
  have late: "\<not> exits_within (demo_run None) 1000"
    by (simp add: exits_within_def demo_run_def)
  have out: "captured demo_settings (stdout (demo_run (Some 1000))) = ''abcd''"
      "captured demo_settings (stderr (demo_run (Some 1000))) = []"
    by code_simp+
  have ends: "exit_at (demo_run (Some 1000)) = Some 1000" "eof_at (stdout (demo_run (Some 1000))) = Some 1000"
      "eof_at (stderr (demo_run (Some 1000))) = Some 1000"
    by (simp_all add: demo_run_def)
  show ?thesis
    using execute_command_outcome [OF parse, of "\<lambda>_. Spawned demo_run" demo_run] late out ends
    by (auto simp: Let_def intro: command_result.equality)
qed

text \<open>The timeout bounds neither the call nor the process group. A command whose leader exits in time is not
  killed, and when something it left in the background keeps a pipe open the call waits for that, however
  long, past the timeout. And a descendant that has left the group is not killed with it.\<close>

lemma execute_command_outlives_timeout:
  "\<exists>in_time killed. exits_within (in_time None) 0
     \<and> (\<forall>st t. finished_at (collect_process st in_time t) = both_by (Some 0) held
             \<and> exit_code (result (collect_process st in_time t)) = 0)
     \<and> (\<forall>t. \<not> exits_within (killed None) t \<and> exits_within (killed (Some t)) t)
     \<and> (\<forall>st t. finished_at (collect_process st killed t) = both_by (Some (nat (1000 * t))) held
             \<and> exit_code (result (collect_process st killed t)) = 124)"
proof -
  let ?p = "\<lambda>k. \<lparr>pid = 1, exit_at = k, returncode = 0, stdout = \<lparr>chunks = [], eof_at = held\<rparr>,
             stderr = \<lparr>chunks = [], eof_at = held\<rparr>\<rparr>"
  have "exits_within (?p (Some n)) n" "\<not> exits_within (?p None) n" "exits_within (?p (Some 0)) n" for n
    by (simp_all add: exits_within_def)
  then show ?thesis
    by (intro exI [of _ "\<lambda>_. ?p (Some 0)"] exI [of _ ?p])
       (simp add: collect_process_def Let_def both_by_def split: option.splits)
qed

end
