(* ===== verification/Py_Os.thy ===== *)
theory Py_Os
  imports Py_Fs "HOL-Library.List_Lexorder" "HOL-Library.Char_ord"
begin

text \<open>
  The file operations of \<open>os\<close>, \<open>pathlib\<close> and \<open>tempfile\<close> the runtime performs, as procedures on the
  file system. They are called on resolved paths: a symbolic link left in one is a link cycle, on
  which the kernel answers \<open>ELOOP\<close>. Permissions, quotas and hardware errors are not modelled.
\<close>

definition is_oserror :: "exn \<Rightarrow> bool" where
  "is_oserror e \<longleftrightarrow>
     (case e of FileNotFoundError _ \<Rightarrow> True | FileExistsError _ \<Rightarrow> True | NotADirectoryError _ \<Rightarrow> True
      | IsADirectoryError _ \<Rightarrow> True | OSError _ \<Rightarrow> True | TimeoutError _ \<Rightarrow> True | _ \<Rightarrow> False)"

text \<open>Descend through directories only.\<close>

fun walk_dirs :: "fs \<Rightarrow> path \<Rightarrow> string list \<Rightarrow> unit result" where
  "walk_dirs fs cur rest =
     (case node_at fs cur of
        None \<Rightarrow> Inl (FileNotFoundError ''No such file or directory'')
      | Some (File _) \<Rightarrow> Inl (NotADirectoryError ''Not a directory'')
      | Some (Link _) \<Rightarrow> Inl (OSError ''Too many levels of symbolic links'')
      | Some Dir \<Rightarrow> (case rest of [] \<Rightarrow> Inr () | c # cs \<Rightarrow> walk_dirs fs (cur @ [c]) cs))"

declare walk_dirs.simps [simp del]

definition put_node :: "path \<Rightarrow> node \<Rightarrow> fs \<Rightarrow> fs" where
  "put_node p n fs = AList.update p n fs"

definition remove_node :: "path \<Rightarrow> fs \<Rightarrow> fs" where
  "remove_node p fs = AList.delete p fs"

definition os_mkdir :: "path \<Rightarrow> (fs, unit) proc" where
  "os_mkdir p =
     seq (gets (\<lambda>fs. walk_dirs fs [] (butlast p))) (\<lambda>parent.
     seq (liftE parent) (\<lambda>_.
     seq (gets (\<lambda>fs. node_at fs p)) (\<lambda>old.
       if old = None then modify (put_node p Dir)
       else raising (FileExistsError ''File exists''))))"

text \<open>\<open>Path.mkdir(exist_ok=True)\<close> and \<open>Path.mkdir(parents=True, exist_ok=True)\<close>.\<close>

definition mkdir_exist_ok :: "path \<Rightarrow> (fs, unit) proc" where
  "mkdir_exist_ok p =
     try_except (os_mkdir p) (\<lambda>e.
       (case e of FileNotFoundError _ \<Rightarrow> raising e
        | _ \<Rightarrow> seq (gets (\<lambda>fs. is_dir fs p)) (\<lambda>d.
                if is_oserror e \<and> d then ret () else raising e)))"

fun mkdir_parents :: "path \<Rightarrow> (fs, unit) proc" where
  "mkdir_parents p =
     try_except (os_mkdir p) (\<lambda>e.
       (case e of
          FileNotFoundError _ \<Rightarrow>
            if p = [] then raising e
            else seq (mkdir_parents (butlast p)) (\<lambda>_. mkdir_exist_ok p)
        | _ \<Rightarrow> seq (gets (\<lambda>fs. is_dir fs p)) (\<lambda>d.
                if is_oserror e \<and> d then ret () else raising e)))"

declare mkdir_parents.simps [simp del]

text \<open>\<open>NamedTemporaryFile(dir=dir, delete=False)\<close>: the environment picks the name; an existing file is
  never reused.\<close>

definition create_temporary :: "path \<Rightarrow> string \<Rightarrow> (fs, path) proc" where
  "create_temporary dir name =
     seq (gets (\<lambda>fs. walk_dirs fs [] dir)) (\<lambda>parent.
     seq (liftE parent) (\<lambda>_.
     seq (gets (\<lambda>fs. node_at fs (dir @ [name]))) (\<lambda>old.
       if old = None
       then seq (modify (put_node (dir @ [name]) (File []))) (\<lambda>_. ret (dir @ [name]))
       else raising (FileExistsError ''File exists''))))"

definition append_file :: "path \<Rightarrow> bytes \<Rightarrow> (fs, unit) proc" where
  "append_file p b =
     modify (\<lambda>fs. case node_at fs p of Some (File old) \<Rightarrow> put_node p (File (old @ b)) fs | _ \<Rightarrow> fs)"

definition os_replace :: "path \<Rightarrow> path \<Rightarrow> (fs, unit) proc" where
  "os_replace src dst =
     seq (gets (\<lambda>fs. walk_dirs fs [] (butlast dst))) (\<lambda>parent.
     seq (liftE parent) (\<lambda>_.
     seq (gets (\<lambda>fs. (node_at fs src, node_at fs dst))) (\<lambda>(s, d).
       (case s of
          None \<Rightarrow> raising (FileNotFoundError ''No such file or directory'')
        | Some n \<Rightarrow>
            if d = Some Dir then raising (IsADirectoryError ''Is a directory'')
            else if src = dst then ret ()
            else modify (\<lambda>fs. put_node dst n (remove_node src fs))))))"

definition unlink_missing_ok :: "path \<Rightarrow> (fs, unit) proc" where
  "unlink_missing_ok p = modify (remove_node p)"

definition child_names :: "fs \<Rightarrow> path \<Rightarrow> string list" where
  "child_names fs d = remdups (map (last \<circ> fst) (filter (\<lambda>(p, n). p \<noteq> [] \<and> butlast p = d) fs))"


section \<open>Lookups after an update\<close>

lemma node_at_put: "p \<noteq> [] \<Longrightarrow> node_at (put_node p n fs) = (node_at fs)(p \<mapsto> n)"
  by (auto simp: node_at_def put_node_def update_conv fun_eq_iff)

lemma node_at_remove: "p \<noteq> [] \<Longrightarrow> node_at (remove_node p fs) = (node_at fs)(p := None)"
  by (auto simp: node_at_def remove_node_def delete_conv fun_eq_iff)

lemma node_at_root [simp]: "node_at fs [] = Some Dir"
  by (simp add: node_at_def)

lemma walk_dirs_Inr_iff:
  "walk_dirs fs cur rest = Inr () \<longleftrightarrow> (\<forall>q. prefix q rest \<longrightarrow> is_dir fs (cur @ q))"
proof (induction rest arbitrary: cur)
  case Nil
  show ?case by (subst walk_dirs.simps) (auto simp: is_dir_def split: option.splits node.splits)
next
  case (Cons c cs)
  have all: "(\<forall>q. prefix q (c # cs) \<longrightarrow> is_dir fs (cur @ q))
      \<longleftrightarrow> is_dir fs cur \<and> (\<forall>q. prefix q cs \<longrightarrow> is_dir fs ((cur @ [c]) @ q))"
    by (auto simp: prefix_Cons)
  show ?case unfolding all
    by (subst walk_dirs.simps)
       (auto simp: is_dir_def Cons.IH [unfolded is_dir_def] split: option.splits node.splits)
qed

lemma walk_dirs_is_dir: "walk_dirs fs [] d = Inr u \<Longrightarrow> is_dir fs d"
  using walk_dirs_Inr_iff [of fs "[]" d] by auto

lemma child_names_iff: "c \<in> set (child_names fs d) \<longleftrightarrow> node_at fs (d @ [c]) \<noteq> None"
proof -
  have "node_at fs (d @ [c]) \<noteq> None \<longleftrightarrow> (\<exists>n. (d @ [c], n) \<in> set fs)"
    by (force simp: node_at_def map_of_eq_None_iff)
  also have "\<dots> \<longleftrightarrow> c \<in> set (child_names fs d)"
    by (force simp: child_names_def image_iff)
  finally show ?thesis by simp
qed


section \<open>Frames\<close>

text \<open>\<open>grows fs fs' d\<close>: the only difference is directories that appeared on the way to \<open>d\<close>.\<close>

definition grows :: "fs \<Rightarrow> fs \<Rightarrow> path \<Rightarrow> bool" where
  "grows fs fs' d \<longleftrightarrow>
     (\<forall>q. node_at fs' q = node_at fs q
        \<or> (node_at fs q = None \<and> node_at fs' q = Some Dir \<and> prefix q d))"

lemma grows_refl [simp]: "grows fs fs d"
  by (simp add: grows_def)

lemma grows_trans: "grows fs fs1 d \<Longrightarrow> grows fs1 fs2 d \<Longrightarrow> grows fs fs2 d"
  unfolding grows_def by metis

lemma grows_prefix: "grows fs fs' d \<Longrightarrow> prefix d d' \<Longrightarrow> grows fs fs' d'"
  unfolding grows_def by (meson prefix_order.trans)

lemma grows_put: "d \<noteq> [] \<Longrightarrow> node_at fs d = None \<Longrightarrow> grows fs (put_node d Dir fs) d"
  by (simp add: grows_def node_at_put)

lemma os_mkdir_wp:
  "wp (os_mkdir p) (\<lambda>_ fs'. grows fs fs' p \<and> is_dir fs' p) (\<lambda>_ fs'. fs' = fs) fs"
proof (cases "p = []")
  case True
  then show ?thesis by (simp add: os_mkdir_def wp_simps split: sum.splits)
next
  case False
  then show ?thesis
    by (simp add: os_mkdir_def wp_simps grows_put is_dir_def node_at_put split: sum.splits)
qed

lemma mkdir_exist_ok_wp:
  "wp (mkdir_exist_ok p) (\<lambda>_ fs'. grows fs fs' p \<and> is_dir fs' p) (\<lambda>_ fs'. fs' = fs) fs"
  unfolding mkdir_exist_ok_def wp_try_except
  by (rule wp_mono [OF os_mkdir_wp]) (auto simp: wp_simps split: exn.splits)

lemma mkdir_parents_wp:
  "wp (mkdir_parents p) (\<lambda>_ fs'. grows fs fs' p \<and> is_dir fs' p) (\<lambda>_ fs'. grows fs fs' p) fs"
proof (induction p arbitrary: fs rule: mkdir_parents.induct)
  case (1 p)
  show ?case
  proof (subst mkdir_parents.simps, unfold wp_try_except, rule wp_mono [OF os_mkdir_wp [of p fs]])
    fix e :: exn and t
    assume t: "t = fs"
    have rec: "wp (seq (mkdir_parents (butlast p)) (\<lambda>_. mkdir_exist_ok p))
        (\<lambda>_ fs'. grows fs fs' p \<and> is_dir fs' p) (\<lambda>_ fs'. grows fs fs' p) fs"
      if "e = FileNotFoundError m" and "p \<noteq> []" for m
      unfolding wp_seq
    proof (rule wp_mono [OF "1.IH" [OF that]])
      show "wp (mkdir_exist_ok p) (\<lambda>_ fs'. grows fs fs' p \<and> is_dir fs' p) (\<lambda>_ fs'. grows fs fs' p) u"
        if "grows fs u (butlast p) \<and> is_dir u (butlast p)" for u
        using that by (intro wp_mono [OF mkdir_exist_ok_wp])
          (auto intro: grows_trans grows_prefix prefixeq_butlast)
      show "grows fs u p" if "grows fs u (butlast p)" for u
        using that by (rule grows_prefix) (rule prefixeq_butlast)
    qed
    show "wp (case e of FileNotFoundError _ \<Rightarrow>
              if p = [] then raising e else seq (mkdir_parents (butlast p)) (\<lambda>_. mkdir_exist_ok p)
            | _ \<Rightarrow> seq (gets (\<lambda>fs. is_dir fs p)) (\<lambda>d.
                if is_oserror e \<and> d then ret () else raising e))
          (\<lambda>_ fs'. grows fs fs' p \<and> is_dir fs' p) (\<lambda>_ fs'. grows fs fs' p) t"
      using rec by (auto simp: t wp_simps split: exn.splits)
  qed simp
qed


section \<open>The tree invariant\<close>

text \<open>Everything in the file system hangs below directories.\<close>

definition tree_ok :: "fs \<Rightarrow> bool" where
  "tree_ok fs \<longleftrightarrow> (\<forall>p. p \<noteq> [] \<and> node_at fs p \<noteq> None \<longrightarrow> is_dir fs (butlast p))"

lemma tree_okD: "tree_ok fs \<Longrightarrow> node_at fs (d @ [c]) \<noteq> None \<Longrightarrow> node_at fs d = Some Dir"
  by (metis append_is_Nil_conv butlast_snoc is_dir_def list.distinct(1) tree_ok_def)

lemma tree_ok_put:
  assumes "tree_ok fs" and "is_dir fs (butlast p)" and "p \<noteq> []"
    and "n = Dir \<or> \<not> is_dir fs p"
  shows "tree_ok (put_node p n fs)"
proof -
  have "butlast p \<noteq> p" using assms(3) by (metis append_butlast_last_id not_Cons_self2 self_append_conv)
  with assms show ?thesis by (auto simp: tree_ok_def is_dir_def node_at_put)
qed

lemma tree_ok_remove:
  "tree_ok fs \<Longrightarrow> \<not> is_dir fs p \<Longrightarrow> tree_ok (remove_node p fs)"
  by (cases "p = []") (auto simp: tree_ok_def is_dir_def node_at_remove)

lemma os_mkdir_tree_ok: "keeps tree_ok (os_mkdir p)"
  by (cases "p = []")
     (auto simp: keeps_def os_mkdir_def wp_simps intro!: tree_ok_put dest: walk_dirs_is_dir split: sum.splits)

lemma mkdir_exist_ok_tree_ok: "keeps tree_ok (mkdir_exist_ok p)"
  unfolding mkdir_exist_ok_def
  by (intro keeps_intros os_mkdir_tree_ok) (auto intro!: keeps_intros split: exn.splits)

lemma mkdir_parents_tree_ok: "keeps tree_ok (mkdir_parents p)"
proof (induction p rule: mkdir_parents.induct)
  case (1 p)
  show ?case
    by (subst mkdir_parents.simps, intro keeps_try_except os_mkdir_tree_ok)
       (auto intro!: keeps_intros mkdir_exist_ok_tree_ok 1 split: exn.splits)
qed

lemma create_temporary_tree_ok: "keeps tree_ok (create_temporary d name)"
  by (auto simp: keeps_def create_temporary_def wp_simps is_dir_def intro!: tree_ok_put
      dest!: walk_dirs_is_dir split: sum.splits)

lemma append_file_tree_ok: "keeps tree_ok (append_file p b)"
  by (cases "p = []")
     (auto simp: keeps_def append_file_def wp_simps is_dir_def tree_ok_def node_at_put
       split: option.splits node.splits)

lemma os_replace_tree_ok:
  assumes "\<not> is_dir fs src" and "tree_ok fs"
  shows "wp (os_replace src dst) (\<lambda>_. tree_ok) (\<lambda>_. tree_ok) fs"
proof -
  have src: "src \<noteq> []" using assms(1) by (auto simp: is_dir_def)
  show ?thesis
    using assms src
    by (cases "dst = []")
       (auto simp: os_replace_def wp_simps is_dir_def node_at_remove intro!: tree_ok_put tree_ok_remove
         dest!: walk_dirs_is_dir split: sum.splits option.splits)
qed

end
