(* ===== verification/Runtime_Files.thy ===== *)
theory Runtime_Files
  imports Runtime_Core Py_Os
begin

text \<open>
  \<open>core.py\<close>, the file operations: \<open>write_upload\<close> and \<open>list_directory\<close>. The body of \<open>write_upload\<close> runs
  on the file system together with the local variable \<open>temporary_name\<close>, which its \<open>finally\<close> block
  reads. The environment picks the temporary file's name; the upload is the sequence of results of
  \<open>source.read\<close>.
\<close>

section \<open>write_upload\<close>

datatype read_event = Chunk bytes | ReadError exn

record upload =
  files :: fs
  temporary_name :: "path option"

definition on_files :: "(fs, 'a) proc \<Rightarrow> (upload, 'a) proc" where
  "on_files m s = (case m (files s) of (r, fs) \<Rightarrow> (r, s\<lparr>files := fs\<rparr>))"

definition upload_too_large :: "settings \<Rightarrow> exn" where
  "upload_too_large st =
     UploadTooLarge (''upload cannot exceed '' @ str_of_int (maximum_upload_bytes st) @ '' bytes'')"

fun upload_loop :: "settings \<Rightarrow> path \<Rightarrow> nat \<Rightarrow> read_event list \<Rightarrow> (upload, unit) proc" where
  "upload_loop st temporary total_bytes [] = ret ()"
| "upload_loop st temporary total_bytes (ReadError e # source) = raising e"
| "upload_loop st temporary total_bytes (Chunk chunk # source) =
     (if chunk = [] then ret ()
      else let total_bytes' = total_bytes + length chunk in
      if int total_bytes' > maximum_upload_bytes st then raising (upload_too_large st)
      else seq (on_files (append_file temporary chunk)) (\<lambda>_. upload_loop st temporary total_bytes' source))"

definition upload_body ::
  "settings \<Rightarrow> string \<Rightarrow> path \<Rightarrow> read_event list \<Rightarrow> (upload, path) proc" where
  "upload_body st temp destination source =
     seq (on_files (create_temporary (butlast destination) temp)) (\<lambda>temporary.
     seq (modify (\<lambda>s. s\<lparr>temporary_name := Some temporary\<rparr>)) (\<lambda>_.
     seq (upload_loop st temporary 0 source) (\<lambda>_.
     seq (on_files (os_replace temporary destination)) (\<lambda>_.
     seq (modify (\<lambda>s. s\<lparr>temporary_name := None\<rparr>)) (\<lambda>_.
     ret destination)))))"

definition upload_cleanup :: "(upload, unit) proc" where
  "upload_cleanup =
     seq (gets temporary_name) (\<lambda>name.
       case name of None \<Rightarrow> ret () | Some t \<Rightarrow> on_files (unlink_missing_ok t))"

definition write_upload ::
  "settings \<Rightarrow> path \<Rightarrow> string \<Rightarrow> string \<Rightarrow> read_event list \<Rightarrow> (upload, path) proc" where
  "write_upload st cwd temp requested_path source =
     seq (gets (\<lambda>s. resolve_workspace_path (files s) cwd (workspace st) requested_path)) (\<lambda>r.
     seq (liftE r) (\<lambda>destination.
     seq (on_files (mkdir_parents (butlast destination))) (\<lambda>_.
     try_finally (upload_body st temp destination source) upload_cleanup)))"

text \<open>One call of \<open>write_upload\<close> on a file system.\<close>

definition upload_to ::
  "settings \<Rightarrow> path \<Rightarrow> string \<Rightarrow> string \<Rightarrow> read_event list \<Rightarrow> fs \<Rightarrow> path result \<times> fs" where
  "upload_to st cwd temp requested_path source fs =
     (case write_upload st cwd temp requested_path source \<lparr>files = fs, temporary_name = None\<rparr> of
        (r, s) \<Rightarrow> (r, files s))"


section \<open>list_directory\<close>

record 'time dir_entry =
  entry_name :: string
  entry_size :: nat
  entry_kind :: string
  mod_time :: 'time

text \<open>What \<open>stat\<close> says beyond the model's file system: the size of a directory and the time of the
  last change.\<close>

record 'time stat_env =
  dir_size :: "path \<Rightarrow> nat"
  st_mtime :: "path \<Rightarrow> 'time"

definition st_size :: "'time stat_env \<Rightarrow> path \<Rightarrow> node \<Rightarrow> nat" where
  "st_size env p n = (case n of File b \<Rightarrow> length b | Link t \<Rightarrow> length t | Dir \<Rightarrow> dir_size env p)"

definition entry_type :: "node \<Rightarrow> string" where
  "entry_type n = (case n of Link _ \<Rightarrow> ''other'' | Dir \<Rightarrow> ''directory'' | File _ \<Rightarrow> ''file'')"

definition dir_entry_of :: "'time stat_env \<Rightarrow> fs \<Rightarrow> path \<Rightarrow> string \<Rightarrow> 'time dir_entry" where
  "dir_entry_of env fs d c =
     (let p = d @ [c]; n = the (node_at fs p)
      in \<lparr>entry_name = c, entry_size = st_size env p n, entry_kind = entry_type n, mod_time = st_mtime env p\<rparr>)"

definition list_directory ::
  "settings \<Rightarrow> 'time stat_env \<Rightarrow> fs \<Rightarrow> path \<Rightarrow> string \<Rightarrow> 'time dir_entry list result" where
  "list_directory st env fs cwd requested_path =
     bindE (resolve_workspace_path fs cwd (workspace st) requested_path) (\<lambda>directory.
       if \<not> is_dir fs directory then Inl (FileNotFoundError ''path is not a directory'')
       else Inr (map (dir_entry_of env fs directory) (sort (child_names fs directory))))"


section \<open>The upload step by step\<close>

lemma wp_on_files:
  "wp (on_files m) Q E s =
     wp m (\<lambda>a fs. Q a (s\<lparr>files := fs\<rparr>)) (\<lambda>e fs. E e (s\<lparr>files := fs\<rparr>)) (files s)"
  by (auto simp: wp_def on_files_def split: prod.splits sum.splits)

lemma keeps_on_files: "keeps I m \<Longrightarrow> keeps (\<lambda>s. I (files s)) (on_files m)"
  by (simp add: keeps_def wp_on_files)

text \<open>The bytes of an upload: up to the empty chunk that ends the stream.\<close>

fun upload_bytes :: "read_event list \<Rightarrow> bytes" where
  "upload_bytes [] = []"
| "upload_bytes (ReadError e # source) = []"
| "upload_bytes (Chunk c # source) = (if c = [] then [] else c @ upload_bytes source)"

definition sets_file :: "fs \<Rightarrow> path \<Rightarrow> bytes \<Rightarrow> fs \<Rightarrow> bool" where
  "sets_file fs t b fs' \<longleftrightarrow> node_at fs' = (node_at fs)(t \<mapsto> File b)"

lemma sets_file_refl: "node_at fs t = Some (File b) \<Longrightarrow> sets_file fs t b fs"
  by (simp add: sets_file_def fun_upd_idem)

lemma sets_file_put: "t \<noteq> [] \<Longrightarrow> sets_file fs t b (put_node t (File b) fs)"
  by (simp add: sets_file_def node_at_put)

lemma sets_file_after_put:
  "t \<noteq> [] \<Longrightarrow> sets_file (put_node t n fs) t b fs' \<longleftrightarrow> sets_file fs t b fs'"
  by (simp add: sets_file_def node_at_put)

lemma upload_loop_wp:
  assumes "node_at (files s) t = Some (File b)" and "t \<noteq> []" and "total_bytes = length b"
    and "int total_bytes \<le> max 0 (maximum_upload_bytes st)"
  shows "wp (upload_loop st t total_bytes source)
     (\<lambda>_ s'. temporary_name s' = temporary_name s
        \<and> sets_file (files s) t (b @ upload_bytes source) (files s')
        \<and> int (length (b @ upload_bytes source)) \<le> max 0 (maximum_upload_bytes st))
     (\<lambda>e s'. temporary_name s' = temporary_name s \<and> (\<exists>b'. sets_file (files s) t b' (files s'))) s"
  using assms
proof (induction source arbitrary: s b total_bytes)
  case Nil
  then show ?case by (simp add: wp_simps sets_file_refl)
next
  case (Cons ev source)
  note same = sets_file_refl [OF Cons.prems(1)]
  show ?case
  proof (cases ev)
    case (ReadError e)
    with same show ?thesis by (auto simp: wp_simps)
  next
    case (Chunk c)
    show ?thesis
    proof (cases "c = [] \<or> int (total_bytes + length c) > maximum_upload_bytes st")
      case True
      then show ?thesis using Chunk same Cons.prems by (auto simp: wp_simps Let_def)
    next
      case False
      let ?s = "s\<lparr>files := put_node t (File (b @ c)) (files s)\<rparr>"
      have "wp (upload_loop st t (total_bytes + length c) source)
         (\<lambda>_ s'. temporary_name s' = temporary_name ?s
            \<and> sets_file (files ?s) t ((b @ c) @ upload_bytes source) (files s')
            \<and> int (length ((b @ c) @ upload_bytes source)) \<le> max 0 (maximum_upload_bytes st))
         (\<lambda>e s'. temporary_name s' = temporary_name ?s
            \<and> (\<exists>b'. sets_file (files ?s) t b' (files s'))) ?s"
        using Cons.prems False by (intro Cons.IH) (auto simp: node_at_put)
      then show ?thesis
        using Chunk False Cons.prems(1,2)
        by (simp add: wp_simps Let_def wp_on_files append_file_def sets_file_after_put)
    qed
  qed
qed

text \<open>Nothing but a temporary file differs.\<close>

definition only_temp :: "fs \<Rightarrow> path \<Rightarrow> upload \<Rightarrow> bool" where
  "only_temp fs t s \<longleftrightarrow>
     (node_at (files s) = node_at fs \<and> temporary_name s = None)
     \<or> (temporary_name s = Some t \<and> (\<exists>b. sets_file fs t b (files s)))"

definition replaced :: "fs \<Rightarrow> path \<Rightarrow> path \<Rightarrow> bytes \<Rightarrow> fs \<Rightarrow> bool" where
  "replaced fs t d b fs' \<longleftrightarrow> node_at fs' = ((node_at fs)(t := None))(d \<mapsto> File b)"

lemma upload_body_wp:
  assumes "destination \<noteq> []" and "temporary_name s = None"
    and "t = butlast destination @ [temp]"
  shows "wp (upload_body st temp destination source)
     (\<lambda>p s'. p = destination \<and> temporary_name s' = None
        \<and> node_at (files s) t = None
        \<and> replaced (files s) t destination (upload_bytes source) (files s')
        \<and> int (length (upload_bytes source)) \<le> max 0 (maximum_upload_bytes st))
     (\<lambda>e s'. (node_at (files s) t = None \<or> files s' = files s \<and> temporary_name s' = None) \<and> only_temp (files s) t s') s"
proof -
  let ?s1 = "s\<lparr>files := put_node t (File []) (files s), temporary_name := Some t\<rparr>"
  have t: "t \<noteq> []" using assms(3) by simp
  have loop: "wp (upload_loop st t 0 source)
     (\<lambda>_ s'. temporary_name s' = Some t
        \<and> sets_file (files s) t (upload_bytes source) (files s')
        \<and> int (length (upload_bytes source)) \<le> max 0 (maximum_upload_bytes st))
     (\<lambda>e s'. temporary_name s' = Some t
        \<and> (\<exists>b'. sets_file (files s) t b' (files s'))) ?s1"
    using upload_loop_wp [of ?s1 t "[]" 0 st source] t by (simp add: node_at_put sets_file_after_put)
  have rest: "wp (seq (upload_loop st t 0 source) (\<lambda>_.
       seq (on_files (os_replace t destination)) (\<lambda>_.
       seq (modify (\<lambda>s. s\<lparr>temporary_name := None\<rparr>)) (\<lambda>_. ret destination))))
     (\<lambda>p s'. p = destination \<and> temporary_name s' = None
        \<and> replaced (files s) t destination (upload_bytes source) (files s')
        \<and> int (length (upload_bytes source)) \<le> max 0 (maximum_upload_bytes st))
     (\<lambda>e s'. only_temp (files s) t s') ?s1"
    unfolding wp_seq
    by (rule wp_mono [OF loop])
       (use t assms(1) in \<open>auto simp: only_temp_def wp_simps wp_on_files os_replace_def replaced_def
          sets_file_def node_at_put node_at_remove fun_eq_iff split: sum.splits option.splits\<close>)
  show ?thesis
  proof (cases "node_at (files s) t = None")
    case True
    then show ?thesis
      using rest assms(2)
      by (auto simp: upload_body_def create_temporary_def wp_simps wp_on_files assms(3) only_temp_def
          split: sum.splits)
  next
    case False
    then show ?thesis
      using assms(2)
      by (auto simp: upload_body_def create_temporary_def wp_simps wp_on_files assms(3) only_temp_def
          split: sum.splits)
  qed
qed

lemma upload_cleanup_wp:
  assumes "only_temp fs t s" and "node_at fs t = None"
  shows "wp upload_cleanup (\<lambda>_ s'. node_at (files s') = node_at fs) (\<lambda>_ _. False) s"
proof -
  have "t \<noteq> []" using assms(2) by auto
  then show ?thesis
    using assms by (auto simp: upload_cleanup_def only_temp_def wp_simps wp_on_files
        unlink_missing_ok_def sets_file_def node_at_remove fun_eq_iff)
qed


section \<open>The interface of a confined writer\<close>

text \<open>A resolver maps a request to a place below a base directory; a writer changes the file system
  only at the place its resolver names, and may create the directories on the way there.\<close>

locale workspace_resolver =
  fixes base :: "fs \<Rightarrow> path"
    and resolve :: "'r \<Rightarrow> fs \<Rightarrow> path result"
  assumes resolve_below: "resolve r fs = Inr p \<Longrightarrow> strict_prefix (base fs) p"
    and resolve_rejects: "resolve r fs = Inl e \<Longrightarrow> \<exists>m. e = PathViolation m"

locale workspace_writer = workspace_resolver base resolve
  for base :: "fs \<Rightarrow> path" and resolve :: "'r \<Rightarrow> fs \<Rightarrow> path result" +
  fixes perform :: "'r \<Rightarrow> fs \<Rightarrow> path result \<times> fs"
  assumes perform_frame:
    "perform r fs = (res, fs') \<Longrightarrow> node_at fs' q \<noteq> node_at fs q \<Longrightarrow>
       \<exists>p. resolve r fs = Inr p \<and> (q = p \<or> strict_prefix q p \<and> node_at fs q = None \<and> node_at fs' q = Some Dir)"
begin

lemma outside_unchanged:
  assumes "perform r fs = (res, fs')" and "\<not> prefix (base fs) q" and "\<not> prefix q (base fs)"
  shows "node_at fs' q = node_at fs q"
proof (rule ccontr)
  assume "node_at fs' q \<noteq> node_at fs q"
  from perform_frame [OF assms(1) this] obtain p where p: "resolve r fs = Inr p" "prefix q p" by auto
  with resolve_below [OF p(1)] have "prefix (base fs) p" by auto
  with p(2) assms(2,3) show False using prefix_same_cases by blast
qed

lemma existing_unchanged:
  assumes "perform r fs = (res, fs')" and "node_at fs q \<noteq> None" and "resolve r fs \<noteq> Inr q"
  shows "node_at fs' q = node_at fs q"
  using perform_frame [OF assms(1), of q] assms(2,3) by auto

lemma rejected_unchanged:
  assumes "perform r fs = (res, fs')" and "resolve r fs = Inl e"
  shows "node_at fs' = node_at fs"
  using perform_frame [OF assms(1)] assms(2) by fastforce

end


section \<open>write_upload as a whole\<close>

definition upload_post :: "fs \<Rightarrow> path \<Rightarrow> bytes \<Rightarrow> fs \<Rightarrow> bool" where
  "upload_post fs p content fs' \<longleftrightarrow>
     node_at fs' p = Some (File content)
     \<and> (\<forall>q. q \<noteq> p \<longrightarrow> node_at fs' q = node_at fs q
          \<or> (node_at fs q = None \<and> node_at fs' q = Some Dir \<and> strict_prefix q p))"

definition only_new_dirs :: "fs \<Rightarrow> path \<Rightarrow> fs \<Rightarrow> bool" where
  "only_new_dirs fs p fs' \<longleftrightarrow>
     (\<forall>q. node_at fs' q = node_at fs q
        \<or> (node_at fs q = None \<and> node_at fs' q = Some Dir \<and> strict_prefix q p))"

lemma strict_prefix_of_butlast: "p \<noteq> [] \<Longrightarrow> prefix q (butlast p) \<Longrightarrow> strict_prefix q p"
  by (metis append_butlast_last_id prefix_snocD prefix_order.le_neq_trans prefix_order.trans
      prefixeq_butlast prefix_order.antisym not_Cons_self2 self_append_conv same_prefix_prefix)

lemma grows_only_new_dirs:
  "p \<noteq> [] \<Longrightarrow> grows fs fs' (butlast p) \<Longrightarrow> only_new_dirs fs p fs'"
  unfolding grows_def only_new_dirs_def by (metis strict_prefix_of_butlast)

lemma replaced_upload_post:
  assumes "p \<noteq> []" and "grows fs mid (butlast p)" and "node_at mid t = None"
    and "replaced mid t p b fs'"
  shows "upload_post fs p b fs'"
  using grows_only_new_dirs [OF assms(1,2)] assms(3,4)
  unfolding upload_post_def replaced_def only_new_dirs_def by (metis fun_upd_apply)

lemma upload_place_wp:
  assumes "p \<noteq> []" and "grows fs (files s) (butlast p)" and "temporary_name s = None"
  shows "wp (try_finally (upload_body st temp p source) upload_cleanup)
     (\<lambda>p' s'. p' = p \<and> upload_post fs p (upload_bytes source) (files s')
        \<and> int (length (upload_bytes source)) \<le> max 0 (maximum_upload_bytes st))
     (\<lambda>e s'. only_new_dirs fs p (files s')) s"
proof -
  let ?t = "butlast p @ [temp]"
  have clean_ok: "wp upload_cleanup (\<lambda>_ t. Q (files t)) E u" if "temporary_name u = None" "Q (files u)" for Q E u
    using that by (simp add: upload_cleanup_def wp_simps)
  have clean_err: "wp upload_cleanup (\<lambda>_ s'. only_new_dirs fs p (files s')) E u"
    if "node_at (files s) ?t = None \<or> files u = files s \<and> temporary_name u = None"
      and "only_temp (files s) ?t u" for u E
  proof (cases "node_at (files s) ?t = None")
    case True
    have "only_new_dirs fs p f" if "node_at f = node_at (files s)" for f
      using grows_only_new_dirs [OF assms(1,2)] that by (simp add: only_new_dirs_def)
    then show ?thesis
      by (intro wp_mono [OF upload_cleanup_wp [OF that(2) True]]) auto
  next
    case False
    with that(1) grows_only_new_dirs [OF assms(1,2)] show ?thesis
      by (intro clean_ok) auto
  qed
  show ?thesis
    unfolding wp_try_finally
  proof (rule wp_mono [OF upload_body_wp [OF assms(1,3) refl]], goal_cases)
    case (1 a u)
    with replaced_upload_post [OF assms(1,2)] show ?case
      by (intro clean_ok [where Q = "\<lambda>f. a = p \<and> upload_post fs p (upload_bytes source) f
            \<and> int (length (upload_bytes source)) \<le> max 0 (maximum_upload_bytes st)"]) auto
  next
    case (2 e u)
    then show ?case by (intro clean_err) auto
  qed
qed

lemma write_upload_wp:
  assumes "files s = fs" and "temporary_name s = None"
  shows "wp (write_upload st cwd temp requested source)
     (\<lambda>p s'. resolve_workspace_path fs cwd (workspace st) requested = Inr p
        \<and> upload_post fs p (upload_bytes source) (files s')
        \<and> int (length (upload_bytes source)) \<le> max 0 (maximum_upload_bytes st))
     (\<lambda>e s'. case resolve_workspace_path fs cwd (workspace st) requested of
          Inl e' \<Rightarrow> e = e' \<and> files s' = fs
        | Inr p \<Rightarrow> only_new_dirs fs p (files s')) s"
proof (cases "resolve_workspace_path fs cwd (workspace st) requested")
  case (Inl e)
  then show ?thesis using assms by (simp add: write_upload_def wp_simps)
next
  case (Inr p)
  then have p: "p \<noteq> []" using resolve_workspace_path_cases(5) by fastforce
  show ?thesis
    unfolding write_upload_def wp_seq wp_gets wp_liftE assms(1) Inr sum.case wp_on_files
  proof (rule wp_mono [OF mkdir_parents_wp], goal_cases)
    case (1 a u)
    then show ?case
      using assms(2) p by (intro wp_mono [OF upload_place_wp]) auto
  next
    case (2 e u)
    then show ?case using grows_only_new_dirs [OF p] by auto
  qed
qed

lemma upload_to_cases:
  assumes "upload_to st cwd temp requested source fs = (r, fs')"
  shows "case r of
      Inr p \<Rightarrow> resolve_workspace_path fs cwd (workspace st) requested = Inr p
        \<and> upload_post fs p (upload_bytes source) fs'
        \<and> int (length (upload_bytes source)) \<le> max 0 (maximum_upload_bytes st)
    | Inl e \<Rightarrow> (case resolve_workspace_path fs cwd (workspace st) requested of
          Inl e' \<Rightarrow> e = e' \<and> fs' = fs
        | Inr p \<Rightarrow> only_new_dirs fs p fs')"
  using assms write_upload_wp [of "\<lparr>files = fs, temporary_name = None\<rparr>" fs st cwd temp requested source]
  by (auto simp: upload_to_def wp_def split: prod.splits sum.splits)

interpretation files: workspace_resolver
  "\<lambda>fs. realpath fs cwd (workspace st)"
  "\<lambda>requested fs. resolve_workspace_path fs cwd (workspace st) requested"
  for cwd :: path and st :: settings
  by unfold_locales
     (auto dest: resolve_workspace_path_cases(5) resolve_workspace_path_errors)

interpretation uploads: workspace_writer
  "\<lambda>fs. realpath fs cwd (workspace st)"
  "\<lambda>requested fs. resolve_workspace_path fs cwd (workspace st) requested"
  "\<lambda>requested. upload_to st cwd temp requested source"
  for cwd :: path and st :: settings and temp :: string and source :: "read_event list"
proof unfold_locales
  fix r fs res fs' q
  assume "upload_to st cwd temp r source fs = (res, fs')" and diff: "node_at fs' q \<noteq> node_at fs q"
  note c = upload_to_cases [OF this(1)]
  show "\<exists>p. resolve_workspace_path fs cwd (workspace st) r = Inr p
      \<and> (q = p \<or> strict_prefix q p \<and> node_at fs q = None \<and> node_at fs' q = Some Dir)"
    using c diff by (auto simp: upload_post_def only_new_dirs_def split: sum.splits)
qed


section \<open>Uploads that go through\<close>

lemma walk_dirs_node: "walk_dirs fs [] d = Inr u \<Longrightarrow> node_at fs d = Some Dir"
  using walk_dirs_is_dir by (auto simp: is_dir_def)

lemma mkdir_parents_existing:
  assumes "walk_dirs fs [] d = Inr ()"
  shows "mkdir_parents d fs = (Inr (), fs)"
proof -
  have "walk_dirs fs [] (butlast d) = Inr ()"
    using assms walk_dirs_Inr_iff by (meson prefix_order.trans prefixeq_butlast)
  moreover have "node_at fs d = Some Dir" by (rule walk_dirs_node [OF assms])
  ultimately have "os_mkdir d fs = (Inl (FileExistsError ''File exists''), fs)"
    by (simp add: os_mkdir_def seq_def liftE_run raising_run)
  then show ?thesis
    using \<open>node_at fs d = Some Dir\<close>
    by (subst mkdir_parents.simps)
       (simp add: try_except_def seq_def is_oserror_def is_dir_def ret_run)
qed

lemma upload_loop_fits:
  assumes "node_at (files s) t = Some (File b)" and "t \<noteq> []" and "\<forall>c \<in> set cs. c \<noteq> []"
    and "cs = [] \<or> int (length b + length (concat cs)) \<le> maximum_upload_bytes st"
  shows "\<exists>s'. upload_loop st t (length b) (map Chunk cs) s = (Inr (), s')"
  using assms
proof (induction cs arbitrary: s b)
  case Nil
  then show ?case by (simp add: ret_run)
next
  case (Cons c cs)
  let ?s = "s\<lparr>files := put_node t (File (b @ c)) (files s)\<rparr>"
  have "\<exists>s'. upload_loop st t (length (b @ c)) (map Chunk cs) ?s = (Inr (), s')"
    using Cons.prems by (intro Cons.IH) (auto simp: node_at_put)
  then show ?case
    using Cons.prems
    by (auto simp: Let_def seq_def on_files_def append_file_def)
qed

lemma upload_loop_overflows:
  assumes "node_at (files s) t = Some (File b)" and "t \<noteq> []" and "\<forall>c \<in> set cs. c \<noteq> []"
    and "cs \<noteq> []" and "int (length b + length (concat cs)) > maximum_upload_bytes st"
  shows "\<exists>s'. upload_loop st t (length b) (map Chunk cs) s = (Inl (upload_too_large st), s')"
  using assms
proof (induction cs arbitrary: s b)
  case (Cons c cs)
  let ?s = "s\<lparr>files := put_node t (File (b @ c)) (files s)\<rparr>"
  show ?case
  proof (cases "int (length b + length c) > maximum_upload_bytes st")
    case True
    with Cons.prems show ?thesis by (simp add: Let_def raising_run)
  next
    case False
    with Cons.prems have "cs \<noteq> []" by auto
    with Cons.prems have "\<exists>s'. upload_loop st t (length (b @ c)) (map Chunk cs) ?s
        = (Inl (upload_too_large st), s')"
      by (intro Cons.IH) (auto simp: node_at_put)
    with False Cons.prems show ?thesis
      by (auto simp: Let_def seq_def on_files_def append_file_def)
  qed
qed simp

lemma upload_bytes_chunks: "\<forall>c \<in> set cs. c \<noteq> [] \<Longrightarrow> upload_bytes (map Chunk cs) = concat cs"
  by (induction cs) auto

lemma upload_body_result:
  assumes "walk_dirs (files s) [] (butlast p) = Inr ()" and "p \<noteq> []"
    and "node_at (files s) p \<noteq> Some Dir" and "node_at (files s) (butlast p @ [temp]) = None"
    and "\<forall>c \<in> set cs. c \<noteq> []"
  shows "fst (upload_body st temp p (map Chunk cs) s)
    = (if cs = [] \<or> int (length (concat cs)) \<le> maximum_upload_bytes st then Inr p
       else Inl (upload_too_large st))"
proof -
  let ?t = "butlast p @ [temp]"
  let ?s = "s\<lparr>files := put_node ?t (File []) (files s), temporary_name := Some ?t\<rparr>"
  have node: "node_at (files ?s) ?t = Some (File [])" by (simp add: node_at_put)
  have start: "upload_body st temp p (map Chunk cs) s
      = seq (upload_loop st ?t 0 (map Chunk cs)) (\<lambda>_. seq (on_files (os_replace ?t p)) (\<lambda>_.
          seq (modify (\<lambda>s. s\<lparr>temporary_name := None\<rparr>)) (\<lambda>_. ret p))) ?s"
    using assms(1,4) by (simp add: upload_body_def create_temporary_def seq_def on_files_def
        liftE_run ret_run)
  show ?thesis
  proof (cases "cs = [] \<or> int (length (concat cs)) \<le> maximum_upload_bytes st")
    case True
    with upload_loop_fits [OF node _ assms(5)] obtain u
      where u: "upload_loop st ?t 0 (map Chunk cs) ?s = (Inr (), u)" by auto
    have wp: "sets_file (files ?s) ?t (upload_bytes (map Chunk cs)) (files u)"
      using wp_Inr [OF upload_loop_wp [OF node, of 0 st "map Chunk cs"] u] by simp
    have tdir: "?t \<noteq> butlast p" by (metis append_self_conv not_Cons_self2)
    have nodes: "node_at (files u) q = (if q = ?t then Some (File (concat cs)) else node_at (files s) q)" for q
      using wp assms(5) by (simp add: sets_file_def node_at_put upload_bytes_chunks)
    have "walk_dirs (files u) [] (butlast p) = Inr ()"
      using assms(1) by (auto simp: walk_dirs_Inr_iff is_dir_def nodes prefix_def)
    moreover have "node_at (files u) p \<noteq> Some Dir" using assms(3) by (auto simp: nodes)
    ultimately show ?thesis
      using True start u
      by (auto simp: seq_def on_files_def os_replace_def liftE_run ret_run nodes)
  next
    case False
    with upload_loop_overflows [OF node _ assms(5), of st] obtain u
      where "upload_loop st ?t 0 (map Chunk cs) ?s = (Inl (upload_too_large st), u)" by auto
    with False start show ?thesis by (simp add: seq_def)
  qed
qed

lemma upload_cleanup_result: "fst (upload_cleanup s) = Inr ()"
  by (simp add: upload_cleanup_def seq_def on_files_def unlink_missing_ok_def ret_run split: option.splits)

lemma try_finally_cleanup_result: "fst (try_finally m upload_cleanup s) = fst (m s)"
  using upload_cleanup_result [of "snd (m s)"]
  by (cases "m s"; cases "upload_cleanup (snd (m s))") (auto simp: try_finally_def)


section \<open>The tree invariant\<close>

lemma upload_loop_tree_ok: "keeps (\<lambda>s. tree_ok (files s)) (upload_loop st t n source)"
  by (induction st t n source rule: upload_loop.induct)
     (auto intro!: keeps_intros keeps_on_files append_file_tree_ok simp: Let_def)

lemma unlink_file_tree_ok:
  "tree_ok (files s) \<Longrightarrow> (\<And>t. temporary_name s = Some t \<Longrightarrow> \<not> is_dir (files s) t) \<Longrightarrow>
     wp upload_cleanup (\<lambda>_ s'. tree_ok (files s')) (\<lambda>_ s'. tree_ok (files s')) s"
  by (auto simp: upload_cleanup_def wp_simps wp_on_files unlink_missing_ok_def
      split: option.splits intro!: tree_ok_remove)

definition temp_safe :: "upload \<Rightarrow> bool" where
  "temp_safe s \<longleftrightarrow> tree_ok (files s) \<and> (\<forall>t. temporary_name s = Some t \<longrightarrow> \<not> is_dir (files s) t)"

lemma upload_body_temp_safe:
  assumes "tree_ok (files s)" and "temporary_name s = None"
  shows "wp (upload_body st temp p source) (\<lambda>_. temp_safe) (\<lambda>_. temp_safe) s"
proof -
  let ?t = "butlast p @ [temp]"
  let ?s = "s\<lparr>files := put_node ?t (File []) (files s), temporary_name := Some ?t\<rparr>"
  have node: "node_at (files ?s) ?t = Some (File [])" by (simp add: node_at_put)
  note loop = upload_loop_wp [OF node, of 0 st source, simplified]
  have after: "wp (seq (upload_loop st ?t 0 source) (\<lambda>_. seq (on_files (os_replace ?t p)) (\<lambda>_.
          seq (modify (\<lambda>s. s\<lparr>temporary_name := None\<rparr>)) (\<lambda>_. ret p))))
      (\<lambda>_. temp_safe) (\<lambda>_. temp_safe) ?s" if tree: "tree_ok (files ?s)"
    unfolding wp_seq
  proof (rule wp_mono [OF wp_conj [OF loop keepsD [OF upload_loop_tree_ok [of st ?t 0 source] tree]]], goal_cases)
    case (1 a u)
    then have content: "\<exists>b. node_at (files u) ?t = Some (File b)" and tree_u: "tree_ok (files u)"
      by (auto simp: sets_file_def)
    then have nd: "\<not> is_dir (files u) ?t" by (auto simp: is_dir_def)
    have "wp (os_replace ?t p) (\<lambda>_. tree_ok) (\<lambda>_ f. tree_ok f \<and> f = files u) (files u)"
    proof -
      have "wp (os_replace ?t p) (\<lambda>_ _. True) (\<lambda>_ f. f = files u) (files u)"
        by (auto simp: os_replace_def wp_simps split: sum.splits option.splits)
      from wp_conj [OF os_replace_tree_ok [OF nd tree_u] this] show ?thesis
        by (rule wp_mono) auto
    qed
    then show ?case
      unfolding wp_on_files
      by (rule wp_mono) (use 1 nd in \<open>auto simp: wp_simps temp_safe_def\<close>)
  next
    case (2 e u)
    then show ?case by (auto simp: temp_safe_def sets_file_def is_dir_def)
  qed
  have "tree_ok (files ?s)" if "walk_dirs (files s) [] (butlast p) = Inr ()" "node_at (files s) ?t = None"
    using that assms(1) walk_dirs_is_dir [OF that(1)]
    by (auto intro!: tree_ok_put simp: is_dir_def)
  with after show ?thesis
    using assms
    by (auto simp: upload_body_def create_temporary_def wp_simps wp_on_files temp_safe_def split: sum.splits)
qed

lemma upload_to_tree_ok:
  assumes "tree_ok fs"
  shows "tree_ok (snd (upload_to st cwd temp requested source fs))"
proof -
  let ?s = "\<lparr>files = fs, temporary_name = None\<rparr>"
  have "wp (write_upload st cwd temp requested source) (\<lambda>_ s'. tree_ok (files s'))
      (\<lambda>_ s'. tree_ok (files s')) ?s"
  proof (cases "resolve_workspace_path fs cwd (workspace st) requested")
    case (Inl e)
    with assms show ?thesis by (simp add: write_upload_def wp_simps)
  next
    case (Inr p)
    show ?thesis
      unfolding write_upload_def wp_seq wp_gets wp_liftE wp_on_files using Inr
    proof (simp, intro wp_mono [OF keepsD [OF mkdir_parents_tree_ok assms]], goal_cases)
      case (1 a f)
      show ?case unfolding wp_try_finally
        by (rule wp_mono [OF upload_body_temp_safe])
           (use 1 in \<open>auto simp: temp_safe_def intro!: unlink_file_tree_ok\<close>)
    qed simp
  qed
  then show ?thesis by (auto simp: upload_to_def wp_def split: prod.splits sum.splits)
qed


section \<open>Listings\<close>

lemma list_directory_names:
  assumes "list_directory st env fs cwd requested = Inr es"
    and "resolve_workspace_path fs cwd (workspace st) requested = Inr d"
  shows "es = map (dir_entry_of env fs d) (sort (child_names fs d))" and "is_dir fs d"
  using assms by (auto simp: list_directory_def split: if_splits)


section \<open>Properties\<close>

text \<open>C5: an upload is atomic: when it succeeds, its destination holds exactly the bytes of the
  stream, no more than the limit, and when it fails the destination and everything else is as before;
  in both cases the only other change is directories created on the way to the destination, so no
  temporary file is left behind.\<close>

theorem write_upload_atomic:
  assumes "upload_to st cwd temp requested source fs = (r, fs')"
  shows "case r of
      Inr p \<Rightarrow> resolve_workspace_path fs cwd (workspace st) requested = Inr p
        \<and> node_at fs' p = Some (File (upload_bytes source))
        \<and> int (length (upload_bytes source)) \<le> max 0 (maximum_upload_bytes st)
        \<and> (\<forall>q. q \<noteq> p \<longrightarrow> node_at fs' q = node_at fs q
             \<or> (node_at fs q = None \<and> node_at fs' q = Some Dir \<and> strict_prefix q p))
    | Inl e \<Rightarrow> \<forall>q. node_at fs' q = node_at fs q
             \<or> (node_at fs q = None \<and> node_at fs' q = Some Dir
                \<and> (\<exists>p. resolve_workspace_path fs cwd (workspace st) requested = Inr p \<and> strict_prefix q p))"
  using upload_to_cases [OF assms]
  by (auto simp: upload_post_def only_new_dirs_def split: sum.splits)

theorem write_upload_atomic_witness:
  "fst (upload_to demo_settings [] ''tmp1'' ''d/f'' [Chunk (encode ''abc''), Chunk (encode ''defg'')] demo_fs)
     = Inl (upload_too_large demo_settings)
   \<and> node_at (snd (upload_to demo_settings [] ''tmp1'' ''d/f''
        [Chunk (encode ''abc''), Chunk (encode ''defg'')] demo_fs)) [''w'', ''real'', ''tmp1''] = None"
proof -
  let ?src = "[Chunk (encode ''abc''), Chunk (encode ''defg'')]"
  let ?u = "upload_to demo_settings [] ''tmp1'' ''d/f'' ?src demo_fs"
  have err: "fst ?u = Inl (upload_too_large demo_settings)" by code_simp
  have res: "resolve_workspace_path demo_fs [] (workspace demo_settings) ''d/f'' = Inr [''w'', ''real'', ''f'']"
    by code_simp
  have "node_at demo_fs [''w'', ''real'', ''tmp1''] = None" by code_simp
  moreover have "?u = (Inl (upload_too_large demo_settings), snd ?u)" using err by (metis prod.collapse)
  from write_upload_atomic [OF this]
  have "node_at (snd ?u) [''w'', ''real'', ''tmp1''] = node_at demo_fs [''w'', ''real'', ''tmp1'']"
    by (auto simp: res strict_prefix_def)
  ultimately show ?thesis using err by simp
qed

text \<open>an upload never changes anything outside the resolved workspace (the directories above it
  aside, which are only ever created), whatever the requested name, the stream and the outcome.\<close>

theorem write_upload_confined:
  assumes "upload_to st cwd temp requested source fs = (r, fs')"
    and "\<not> prefix (realpath fs cwd (workspace st)) q" and "\<not> prefix q (realpath fs cwd (workspace st))"
  shows "node_at fs' q = node_at fs q"
  using assms by (rule uploads.outside_unchanged)

theorem write_upload_confined_witness:
  "node_at (snd (upload_to demo_settings [] ''tmp1'' ''d/f'' [Chunk (encode ''abc'')] demo_fs)) [''etc'', ''f''] = None"
proof -
  let ?u = "upload_to demo_settings [] ''tmp1'' ''d/f'' [Chunk (encode ''abc'')] demo_fs"
  have base: "realpath demo_fs [] (workspace demo_settings) = [''w'']" by code_simp
  have "?u = (fst ?u, snd ?u)" by simp
  then have "node_at (snd ?u) [''etc'', ''f''] = node_at demo_fs [''etc'', ''f'']"
    by (rule write_upload_confined) (simp_all add: base)
  then show ?thesis by (simp add: node_at_def demo_fs_def)
qed

text \<open>an upload to a name in an existing directory succeeds exactly when it fits: the limit
  applies to the total over all chunks, and an upload over it is refused as too large.\<close>

theorem write_upload_limit:
  assumes "resolve_workspace_path fs cwd (workspace st) requested = Inr p"
    and "walk_dirs fs [] (butlast p) = Inr ()" and "node_at fs p \<noteq> Some Dir"
    and "node_at fs (butlast p @ [temp]) = None" and "\<forall>c \<in> set cs. c \<noteq> []"
  shows "fst (upload_to st cwd temp requested (map Chunk cs) fs)
    = (if cs = [] \<or> int (length (concat cs)) \<le> maximum_upload_bytes st then Inr p
       else Inl (upload_too_large st))"
proof -
  have p: "p \<noteq> []" using resolve_workspace_path_cases(5) [OF assms(1)] by auto
  let ?s = "\<lparr>files = fs, temporary_name = None\<rparr>"
  have "fst (write_upload st cwd temp requested (map Chunk cs) ?s)
      = fst (try_finally (upload_body st temp p (map Chunk cs)) upload_cleanup ?s)"
    using assms(1,2) by (simp add: write_upload_def seq_def liftE_run on_files_def mkdir_parents_existing)
  also have "\<dots> = fst (upload_body st temp p (map Chunk cs) ?s)"
    by (rule try_finally_cleanup_result)
  finally show ?thesis
    using upload_body_result [of ?s p temp cs st] assms(2-5) p
    by (simp add: upload_to_def split_beta)
qed

theorem write_upload_limit_witness:
  "fst (upload_to demo_settings [] ''tmp1'' ''d/f'' (map Chunk [encode ''ab'', encode ''cde'']) demo_fs)
     = Inr [''w'', ''real'', ''f'']"
proof -
  have res: "resolve_workspace_path demo_fs [] (workspace demo_settings) ''d/f'' = Inr [''w'', ''real'', ''f'']"
    by code_simp
  have walk: "walk_dirs demo_fs [] (butlast [''w'', ''real'', ''f'']) = Inr ()" by code_simp
  show ?thesis
    by (subst write_upload_limit [OF res walk]) (simp_all add: node_at_def demo_fs_def demo_settings_def)
qed

text \<open>an upload keeps the file system a tree: everything in it still hangs below directories.\<close>

theorem write_upload_tree_ok:
  assumes "tree_ok fs"
  shows "tree_ok (snd (upload_to st cwd temp requested source fs))"
  using assms by (rule upload_to_tree_ok)

theorem write_upload_tree_ok_witness:
  "tree_ok (snd (upload_to demo_settings [] ''tmp1'' ''a/b/f'' [Chunk (encode ''abc'')] []))"
  by (rule write_upload_tree_ok) (simp add: tree_ok_def node_at_def)

text \<open>a listing names every child of the directory once, in the order of the names, and says
  of each whether it is a link, a directory or a file, with the file's length.\<close>

theorem list_directory_complete:
  assumes "list_directory st env fs cwd requested = Inr es"
    and "resolve_workspace_path fs cwd (workspace st) requested = Inr d"
  shows "sorted (map entry_name es) \<and> distinct (map entry_name es)
    \<and> (\<forall>c. c \<in> set (map entry_name es) \<longleftrightarrow> node_at fs (d @ [c]) \<noteq> None)
    \<and> (\<forall>e \<in> set es. \<exists>n. node_at fs (d @ [entry_name e]) = Some n \<and> entry_kind e = entry_type n
         \<and> (\<forall>b. n = File b \<longrightarrow> entry_size e = length b))"
proof -
  note es = list_directory_names(1) [OF assms]
  have names: "map entry_name es = sort (child_names fs d)"
    by (simp add: es dir_entry_of_def Let_def comp_def)
  have "distinct (child_names fs d)" by (simp add: child_names_def)
  then show ?thesis
    unfolding names
    by (auto simp: es child_names_iff dir_entry_of_def Let_def st_size_def)
qed

definition demo_stat :: "nat stat_env" where
  "demo_stat = \<lparr>dir_size = (\<lambda>_. 4096), st_mtime = (\<lambda>_. 0)\<rparr>"

definition demo_tree :: fs where
  "demo_tree = [([''w''], Dir), ([''w'', ''d''], Dir), ([''w'', ''d'', ''z''], File (encode ''hello'')),
     ([''w'', ''d'', ''a''], Link ''../x''), ([''w'', ''d'', ''k''], Dir)]"

theorem list_directory_complete_witness:
  "\<exists>es. list_directory demo_settings demo_stat demo_tree [] ''d'' = Inr es
     \<and> map entry_name es = [''a'', ''k'', ''z''] \<and> sorted (map entry_name es)"
proof -
  have res: "resolve_workspace_path demo_tree [] (workspace demo_settings) ''d'' = Inr [''w'', ''d'']"
    by code_simp
  have "(case list_directory demo_settings demo_stat demo_tree [] ''d'' of
      Inr es \<Rightarrow> map entry_name es = [''a'', ''k'', ''z''] | Inl _ \<Rightarrow> False)"
    by code_simp
  then show ?thesis using list_directory_complete [OF _ res] by (auto split: sum.splits)
qed

text \<open>a file that was uploaded appears in the listing of its directory, as a file of its length.\<close>

theorem upload_then_list:
  assumes "upload_to st cwd temp requested source fs = (Inr p, fs')"
    and "resolve_workspace_path fs' cwd (workspace st) dir_request = Inr (butlast p)"
    and "tree_ok fs"
  shows "\<exists>es e. list_directory st env fs' cwd dir_request = Inr es \<and> e \<in> set es
    \<and> entry_name e = last p \<and> entry_kind e = ''file'' \<and> entry_size e = length (upload_bytes source)"
proof -
  from upload_to_cases [OF assms(1)] have post: "upload_post fs p (upload_bytes source) fs'" 
    and res: "resolve_workspace_path fs cwd (workspace st) requested = Inr p" by auto
  have "p \<noteq> []" using resolve_workspace_path_cases(5) [OF res] by auto
  then have p: "p = butlast p @ [last p]" by simp
  have tree: "tree_ok fs'" using upload_to_tree_ok [OF assms(3)] assms(1) by (metis snd_conv)
  have node: "node_at fs' (butlast p @ [last p]) = Some (File (upload_bytes source))"
    using post p by (simp add: upload_post_def)
  then have dir: "is_dir fs' (butlast p)"
    using tree_okD [OF tree, of "butlast p" "last p"] by (simp add: is_dir_def)
  have mem: "last p \<in> set (child_names fs' (butlast p))" by (simp add: child_names_iff node)
  show ?thesis
    using dir mem assms(2)
    by (auto simp: list_directory_def dir_entry_of_def Let_def node st_size_def entry_type_def
        intro!: exI [of _ "map (dir_entry_of env fs' (butlast p)) (sort (child_names fs' (butlast p)))"]
          bexI [of _ "last p"] imageI)
qed


theorem upload_then_list_witness:
  "\<exists>es e. list_directory demo_settings demo_stat
       (snd (upload_to demo_settings [] ''tmp1'' ''d/new'' [Chunk (encode ''hey'')] demo_tree)) [] ''d'' = Inr es
     \<and> e \<in> set es \<and> entry_name e = ''new'' \<and> entry_kind e = ''file'' \<and> entry_size e = 3"
proof -
  let ?u = "upload_to demo_settings [] ''tmp1'' ''d/new'' [Chunk (encode ''hey'')] demo_tree"
  have ok: "?u = (Inr [''w'', ''d'', ''new''], snd ?u)" by code_simp
  have res: "resolve_workspace_path (snd ?u) [] (workspace demo_settings) ''d''
      = Inr (butlast [''w'', ''d'', ''new''])" by code_simp
  have tree: "tree_ok demo_tree"
    by (auto simp: tree_ok_def node_at_def demo_tree_def is_dir_def split: if_splits)
  show ?thesis using upload_then_list [OF ok res tree, of demo_stat] by (simp add: numeral_3_eq_3)
qed

end
