(* ===== verification/Runtime_Stream.thy ===== *)
theory Runtime_Stream
  imports Runtime_Core
begin

text \<open>
  \<open>core.py\<close>, \<open>stream_command\<close>: an asynchronous generator that three tasks share. Two reader tasks
  put the chunks of their pipe on a queue and then \<open>None\<close>; the generator takes them off, yields
  events and watches the deadline; whoever consumes the generator may resume it, close it or cancel
  it. The model is a step relation in which every task moves on its own, the clock and the process
  too, so a property of the reachable states holds for every interleaving.
\<close>

section \<open>Events\<close>

datatype stream_name = Stdout | Stderr

datatype command_event =
    EvError string
  | EvStart int
  | EvOutput stream_name bytes
  | EvTimeout string
  | EvExit int

text \<open>The text of an output event: \<open>chunk.decode("utf-8", errors="replace")\<close>, chunk by chunk.\<close>

definition chunk_text :: "bytes \<Rightarrow> string" where
  "chunk_text chunk = decode_replace chunk"

definition stream_keep :: "int \<Rightarrow> nat \<Rightarrow> bytes \<Rightarrow> bytes" where
  "stream_keep maximum sent chunk =
     (let allowed = maximum - int sent in if allowed \<le> 0 then [] else take (nat allowed) chunk)"


section \<open>The generator and its readers\<close>

text \<open>Where the generator is in its code; it is suspended after each \<open>yield\<close>. It awaits the queue at
  \<open>AtGet\<close>, the process at \<open>AtWaiting\<close> (with the rest of the time), at \<open>KilledWait\<close> (after the kill) and at
  \<open>FinalWait\<close> (in the \<open>finally\<close> block), and the readers at \<open>FinalGather\<close>: there it can be cancelled.\<close>

datatype pc =
    AtStart | AtLoop | AtGet | AtKill | KilledWait | AtWait | AtWaiting | AtExit
  | AtFinally | FinalWait | FinalGather | Finished

record stream_config =
  limit :: int
  deadline :: nat
  process_id :: int
  timeout :: int

text \<open>\<open>pending\<close> is what a pipe will still deliver before its end of file, \<open>code\<close> the return code once the
  process was reaped, and \<open>group_killed\<close> whether its group was sent \<open>SIGKILL\<close>. \<open>consumed\<close> and \<open>cut\<close> are
  not in the code, and no step reads them: the chunks the generator has taken off the queue, and whether a
  cancellation came while the \<open>finally\<close> block waited for the process.\<close>

record stream_state =
  pending :: "stream_name \<Rightarrow> bytes list"
  reading :: "stream_name \<Rightarrow> bool"
  queue :: "(stream_name \<times> bytes) option list"
  now :: nat
  emitted :: "stream_name \<Rightarrow> nat"
  completed_readers :: nat
  timed_out :: bool
  code :: "int option"
  group_killed :: bool
  events :: "command_event list"
  suspended :: bool
  pc :: pc
  consumed :: "stream_name \<Rightarrow> bytes list"
  cut :: bool

definition yield :: "command_event \<Rightarrow> pc \<Rightarrow> stream_state \<Rightarrow> stream_state" where
  "yield e p s = s\<lparr>events := events s @ [e], suspended := True, pc := p\<rparr>"

text \<open>\<open>_kill_process_group\<close>; a group that is gone is not an error.\<close>

definition kill_group :: "stream_state \<Rightarrow> stream_state" where
  "kill_group s = s\<lparr>group_killed := True\<rparr>"

text \<open>An item from the queue: within the budget it is cut and yielded, beyond it dropped.\<close>

definition take_item :: "stream_config \<Rightarrow> stream_name \<Rightarrow> bytes \<Rightarrow> stream_state \<Rightarrow> stream_state" where
  "take_item cfg n chunk s =
     (let s' = s\<lparr>consumed := (consumed s)(n := consumed s n @ [chunk])\<rparr> in
      if limit cfg - int (emitted s n) \<le> 0 then s'\<lparr>pc := AtLoop\<rparr>
      else let kept = stream_keep (limit cfg) (emitted s n) chunk
           in yield (EvOutput n kept) AtLoop
                (s'\<lparr>emitted := (emitted s)(n := emitted s n + length kept)\<rparr>))"

text \<open>The \<open>finally\<close> block: kill a process that still runs and wait for it, then cancel the readers and wait
  for them. A cancelled reader does nothing more.\<close>

definition stop_readers :: "stream_state \<Rightarrow> stream_state" where
  "stop_readers s = s\<lparr>reading := (\<lambda>_. False), pc := FinalGather\<rparr>"

definition begin_cleanup :: "stream_state \<Rightarrow> stream_state" where
  "begin_cleanup s = (if code s = None then (kill_group s)\<lparr>pc := FinalWait\<rparr> else stop_readers s)"

definition exit_code_of :: "stream_state \<Rightarrow> int" where
  "exit_code_of s = (if timed_out s then 124 else case code s of None \<Rightarrow> 0 | Some c \<Rightarrow> c)"

inductive stream_step :: "stream_config \<Rightarrow> stream_state \<Rightarrow> stream_state \<Rightarrow> bool" for cfg where
  reader_chunk: "reading s n \<Longrightarrow> pending s n = c # cs \<Longrightarrow> c \<noteq> [] \<Longrightarrow>
     stream_step cfg s (s\<lparr>pending := (pending s)(n := cs), queue := queue s @ [Some (n, c)]\<rparr>)"
| reader_eof: "reading s n \<Longrightarrow> pending s n = [] \<Longrightarrow>
     stream_step cfg s (s\<lparr>reading := (reading s)(n := False), queue := queue s @ [None]\<rparr>)"
| clock: "stream_step cfg s (s\<lparr>now := now s + d\<rparr>)"
| process_exits: "code s = None \<Longrightarrow> stream_step cfg s (s\<lparr>code := Some c\<rparr>)"
| killed_dies: "code s = None \<Longrightarrow> group_killed s \<Longrightarrow> stream_step cfg s (s\<lparr>code := Some (-9)\<rparr>)"
| resume: "suspended s \<Longrightarrow> stream_step cfg s (s\<lparr>suspended := False\<rparr>)"
| close: "suspended s \<Longrightarrow> stream_step cfg s (s\<lparr>suspended := False, pc := AtFinally\<rparr>)"
| cancel: "pc s \<in> {AtGet, KilledWait, AtWaiting} \<Longrightarrow> \<not> suspended s \<Longrightarrow>
     stream_step cfg s (s\<lparr>pc := AtFinally\<rparr>)"
| cancel_wait: "pc s = FinalWait \<Longrightarrow> \<not> suspended s \<Longrightarrow>
     stream_step cfg s (s\<lparr>pc := Finished, cut := True\<rparr>)"
| cancel_gather: "pc s = FinalGather \<Longrightarrow> \<not> suspended s \<Longrightarrow> stream_step cfg s (s\<lparr>pc := Finished\<rparr>)"
| start: "pc s = AtStart \<Longrightarrow> \<not> suspended s \<Longrightarrow>
     stream_step cfg s (yield (EvStart (process_id cfg)) AtLoop s)"
| loop_done: "pc s = AtLoop \<Longrightarrow> \<not> suspended s \<Longrightarrow> 2 \<le> completed_readers s \<Longrightarrow>
     stream_step cfg s (s\<lparr>pc := AtWait\<rparr>)"
| loop_deadline: "pc s = AtLoop \<Longrightarrow> \<not> suspended s \<Longrightarrow> completed_readers s < 2 \<Longrightarrow>
     deadline cfg \<le> now s \<Longrightarrow> stream_step cfg s (s\<lparr>timed_out := True, pc := AtKill\<rparr>)"
| loop_get: "pc s = AtLoop \<Longrightarrow> \<not> suspended s \<Longrightarrow> completed_readers s < 2 \<Longrightarrow>
     now s < deadline cfg \<Longrightarrow> stream_step cfg s (s\<lparr>pc := AtGet\<rparr>)"
| get_end: "pc s = AtGet \<Longrightarrow> \<not> suspended s \<Longrightarrow> queue s = None # q \<Longrightarrow>
     stream_step cfg s (s\<lparr>queue := q, completed_readers := Suc (completed_readers s), pc := AtLoop\<rparr>)"
| get_item: "pc s = AtGet \<Longrightarrow> \<not> suspended s \<Longrightarrow> queue s = Some (n, c) # q \<Longrightarrow>
     stream_step cfg s (take_item cfg n c (s\<lparr>queue := q\<rparr>))"
| get_timeout: "pc s = AtGet \<Longrightarrow> \<not> suspended s \<Longrightarrow> deadline cfg \<le> now s \<Longrightarrow>
     stream_step cfg s (s\<lparr>timed_out := True, pc := AtKill\<rparr>)"
| kill: "pc s = AtKill \<Longrightarrow> \<not> suspended s \<Longrightarrow>
     stream_step cfg s ((kill_group s)\<lparr>pc := KilledWait\<rparr>)"
| kill_reaped: "pc s = KilledWait \<Longrightarrow> \<not> suspended s \<Longrightarrow> code s \<noteq> None \<Longrightarrow>
     stream_step cfg s (yield (EvTimeout (timeout_message (timeout cfg))) AtExit s)"
| wait_begin: "pc s = AtWait \<Longrightarrow> \<not> suspended s \<Longrightarrow> now s < deadline cfg \<Longrightarrow>
     stream_step cfg s (s\<lparr>pc := AtWaiting\<rparr>)"
| wait_exit: "pc s = AtWaiting \<Longrightarrow> \<not> suspended s \<Longrightarrow> code s \<noteq> None \<Longrightarrow>
     stream_step cfg s (s\<lparr>pc := AtExit\<rparr>)"
| wait_timeout: "pc s \<in> {AtWait, AtWaiting} \<Longrightarrow> \<not> suspended s \<Longrightarrow> deadline cfg \<le> now s \<Longrightarrow>
     stream_step cfg s (s\<lparr>timed_out := True, pc := AtKill\<rparr>)"
| exit_event: "pc s = AtExit \<Longrightarrow> \<not> suspended s \<Longrightarrow>
     stream_step cfg s (yield (EvExit (exit_code_of s)) AtFinally s)"
| run_finally: "pc s = AtFinally \<Longrightarrow> \<not> suspended s \<Longrightarrow> stream_step cfg s (begin_cleanup s)"
| final_reaped: "pc s = FinalWait \<Longrightarrow> \<not> suspended s \<Longrightarrow> code s \<noteq> None \<Longrightarrow>
     stream_step cfg s (stop_readers s)"
| gathered: "pc s = FinalGather \<Longrightarrow> \<not> suspended s \<Longrightarrow> stream_step cfg s (s\<lparr>pc := Finished\<rparr>)"

definition stream_init :: "(stream_name \<Rightarrow> bytes list) \<Rightarrow> nat \<Rightarrow> stream_state" where
  "stream_init out t =
     \<lparr>pending = out, reading = (\<lambda>_. True), queue = [], now = t, emitted = (\<lambda>_. 0),
      completed_readers = 0, timed_out = False, code = None, group_killed = False, events = [],
      suspended = False, pc = AtStart, consumed = (\<lambda>_. []), cut = False\<rparr>"

inductive stream_reachable ::
  "stream_config \<Rightarrow> (stream_name \<Rightarrow> bytes list) \<Rightarrow> stream_state \<Rightarrow> bool" for cfg out where
  initial: "stream_reachable cfg out (stream_init out t)"
| step: "stream_reachable cfg out s \<Longrightarrow> stream_step cfg s s' \<Longrightarrow> stream_reachable cfg out s'"

lemma stream_invariant:
  assumes "stream_reachable cfg out s" and "\<And>t. I (stream_init out t)"
    and "\<And>s s'. stream_reachable cfg out s \<Longrightarrow> I s \<Longrightarrow> stream_step cfg s s' \<Longrightarrow> I s'"
  shows "I s"
  using assms(1) by (induction rule: stream_reachable.induct) (use assms(2,3) in blast)+

text \<open>The part before the first task starts: parsing, the workspace and the spawn.\<close>

datatype stream_begin =
    Immediately "command_event list"
  | Running stream_config stream_state

definition pipe_output :: "process \<Rightarrow> stream_name \<Rightarrow> bytes list" where
  "pipe_output p n =
     takeWhile (\<lambda>c. c \<noteq> []) (chunks (case n of Stdout \<Rightarrow> stdout p | Stderr \<Rightarrow> stderr p))"

definition stream_command ::
  "settings \<Rightarrow> unit result \<Rightarrow> spawner \<Rightarrow> nat \<Rightarrow> string \<Rightarrow> int \<Rightarrow> stream_begin result" where
  "stream_command st mkdir spawn t command timeout_seconds =
     bindE (parse_command st command timeout_seconds) (\<lambda>arguments.
     bindE mkdir (\<lambda>_.
     bindE (create_subprocess_exec spawn arguments) (\<lambda>process.
       case process of
         SpawnOSError m \<Rightarrow> Inr (Immediately [EvError (spawn_failure m)])
       | Spawned run \<Rightarrow>
           Inr (Running
             \<lparr>limit = maximum_output_bytes st, deadline = t + nat (1000 * timeout_seconds),
              process_id = pid (run None), timeout = timeout_seconds\<rparr>
             (stream_init (pipe_output (run None)) t)))))"


section \<open>The budget\<close>

interpretation stream: output_budget maximum "stream_keep maximum" for maximum
  by unfold_locales (auto simp: stream_keep_def Let_def take_is_prefix split: if_splits)

fun outputs :: "stream_name \<Rightarrow> command_event list \<Rightarrow> bytes list" where
  "outputs n [] = []"
| "outputs n (EvOutput m c # es) = (if m = n then c # outputs n es else outputs n es)"
| "outputs n (_ # es) = outputs n es"

lemma outputs_append [simp]: "outputs n (xs @ ys) = outputs n xs @ outputs n ys"
  by (induction n xs rule: outputs.induct) simp_all

definition budget_inv :: "stream_config \<Rightarrow> stream_state \<Rightarrow> bool" where
  "budget_inv cfg s \<longleftrightarrow>
     (\<forall>n. concat (outputs n (events s)) = drain (stream_keep (limit cfg)) [] (consumed s n)
        \<and> emitted s n = length (concat (outputs n (events s))))"

lemma stream_keep_full: "m - int n \<le> 0 \<Longrightarrow> stream_keep m n c = []"
  by (simp add: stream_keep_def)

lemma budget_inv_take_item:
  assumes "budget_inv cfg s"
  shows "budget_inv cfg (take_item cfg n c s)"
proof -
  from assms have e: "emitted s m = length (drain (stream_keep (limit cfg)) [] (consumed s m))"
    and o: "concat (outputs m (events s)) = drain (stream_keep (limit cfg)) [] (consumed s m)" for m
    by (auto simp: budget_inv_def)
  show ?thesis
    by (auto simp: budget_inv_def take_item_def yield_def Let_def e o drain_snoc stream_keep_full)
qed

lemmas stream_simps = yield_def kill_group_def stop_readers_def begin_cleanup_def Let_def

lemma budget_inv_step: "stream_step cfg s s' \<Longrightarrow> budget_inv cfg s \<Longrightarrow> budget_inv cfg s'"
proof (induction rule: stream_step.induct)
  case (get_item s n c q)
  then have "budget_inv cfg (s\<lparr>queue := q\<rparr>)" by (simp add: budget_inv_def)
  then show ?case by (rule budget_inv_take_item)
qed (simp_all add: budget_inv_def stream_simps)

lemma reachable_budget: "stream_reachable cfg out s \<Longrightarrow> budget_inv cfg s"
  by (erule stream_invariant) (simp add: budget_inv_def stream_init_def, rule budget_inv_step)


section \<open>No byte is lost or reordered\<close>

fun queued :: "stream_name \<Rightarrow> (stream_name \<times> bytes) option list \<Rightarrow> bytes list" where
  "queued n [] = []"
| "queued n (None # q) = queued n q"
| "queued n (Some (m, c) # q) = (if m = n then c # queued n q else queued n q)"

lemma queued_append [simp]: "queued n (p @ q) = queued n p @ queued n q"
  by (induction n p rule: queued.induct) simp_all

definition order_inv :: "(stream_name \<Rightarrow> bytes list) \<Rightarrow> stream_state \<Rightarrow> bool" where
  "order_inv out s \<longleftrightarrow>
     (\<forall>n. consumed s n @ queued n (queue s) @ pending s n = out n)"

lemma order_inv_step: "stream_step cfg s s' \<Longrightarrow> order_inv out s \<Longrightarrow> order_inv out s'"
proof (induction rule: stream_step.induct)
  case (reader_chunk s n c cs)
  then have "consumed s m @ queued m (queue s) @ pending s m = out m" for m
    by (simp add: order_inv_def)
  from this [of n] this reader_chunk show ?case by (simp add: order_inv_def)
next
  case (get_item s n c q)
  then show ?case by (fastforce simp: order_inv_def take_item_def stream_simps split: if_splits)
qed (auto simp: order_inv_def stream_simps split: if_splits)

lemma reachable_order: "stream_reachable cfg out s \<Longrightarrow> order_inv out s"
  by (erule stream_invariant) (simp add: order_inv_def stream_init_def, rule order_inv_step)


section \<open>The readers and the end of the streams\<close>

fun ends :: "(stream_name \<times> bytes) option list \<Rightarrow> nat" where
  "ends [] = 0"
| "ends (None # q) = Suc (ends q)"
| "ends (Some x # q) = ends q"

lemma ends_append [simp]: "ends (p @ q) = ends p + ends q"
  by (induction p rule: ends.induct) simp_all

definition finished_readers :: "stream_state \<Rightarrow> nat" where
  "finished_readers s = (if reading s Stdout then 0 else 1) + (if reading s Stderr then 0 else 1)"

definition reader_inv :: "stream_state \<Rightarrow> bool" where
  "reader_inv s \<longleftrightarrow> pc s \<notin> {FinalGather, Finished} \<longrightarrow>
     completed_readers s + ends (queue s) = finished_readers s
     \<and> (queue s = [] \<or> last (queue s) = None \<or> reading s Stdout \<or> reading s Stderr)
     \<and> (\<forall>n. \<not> reading s n \<longrightarrow> pending s n = [])"

text \<open>What the \<open>finally\<close> block has done: it waits for the readers, and ends, with the readers stopped and the
  process reaped, unless it was cut short; and it waits for the process only after the kill.\<close>

definition stopped_inv :: "stream_state \<Rightarrow> bool" where
  "stopped_inv s \<longleftrightarrow>
     (pc s \<in> {FinalGather, Finished} \<and> \<not> cut s \<longrightarrow> (\<forall>n. \<not> reading s n) \<and> code s \<noteq> None)
     \<and> (pc s \<in> {AtKill, FinalWait, FinalGather, Finished} \<longrightarrow> \<not> suspended s)
     \<and> (cut s \<longrightarrow> pc s = Finished \<and> group_killed s)
     \<and> (pc s \<in> {KilledWait, FinalWait} \<longrightarrow> group_killed s)
     \<and> (timed_out s \<and> pc s \<noteq> AtKill \<longrightarrow> group_killed s)"

lemma stopped_inv_step: "stream_step cfg s s' \<Longrightarrow> stopped_inv s \<Longrightarrow> stopped_inv s'"
  by (induction rule: stream_step.induct)
     (auto simp: stopped_inv_def stream_simps take_item_def split: option.splits)

lemma reachable_stopped: "stream_reachable cfg out s \<Longrightarrow> stopped_inv s"
  by (erule stream_invariant) (simp add: stopped_inv_def stream_init_def, rule stopped_inv_step)

lemma reader_inv_step:
  "stream_step cfg s s' \<Longrightarrow> (suspended s \<Longrightarrow> pc s \<notin> {FinalGather, Finished}) \<Longrightarrow> reader_inv s \<Longrightarrow> reader_inv s'"
proof (induction rule: stream_step.induct)
  case (reader_chunk s n c cs)
  then show ?case by (cases n) (auto simp: reader_inv_def finished_readers_def)
next
  case (reader_eof s n)
  then show ?case by (cases n) (auto simp: reader_inv_def finished_readers_def)
qed (auto simp: reader_inv_def finished_readers_def stream_simps take_item_def split: if_splits)

lemma reachable_awake: "stream_reachable cfg out s \<Longrightarrow> suspended s \<Longrightarrow> pc s \<notin> {FinalGather, Finished}"
  using reachable_stopped [of cfg out s] by (auto simp: stopped_inv_def)

lemma reachable_reader: "stream_reachable cfg out s \<Longrightarrow> reader_inv s"
  by (erule stream_invariant)
     (simp add: reader_inv_def stream_init_def finished_readers_def,
      blast intro: reader_inv_step dest: reachable_awake)

text \<open>Once both end markers were taken, every chunk of both pipes was taken.\<close>

lemma all_consumed:
  assumes "stream_reachable cfg out s" and "pc s \<notin> {FinalGather, Finished}" and "2 \<le> completed_readers s"
  shows "consumed s n = out n"
proof -
  note inv = reachable_reader [OF assms(1)] reachable_order [OF assms(1)]
  from inv(1) assms(2,3) have f: "\<not> reading s Stdout" "\<not> reading s Stderr" "ends (queue s) = 0"
    by (auto simp: reader_inv_def finished_readers_def split: if_splits)
  have q: "queue s = []"
  proof (rule ccontr)
    assume "queue s \<noteq> []"
    moreover from this f inv(1) assms(2) have "last (queue s) = None" by (auto simp: reader_inv_def)
    ultimately have "ends (queue s) \<noteq> 0"
      by (metis append_butlast_last_id ends.simps(1,2) ends_append add_is_0 nat.distinct(1))
    with f(3) show False by simp
  qed
  have "pending s n = []" using inv(1) assms(2) f by (cases n) (auto simp: reader_inv_def)
  with inv(2) q show ?thesis by (auto simp: order_inv_def dest: spec [of _ n])
qed


section \<open>The shape of the event sequence\<close>

definition is_output :: "command_event \<Rightarrow> bool" where
  "is_output e \<longleftrightarrow> (case e of EvOutput _ _ \<Rightarrow> True | _ \<Rightarrow> False)"

definition timeout_event :: "stream_config \<Rightarrow> command_event" where
  "timeout_event cfg = EvTimeout (timeout_message (timeout cfg))"

text \<open>How an event sequence may end: abandoned by the consumer, with a timeout that may have been reported
  and exit code 124, or with the exit code of the process.\<close>

definition ending :: "stream_config \<Rightarrow> bool \<Rightarrow> int option \<Rightarrow> command_event list \<Rightarrow> bool" where
  "ending cfg timed status tail \<longleftrightarrow>
     (if timed then prefix tail [timeout_event cfg, EvExit 124]
      else tail = [] \<or> (\<exists>c. status = Some c \<and> tail = [EvExit c]))"

text \<open>A start event, then output, then an end that satisfies \<open>P\<close>.\<close>

definition shaped ::
  "stream_config \<Rightarrow> (command_event list \<Rightarrow> bool) \<Rightarrow> command_event list \<Rightarrow> bool" where
  "shaped cfg P evs \<longleftrightarrow>
     (\<exists>outs tail. evs = EvStart (process_id cfg) # outs @ tail \<and> list_all is_output outs \<and> P tail)"

lemma shaped_start: "P [] \<Longrightarrow> shaped cfg P [EvStart (process_id cfg)]"
  by (simp add: shaped_def)

lemma shaped_mono: "shaped cfg P evs \<Longrightarrow> (\<And>t. P t \<Longrightarrow> Q t) \<Longrightarrow> shaped cfg Q evs"
  by (fastforce simp: shaped_def)

lemma shaped_output: "shaped cfg (\<lambda>t. t = []) evs \<Longrightarrow> shaped cfg (\<lambda>t. t = []) (evs @ [EvOutput n c])"
  by (auto simp: shaped_def is_output_def)

lemma shaped_snoc: "shaped cfg P evs \<Longrightarrow> (\<And>t. P t \<Longrightarrow> Q (t @ [e])) \<Longrightarrow> shaped cfg Q (evs @ [e])"
  by (fastforce simp: shaped_def)

definition shape_inv :: "stream_config \<Rightarrow> stream_state \<Rightarrow> bool" where
  "shape_inv cfg s \<longleftrightarrow>
     (case pc s of
        AtStart \<Rightarrow> events s = [] \<and> \<not> timed_out s \<and> \<not> suspended s
      | AtKill \<Rightarrow> shaped cfg (\<lambda>t. t = []) (events s) \<and> timed_out s \<and> \<not> suspended s
      | KilledWait \<Rightarrow> shaped cfg (\<lambda>t. t = []) (events s) \<and> timed_out s \<and> \<not> suspended s
      | AtExit \<Rightarrow> shaped cfg (\<lambda>t. t = (if timed_out s then [timeout_event cfg] else [])) (events s)
                    \<and> code s \<noteq> None
      | AtFinally \<Rightarrow> shaped cfg (ending cfg (timed_out s) (code s)) (events s)
      | FinalWait \<Rightarrow> shaped cfg (ending cfg (timed_out s) (code s)) (events s)
      | FinalGather \<Rightarrow> shaped cfg (ending cfg (timed_out s) (code s)) (events s)
      | Finished \<Rightarrow> shaped cfg (ending cfg (timed_out s) (code s)) (events s)
      | AtLoop \<Rightarrow> shaped cfg (\<lambda>t. t = []) (events s) \<and> \<not> timed_out s
      | _ \<Rightarrow> shaped cfg (\<lambda>t. t = []) (events s) \<and> \<not> timed_out s \<and> \<not> suspended s)"

lemma shape_inv_step: "stream_step cfg s s' \<Longrightarrow> stopped_inv s \<Longrightarrow> shape_inv cfg s \<Longrightarrow> shape_inv cfg s'"
proof (induction rule: stream_step.induct)
  case (process_exits s c)
  then show ?case
    by (auto simp: shape_inv_def stopped_inv_def ending_def split: pc.splits elim!: shaped_mono)
next
  case (close s)
  then show ?case
    by (auto simp: shape_inv_def stopped_inv_def ending_def split: pc.splits if_splits
        elim!: shaped_mono)
next
  case (exit_event s)
  then show ?case
    by (auto simp: shape_inv_def stream_simps ending_def exit_code_of_def elim!: shaped_snoc)
next
  case (run_finally s)
  then show ?case
    by (auto simp: shape_inv_def stream_simps ending_def split: option.splits elim!: shaped_mono)
qed (auto simp: shape_inv_def stream_simps timeout_event_def ending_def take_item_def shaped_start
      split: pc.splits option.splits if_splits elim!: shaped_mono shaped_output shaped_snoc)

lemma reachable_shape: "stream_reachable cfg out s \<Longrightarrow> shape_inv cfg s"
  by (erule stream_invariant)
     (simp add: shape_inv_def stream_init_def, blast intro: shape_inv_step reachable_stopped)


section \<open>Complete output\<close>

text \<open>Past the loop without a timeout, both end markers were taken, hence every chunk.\<close>

definition complete_inv :: "(stream_name \<Rightarrow> bytes list) \<Rightarrow> stream_state \<Rightarrow> bool" where
  "complete_inv out s \<longleftrightarrow>
     (pc s \<in> {AtWait, AtWaiting} \<or> \<not> timed_out s \<and> (pc s = AtExit \<or> (\<exists>c. EvExit c \<in> set (events s)))
        \<longrightarrow> (\<forall>n. consumed s n = out n))
     \<and> ((\<exists>c. EvExit c \<in> set (events s)) \<longrightarrow> pc s \<in> {AtFinally, FinalWait, FinalGather, Finished})"

lemma complete_inv_step:
  assumes "stream_step cfg s s'" and "stream_reachable cfg out s" and "complete_inv out s"
  shows "complete_inv out s'"
  using assms
proof (induction rule: stream_step.induct)
  case (loop_done s)
  then show ?case by (auto simp: complete_inv_def all_consumed)
next
  case (kill_reaped s)
  with reachable_shape [OF kill_reaped(4)] show ?case
    by (auto simp: complete_inv_def shape_inv_def stream_simps)
qed (auto simp: complete_inv_def stream_simps take_item_def)

lemma reachable_complete: "stream_reachable cfg out s \<Longrightarrow> complete_inv out s"
  by (erule stream_invariant)
     (simp add: complete_inv_def stream_init_def, blast intro: complete_inv_step)

lemma reachable_outputs:
  "stream_reachable cfg out s \<Longrightarrow>
     concat (outputs n (events s)) = take (nat (limit cfg)) (concat (consumed s n))"
  using reachable_budget [of cfg out s] by (simp add: budget_inv_def stream.drain_is_take)


section \<open>The steps as moves\<close>

text \<open>An executable reading of the step relation: a move names who acts.\<close>

datatype move =
    Read stream_name | Tick nat | ProcessExit int | Dies | Resume | Close | Cancel | Go | Expire

definition go :: "stream_config \<Rightarrow> stream_state \<Rightarrow> stream_state option" where
  "go cfg s =
     (if suspended s then None
      else case pc s of
        AtStart \<Rightarrow> Some (yield (EvStart (process_id cfg)) AtLoop s)
      | AtLoop \<Rightarrow> Some (if 2 \<le> completed_readers s then s\<lparr>pc := AtWait\<rparr>
                        else if deadline cfg \<le> now s then s\<lparr>timed_out := True, pc := AtKill\<rparr>
                        else s\<lparr>pc := AtGet\<rparr>)
      | AtGet \<Rightarrow> (case queue s of
            [] \<Rightarrow> None
          | None # q \<Rightarrow> Some (s\<lparr>queue := q, completed_readers := Suc (completed_readers s), pc := AtLoop\<rparr>)
          | Some (n, c) # q \<Rightarrow> Some (take_item cfg n c (s\<lparr>queue := q\<rparr>)))
      | AtKill \<Rightarrow> Some ((kill_group s)\<lparr>pc := KilledWait\<rparr>)
      | KilledWait \<Rightarrow> (if code s = None then None
                       else Some (yield (EvTimeout (timeout_message (timeout cfg))) AtExit s))
      | AtWait \<Rightarrow> (if now s < deadline cfg then Some (s\<lparr>pc := AtWaiting\<rparr>) else None)
      | AtWaiting \<Rightarrow> (if code s \<noteq> None then Some (s\<lparr>pc := AtExit\<rparr>) else None)
      | AtExit \<Rightarrow> Some (yield (EvExit (exit_code_of s)) AtFinally s)
      | AtFinally \<Rightarrow> Some (begin_cleanup s)
      | FinalWait \<Rightarrow> (if code s = None then None else Some (stop_readers s))
      | FinalGather \<Rightarrow> Some (s\<lparr>pc := Finished\<rparr>)
      | Finished \<Rightarrow> None)"

definition expire :: "stream_config \<Rightarrow> stream_state \<Rightarrow> stream_state option" where
  "expire cfg s =
     (if \<not> suspended s \<and> deadline cfg \<le> now s \<and> pc s \<in> {AtGet, AtWait, AtWaiting}
      then Some (s\<lparr>timed_out := True, pc := AtKill\<rparr>) else None)"

definition cancelled :: "stream_state \<Rightarrow> stream_state option" where
  "cancelled s =
     (if suspended s then None
      else if pc s \<in> {AtGet, KilledWait, AtWaiting} then Some (s\<lparr>pc := AtFinally\<rparr>)
      else if pc s = FinalWait then Some (s\<lparr>pc := Finished, cut := True\<rparr>)
      else if pc s = FinalGather then Some (s\<lparr>pc := Finished\<rparr>)
      else None)"

fun perform :: "stream_config \<Rightarrow> move \<Rightarrow> stream_state \<Rightarrow> stream_state option" where
  "perform cfg (Read n) s =
     (if \<not> reading s n then None
      else case pending s n of
        [] \<Rightarrow> Some (s\<lparr>reading := (reading s)(n := False), queue := queue s @ [None]\<rparr>)
      | c # cs \<Rightarrow> if c = [] then None
                 else Some (s\<lparr>pending := (pending s)(n := cs), queue := queue s @ [Some (n, c)]\<rparr>))"
| "perform cfg (Tick d) s = Some (s\<lparr>now := now s + d\<rparr>)"
| "perform cfg (ProcessExit c) s = (if code s = None then Some (s\<lparr>code := Some c\<rparr>) else None)"
| "perform cfg Dies s = (if code s = None \<and> group_killed s then Some (s\<lparr>code := Some (-9)\<rparr>) else None)"
| "perform cfg Resume s = (if suspended s then Some (s\<lparr>suspended := False\<rparr>) else None)"
| "perform cfg Close s = (if suspended s then Some (s\<lparr>suspended := False, pc := AtFinally\<rparr>) else None)"
| "perform cfg Cancel s = cancelled s"
| "perform cfg Go s = go cfg s"
| "perform cfg Expire s = expire cfg s"

fun perform_all :: "stream_config \<Rightarrow> move list \<Rightarrow> stream_state \<Rightarrow> stream_state option" where
  "perform_all cfg [] s = Some s"
| "perform_all cfg (m # ms) s =
     (case perform cfg m s of None \<Rightarrow> None | Some s' \<Rightarrow> perform_all cfg ms s')"

lemma go_step: "go cfg s = Some s' \<Longrightarrow> stream_step cfg s s'"
  by (auto simp: go_def split: if_splits pc.splits list.splits option.splits intro: stream_step.intros)

lemma expire_step: "expire cfg s = Some s' \<Longrightarrow> stream_step cfg s s'"
  by (auto simp: expire_def split: if_splits intro: stream_step.intros)

lemma cancelled_step: "cancelled s = Some s' \<Longrightarrow> stream_step cfg s s'"
  by (auto simp: cancelled_def split: if_splits intro: stream_step.intros)

lemma perform_step: "perform cfg m s = Some s' \<Longrightarrow> stream_step cfg s s'"
  by (cases m) (auto split: if_splits list.splits intro: go_step expire_step cancelled_step stream_step.intros)

lemma step_performs: "stream_step cfg s s' \<Longrightarrow> \<exists>m. perform cfg m s = Some s'"
proof (induction rule: stream_step.induct)
  case (reader_chunk s n c cs)
  then have "perform cfg (Read n) s
    = Some (s\<lparr>pending := (pending s)(n := cs), queue := queue s @ [Some (n, c)]\<rparr>)" by simp
  then show ?case by blast
next
  case (reader_eof s n)
  then have "perform cfg (Read n) s
    = Some (s\<lparr>reading := (reading s)(n := False), queue := queue s @ [None]\<rparr>)" by simp
  then show ?case by blast
next
  case (clock s d)
  have "perform cfg (Tick d) s = Some (s\<lparr>now := now s + d\<rparr>)" by simp
  then show ?case by blast
next
  case (process_exits s c)
  then have "perform cfg (ProcessExit c) s = Some (s\<lparr>code := Some c\<rparr>)" by simp
  then show ?case by blast
next
  case (killed_dies s)
  then have "perform cfg Dies s = Some (s\<lparr>code := Some (-9)\<rparr>)" by simp
  then show ?case by blast
qed (force intro: exI [of _ Resume] exI [of _ Close] exI [of _ Cancel]
       exI [of _ Go] exI [of _ Expire] simp: go_def expire_def cancelled_def)+

lemma perform_all_reachable:
  "perform_all cfg ms s = Some s' \<Longrightarrow> stream_reachable cfg out s \<Longrightarrow> stream_reachable cfg out s'"
  by (induction ms arbitrary: s)
     (auto split: option.splits dest!: perform_step intro: stream_reachable.step)

lemma perform_all_append:
  "perform_all cfg (ms @ ns) s =
     (case perform_all cfg ms s of None \<Rightarrow> None | Some t \<Rightarrow> perform_all cfg ns t)"
  by (induction ms arbitrary: s) (auto split: option.splits)

text \<open>After the deadline the generator needs nothing but its own moves, a consumer that resumes it, and the
  death of a process it has killed.\<close>

definition final_moves :: "bool \<Rightarrow> move list" where
  "final_moves runs = Go # (if runs then [Dies, Go] else []) @ [Go]"

definition kill_moves :: "bool \<Rightarrow> move list" where
  "kill_moves runs = (if runs then [Dies] else []) @ [Go, Resume, Go, Resume] @ final_moves False"

definition closing_moves :: "stream_state \<Rightarrow> move list" where
  "closing_moves s =
     (let runs = (code s = None) in
      (if suspended s then [Resume] else [])
      @ (case pc s of
           AtStart \<Rightarrow> [Go, Resume, Go, Go] @ kill_moves runs
         | AtLoop \<Rightarrow> (if 2 \<le> completed_readers s then [Go, Expire, Go] else [Go, Go]) @ kill_moves runs
         | AtGet \<Rightarrow> [Expire, Go] @ kill_moves runs
         | AtKill \<Rightarrow> Go # kill_moves runs
         | KilledWait \<Rightarrow> kill_moves runs
         | AtWait \<Rightarrow> [Expire, Go] @ kill_moves runs
         | AtWaiting \<Rightarrow> [Expire, Go] @ kill_moves runs
         | AtExit \<Rightarrow> [Go, Resume] @ final_moves False
         | AtFinally \<Rightarrow> final_moves runs
         | FinalWait \<Rightarrow> (if runs then [Dies, Go] else [Go]) @ [Go]
         | FinalGather \<Rightarrow> [Go]
         | Finished \<Rightarrow> []))"

definition start_inv :: "stream_state \<Rightarrow> bool" where
  "start_inv s \<longleftrightarrow> (pc s = AtStart \<longrightarrow> completed_readers s = 0)"

lemma reachable_start: "stream_reachable cfg out s \<Longrightarrow> start_inv s"
proof (erule stream_invariant)
  show "start_inv (stream_init out t)" for t by (simp add: start_inv_def stream_init_def)
next
  fix s s' assume "stream_step cfg s s'" and "start_inv s"
  then show "start_inv s'"
    by (induction rule: stream_step.induct) (auto simp: start_inv_def stream_simps take_item_def)
qed

lemma closing_moves_finish:
  assumes "stream_reachable cfg out s" and "deadline cfg \<le> now s"
  shows "\<exists>s'. perform_all cfg (closing_moves s) s = Some s' \<and> pc s' = Finished"
  using reachable_stopped [OF assms(1)] reachable_start [OF assms(1)] reachable_shape [OF assms(1)]
    assms(2)
  by (cases "pc s")
     (simp_all add: closing_moves_def final_moves_def kill_moves_def stopped_inv_def start_inv_def shape_inv_def
        go_def expire_def stream_simps, auto)


section \<open>Properties\<close>

text \<open>A short run for the examples: a process that writes two chunks and exits, read to its end.\<close>

definition demo_config :: stream_config where
  "demo_config = \<lparr>limit = 4, deadline = 1000, process_id = 7, timeout = 1\<rparr>"

definition demo_output :: "stream_name \<Rightarrow> bytes list" where
  "demo_output n = (case n of Stdout \<Rightarrow> [encode ''abc'', encode ''def''] | Stderr \<Rightarrow> [])"

definition demo_moves :: "move list" where
  "demo_moves =
     [Go, Resume, Read Stdout, Read Stdout, Read Stdout, Read Stderr, ProcessExit 3,
      Go, Go, Resume, Go, Go, Resume, Go, Go, Go, Go, Go, Go, Go, Go, Resume, Go, Go]"

definition demo_state :: stream_state where
  "demo_state = the (perform_all demo_config demo_moves (stream_init demo_output 0))"

lemmas demo_simps = demo_state_def demo_moves_def demo_config_def demo_output_def stream_init_def
  go_def expire_def cancelled_def take_item_def stream_keep_def stream_simps exit_code_of_def

lemma demo_run_ok: "perform_all demo_config demo_moves (stream_init demo_output 0) = Some demo_state"
  by (simp add: demo_simps)

lemma demo_reachable: "stream_reachable demo_config demo_output demo_state"
  using demo_run_ok stream_reachable.initial by (rule perform_all_reachable)

lemma demo_state_fields:
  "pc demo_state = Finished" "timed_out demo_state = False" "cut demo_state = False" "group_killed demo_state = False"
  "events demo_state = [EvStart 7, EvOutput Stdout (encode ''abc''), EvOutput Stdout (encode ''d''),
     EvExit 3]"
  by (simp_all add: demo_simps)

text \<open>C7: when the event stream ends, however the consumer treated it and unless a cancellation cut its
  \<open>finally\<close> block short, its events are a start event, then output, then one of: nothing (abandoned), the
  exit code of the process, or a timeout and exit code 124, of which an abandoned stream may lack the end;
  and nothing of its own is left behind: the process has been reaped and both reader tasks have stopped.
  Whenever the generator waits for the process without a limit, when it was cut short, and once it has
  timed out, it has killed the process group. (Cut short, it can leave the process unreaped and the readers
  running; and after a normal exit the rest of the group is not killed.)\<close>

theorem stream_ends_clean:
  assumes "stream_reachable cfg out s"
  shows "(pc s = Finished \<and> \<not> cut s \<longrightarrow>
        shaped cfg (ending cfg (timed_out s) (code s)) (events s) \<and> code s \<noteq> None \<and> (\<forall>n. \<not> reading s n))
    \<and> (pc s \<in> {KilledWait, FinalWait} \<or> cut s \<or> timed_out s \<and> pc s \<noteq> AtKill \<longrightarrow> group_killed s)"
  using reachable_shape [OF assms] reachable_stopped [OF assms]
  by (auto simp: shape_inv_def stopped_inv_def)

theorem stream_ends_clean_witness:
  "shaped demo_config (ending demo_config (timed_out demo_state) (code demo_state)) (events demo_state)
    \<and> code demo_state \<noteq> None \<and> \<not> reading demo_state Stdout"
  using stream_ends_clean [OF demo_reachable] demo_state_fields by simp

text \<open>The group is only killed if its leader still runs: after a normal exit nothing ends what the command
  left in the background.\<close>

lemma stream_leaves_group:
  "stream_reachable demo_config demo_output demo_state \<and> pc demo_state = Finished
    \<and> EvExit 3 \<in> set (events demo_state) \<and> \<not> group_killed demo_state"
  using demo_reachable demo_state_fields by simp

text \<open>A cancellation while the \<open>finally\<close> block waits for the process leaves the process unreaped and the
  readers running.\<close>

lemma stream_cleanup_interrupted:
  "\<exists>s. stream_reachable demo_config demo_output s \<and> pc s = Finished \<and> code s = None
     \<and> reading s Stdout \<and> reading s Stderr"
proof -
  obtain s where s: "perform_all demo_config [Go, Close, Go, Cancel] (stream_init demo_output 0) = Some s"
    and fields: "pc s = Finished" "code s = None" "reading s Stdout" "reading s Stderr"
    by (simp add: demo_simps)
  have "stream_reachable demo_config demo_output s"
    using s stream_reachable.initial by (rule perform_all_reachable)
  with fields show ?thesis by blast
qed

text \<open>C22: at every moment, and for every interleaving of readers, clock and consumer, the data sent
  for a pipe is the prefix of what the pipe delivered, in order and without gaps, and never exceeds
  the budget.\<close>

theorem stream_output_prefix:
  assumes "stream_reachable cfg out s"
  shows "prefix (concat (outputs n (events s))) (concat (out n))
    \<and> int (length (concat (outputs n (events s)))) \<le> max 0 (limit cfg)"
proof -
  have "concat (out n) = concat (consumed s n) @ concat (queued n (queue s) @ pending s n)"
    using reachable_order [OF assms] by (metis concat_append order_inv_def)
  then have "prefix (concat (consumed s n)) (concat (out n))" by simp
  then show ?thesis
    using reachable_outputs [OF assms, of n] prefix_order.trans [OF take_is_prefix] by auto
qed

theorem stream_output_prefix_witness:
  "prefix (concat (outputs Stdout (events demo_state))) (concat (demo_output Stdout))
    \<and> int (length (concat (outputs Stdout (events demo_state)))) \<le> max 0 (limit demo_config)"
  by (rule stream_output_prefix [OF demo_reachable])

text \<open>C11: a stream that reports an exit without having timed out has sent all there was: for each
  pipe the very bytes the buffered \<open>execute_command\<close> captures from it.\<close>

theorem stream_agrees_with_buffered:
  assumes "stream_reachable cfg (pipe_output p) s" and "EvExit c \<in> set (events s)"
    and "\<not> timed_out s"
  shows "concat (outputs Stdout (events s)) = read_limited (Some (chunks (stdout p))) (limit cfg)
    \<and> concat (outputs Stderr (events s)) = read_limited (Some (chunks (stderr p))) (limit cfg)"
proof -
  have "consumed s n = pipe_output p n" for n
    using reachable_complete [OF assms(1)] assms(2,3) by (auto simp: complete_inv_def)
  then show ?thesis
    using reachable_outputs [OF assms(1)] by (simp add: pipe_output_def read_limited_take)
qed

definition demo_process :: process where
  "demo_process = \<lparr>pid = 7, exit_at = Some 0, returncode = 3,
     stdout = \<lparr>chunks = [encode ''abc'', encode ''def'', []], eof_at = Some 0\<rparr>,
     stderr = \<lparr>chunks = [[]], eof_at = Some 0\<rparr>\<rparr>"

theorem stream_agrees_with_buffered_witness:
  "concat (outputs Stdout (events demo_state)) = read_limited (Some (chunks (stdout demo_process))) 4
    \<and> concat (outputs Stderr (events demo_state)) = read_limited (Some (chunks (stderr demo_process))) 4"
proof -
  have "demo_output = pipe_output demo_process"
    by (rule ext) (simp add: demo_output_def pipe_output_def demo_process_def split: stream_name.splits)
  then have "stream_reachable demo_config (pipe_output demo_process) demo_state"
    using demo_reachable by simp
  from stream_agrees_with_buffered [OF this, of 3] show ?thesis
    by (simp add: demo_state_fields demo_config_def)
qed

text \<open>C21: the deadline is enforced: from any reachable state at or past it, at most eleven moves end the
  stream, and these are moves of the generator and of a consumer that resumes it, and the death of the
  process, which is a move only once its group was killed. Nothing is asked of the readers, nor that the
  process ends by itself.\<close>

theorem stream_deadline_ends:
  assumes "stream_reachable cfg out s" and "deadline cfg \<le> now s"
  shows "\<exists>s'. perform_all cfg (closing_moves s) s = Some s' \<and> pc s' = Finished
    \<and> stream_reachable cfg out s' \<and> set (closing_moves s) \<subseteq> {Go, Expire, Resume, Dies}
    \<and> length (closing_moves s) \<le> 11"
proof -
  have "set (closing_moves s) \<subseteq> {Go, Expire, Resume, Dies}"
    by (cases "pc s") (auto simp: closing_moves_def final_moves_def kill_moves_def Let_def)
  moreover have "length (closing_moves s) \<le> 11"
    using reachable_shape [OF assms(1)]
    by (cases "pc s") (simp_all add: closing_moves_def final_moves_def kill_moves_def shape_inv_def Let_def)
  ultimately show ?thesis
    using closing_moves_finish [OF assms] assms(1) by (blast intro: perform_all_reachable)
qed

theorem stream_deadline_ends_witness:
  "\<exists>s'. perform_all demo_config (closing_moves (stream_init demo_output 1000))
          (stream_init demo_output 1000) = Some s' \<and> pc s' = Finished"
  using stream_deadline_ends [OF stream_reachable.initial [of demo_config demo_output 1000]]
  by (auto simp: demo_config_def stream_init_def)

text \<open>the text a client assembles from the events is the text of the whole output as long as
  every event holds whole characters, which is the case when chunks end on character boundaries and
  the budget is not reached.\<close>

theorem stream_text_of_whole_characters:
  assumes "stream_reachable cfg (pipe_output p) s" and "EvExit c \<in> set (events s)"
    and "\<not> timed_out s" and "\<forall>b \<in> set (outputs Stdout (events s)). well_formed b"
  shows "concat (map chunk_text (outputs Stdout (events s)))
    = decode_replace (read_limited (Some (chunks (stdout p))) (limit cfg))"
proof -
  have whole: "concat (map chunk_text bs) = decode_replace (concat bs)"
    if "\<forall>b \<in> set bs. well_formed b" for bs
    using that by (induction bs) (simp_all add: chunk_text_def decode_replace_append)
  have "concat (outputs Stdout (events s)) = read_limited (Some (chunks (stdout p))) (limit cfg)"
  proof -
    have "consumed s Stdout = pipe_output p Stdout"
      using reachable_complete [OF assms(1)] assms(2,3) by (auto simp: complete_inv_def)
    then show ?thesis
      using reachable_outputs [OF assms(1)] by (simp add: pipe_output_def read_limited_take)
  qed
  with whole [OF assms(4)] show ?thesis by simp
qed

theorem stream_text_of_whole_characters_witness:
  "concat (map chunk_text (outputs Stdout (events demo_state)))
    = decode_replace (read_limited (Some (chunks (stdout demo_process))) 4)"
proof -
  have "demo_output = pipe_output demo_process"
    by (rule ext) (simp add: demo_output_def pipe_output_def demo_process_def split: stream_name.splits)
  then have reach: "stream_reachable demo_config (pipe_output demo_process) demo_state"
    using demo_reachable by simp
  have ok: "\<forall>b \<in> set (outputs Stdout (events demo_state)). well_formed b"
    unfolding demo_state_fields(3) by code_simp
  show ?thesis
    using stream_text_of_whole_characters [OF reach _ _ ok, of 3]
    by (simp add: demo_state_fields demo_config_def)
qed


end
