(* ===== verification/Py_Json.thy ===== *)
theory Py_Json
  imports Py_Text
begin

text \<open>
  Python's \<open>json\<close> module as far as the program uses it: the values \<open>json.loads\<close> builds, its scanner,
  and \<open>json.dumps\<close> with the default \<open>ensure_ascii\<close> and either pair of separators. A number with a
  fraction or an exponent keeps its literal. Not modelled: the non-standard literals \<open>NaN\<close> and
  \<open>Infinity\<close>, which the scanner here rejects, and the texts of the decode errors.
\<close>

datatype json =
    JNull
  | JBool bool
  | JInt int
  | JFloat string
  | JStr string
  | JList "json list"
  | JObj "(string \<times> json) list"


section \<open>Code points\<close>

definition code_of :: "char \<Rightarrow> nat" where
  "code_of c = of_char c"

fun cp_value :: "string \<Rightarrow> nat" where
  "cp_value [a] = code_of a"
| "cp_value [a, b] = (code_of a mod 32) * 64 + code_of b mod 64"
| "cp_value [a, b, c] = (code_of a mod 16) * 4096 + (code_of b mod 64) * 64 + code_of c mod 64"
| "cp_value [a, b, c, d] =
     (code_of a mod 8) * 262144 + (code_of b mod 64) * 4096 + (code_of c mod 64) * 64 + code_of d mod 64"
| "cp_value _ = 0"

definition cp_bytes :: "nat \<Rightarrow> string" where
  "cp_bytes n =
     (if n < 128 then [char_of n]
      else if n < 2048 then [char_of (192 + n div 64), char_of (128 + n mod 64)]
      else if n < 65536
      then [char_of (224 + n div 4096), char_of (128 + n div 64 mod 64), char_of (128 + n mod 64)]
      else [char_of (240 + n div 262144), char_of (128 + n div 4096 mod 64),
            char_of (128 + n div 64 mod 64), char_of (128 + n mod 64)])"

definition is_cp :: "string \<Rightarrow> bool" where
  "is_cp p \<longleftrightarrow> p \<noteq> [] \<and> utf8_step (encode p) = (True, length p)"

lemma code_of_less: "code_of c < 256"
  using char_code_less [of c] by (simp add: code_of_def)

lemma char_of_code_of [simp]: "char_of (code_of c) = c"
  by (simp add: code_of_def)

lemma unat_byte_of_char: "unat (byte_of_char c) = code_of c"
  using char_code_less [of c] by (simp add: byte_of_char_def code_of_def unat_of_nat)

lemma byte_le_iff:
  "(byte_of_char c \<le> b) = (code_of c \<le> unat b)"
  "(b \<le> byte_of_char c) = (unat b \<le> code_of c)"
  "(byte_of_char c < b) = (code_of c < unat b)"
  "(byte_of_char c = b) = (code_of c = unat b)"
  by (simp_all add: word_le_nat_alt word_less_nat_alt unat_byte_of_char word_unat_eq_iff)

lemma is_cp_length: "is_cp p \<Longrightarrow> length p \<in> {1, 2, 3, 4}"
proof -
  assume p: "is_cp p"
  then obtain a q where pq: "p = a # q" by (cases p) (auto simp: is_cp_def)
  with p obtain rs where rs: "continuations (byte_of_char a) = Some rs"
    and "need 1 rs (encode q) = (True, Suc (length q))"
    by (auto simp: is_cp_def split: option.splits)
  then have "Suc (length q) = 1 + length rs" by (blast dest: need_ok)
  moreover from rs have "length rs \<in> {0, 1, 2, 3}"
    by (auto simp: continuations.simps split: if_splits)
  ultimately show ?thesis by (simp add: pq)
qed

lemma is_cp_ranges:
  "is_cp [a] \<longleftrightarrow> code_of a < 128"
  "is_cp [a, b] \<Longrightarrow> 194 \<le> code_of a \<and> code_of a \<le> 223 \<and> 128 \<le> code_of b \<and> code_of b \<le> 191"
  "is_cp [a, b, c] \<Longrightarrow> 224 \<le> code_of a \<and> code_of a \<le> 239 \<and> 128 \<le> code_of b \<and> code_of b \<le> 191
     \<and> 128 \<le> code_of c \<and> code_of c \<le> 191
     \<and> (code_of a = 224 \<longrightarrow> 160 \<le> code_of b) \<and> (code_of a = 237 \<longrightarrow> code_of b \<le> 159)"
  "is_cp [a, b, c, d] \<Longrightarrow> 240 \<le> code_of a \<and> code_of a \<le> 244 \<and> 128 \<le> code_of b \<and> code_of b \<le> 191
     \<and> 128 \<le> code_of c \<and> code_of c \<le> 191 \<and> 128 \<le> code_of d \<and> code_of d \<le> 191
     \<and> (code_of a = 240 \<longrightarrow> 144 \<le> code_of b) \<and> (code_of a = 244 \<longrightarrow> code_of b \<le> 143)"
  by (auto simp: is_cp_def continuations.simps byte_le_iff split: if_splits)

lemma char_eq_code: "code_of c = n \<Longrightarrow> char_of n = c"
  by auto

lemma mod_offset:
  fixes n :: nat
  assumes "c * m \<le> n" and "n < c * m + m"
  shows "n mod m = n - c * m"
proof -
  obtain k where "n = c * m + k" using assms(1) by (auto simp: le_iff_add)
  with assms(2) show ?thesis by simp
qed

lemma high_bits:
  fixes n :: nat
  shows "192 \<le> n \<Longrightarrow> n < 224 \<Longrightarrow> n mod 32 = n - 192"
    and "224 \<le> n \<Longrightarrow> n < 240 \<Longrightarrow> n mod 16 = n - 224"
    and "240 \<le> n \<Longrightarrow> n < 248 \<Longrightarrow> n mod 8 = n - 240"
    and "128 \<le> n \<Longrightarrow> n \<le> 191 \<Longrightarrow> n mod 64 = n - 128"
  using mod_offset [of 6 32 n] mod_offset [of 14 16 n] mod_offset [of 30 8 n] mod_offset [of 2 64 n]
  by simp_all

lemma digit64: "y < 64 \<Longrightarrow> (x * 64 + y) div 64 = x" "y < 64 \<Longrightarrow> (x * 64 + y) mod 64 = (y :: nat)"
  by simp_all

lemma digits64:
  fixes x y z w :: nat
  assumes "y < 64" and "z < 64" and "w < 64"
  shows "(x * 64 + y) div 64 = x" and "(x * 64 + y) mod 64 = y"
    and "(x * 4096 + y * 64 + z) div 4096 = x"
    and "(x * 4096 + y * 64 + z) div 64 mod 64 = y"
    and "(x * 4096 + y * 64 + z) mod 64 = z"
    and "(x * 262144 + y * 4096 + z * 64 + w) div 262144 = x"
    and "(x * 262144 + y * 4096 + z * 64 + w) div 4096 mod 64 = y"
    and "(x * 262144 + y * 4096 + z * 64 + w) div 64 mod 64 = z"
    and "(x * 262144 + y * 4096 + z * 64 + w) mod 64 = w"
proof -
  have three: "x * 4096 + y * 64 + z = (x * 64 + y) * 64 + z"
    and four: "x * 262144 + y * 4096 + z * 64 + w = ((x * 64 + y) * 64 + z) * 64 + w" by simp_all
  have two: "n div 4096 = n div 64 div 64" "n div 262144 = n div 64 div 64 div 64" for n :: nat
    by (simp_all flip: div_mult2_eq)
  note d = digit64 [OF assms(1)] digit64 [OF assms(2)] digit64 [OF assms(3)]
  show "(x * 64 + y) div 64 = x" "(x * 64 + y) mod 64 = y" by (rule d)+
  show "(x * 4096 + y * 64 + z) div 4096 = x" "(x * 4096 + y * 64 + z) div 64 mod 64 = y"
    "(x * 4096 + y * 64 + z) mod 64 = z"
    unfolding three two d by (rule d refl)+
  show "(x * 262144 + y * 4096 + z * 64 + w) div 262144 = x"
    "(x * 262144 + y * 4096 + z * 64 + w) div 4096 mod 64 = y"
    "(x * 262144 + y * 4096 + z * 64 + w) div 64 mod 64 = z"
    "(x * 262144 + y * 4096 + z * 64 + w) mod 64 = w"
    unfolding four two d by (rule d refl)+
qed

lemma cp_bytes_value2:
  assumes "is_cp [a, b]"
  shows "cp_bytes (cp_value [a, b]) = [a, b]"
    and "128 \<le> cp_value [a, b]" and "cp_value [a, b] < 2048"
proof -
  note r = is_cp_ranges(2) [OF assms]
  define x y where xy: "x = code_of a - 192" "y = code_of b - 128"
  have v: "cp_value [a, b] = x * 64 + y" using r by (simp add: high_bits xy)
  have b: "2 \<le> x" "x < 32" "y < 64" "192 + x = code_of a" "128 + y = code_of b" using r by (auto simp: xy)
  show lo: "128 \<le> cp_value [a, b]" and hi: "cp_value [a, b] < 2048" unfolding v using b by auto
  show "cp_bytes (cp_value [a, b]) = [a, b]"
    using b lo hi unfolding v cp_bytes_def by (simp add: digits64)
qed

lemma cp_bytes_value3:
  assumes "is_cp [a, b, c]"
  shows "cp_bytes (cp_value [a, b, c]) = [a, b, c]"
    and "2048 \<le> cp_value [a, b, c]" and "cp_value [a, b, c] < 65536"
    and "\<not> (55296 \<le> cp_value [a, b, c] \<and> cp_value [a, b, c] \<le> 57343)"
proof -
  note r = is_cp_ranges(3) [OF assms]
  define x y z where xyz: "x = code_of a - 224" "y = code_of b - 128" "z = code_of c - 128"
  have v: "cp_value [a, b, c] = x * 4096 + y * 64 + z" using r by (simp add: high_bits xyz)
  have b: "x < 16" "y < 64" "z < 64" "x = 0 \<longrightarrow> 32 \<le> y" "x = 13 \<longrightarrow> y < 32"
    "224 + x = code_of a" "128 + y = code_of b" "128 + z = code_of c"
    using r by (auto simp: xyz)
  show lo: "2048 \<le> cp_value [a, b, c]" and hi: "cp_value [a, b, c] < 65536"
    unfolding v using b by (cases "x = 0"; simp)+
  show "cp_bytes (cp_value [a, b, c]) = [a, b, c]"
    using b lo hi unfolding v cp_bytes_def by (simp add: digits64)
  show "\<not> (55296 \<le> cp_value [a, b, c] \<and> cp_value [a, b, c] \<le> 57343)"
    unfolding v using b by (cases "x = 13"; cases "x \<le> 12") simp_all
qed

lemma cp_bytes_value4:
  assumes "is_cp [a, b, c, d]"
  shows "cp_bytes (cp_value [a, b, c, d]) = [a, b, c, d]"
    and "65536 \<le> cp_value [a, b, c, d]" and "cp_value [a, b, c, d] < 1114112"
proof -
  note r = is_cp_ranges(4) [OF assms]
  define x y z w where xyzw: "x = code_of a - 240" "y = code_of b - 128" "z = code_of c - 128"
    "w = code_of d - 128"
  have v: "cp_value [a, b, c, d] = x * 262144 + y * 4096 + z * 64 + w"
    using r by (simp add: high_bits xyzw)
  have b: "x \<le> 4" "y < 64" "z < 64" "w < 64" "x = 0 \<longrightarrow> 16 \<le> y" "x = 4 \<longrightarrow> y < 16"
    "240 + x = code_of a" "128 + y = code_of b" "128 + z = code_of c" "128 + w = code_of d"
    using r by (auto simp: xyzw)
  show lo: "65536 \<le> cp_value [a, b, c, d]" unfolding v using b by (cases "x = 0") simp_all
  show "cp_value [a, b, c, d] < 1114112" unfolding v using b by (cases "x = 4") simp_all
  show "cp_bytes (cp_value [a, b, c, d]) = [a, b, c, d]"
    using b lo unfolding v cp_bytes_def by (simp add: digits64)
qed

lemma cp_shapes:
  assumes "is_cp p"
  obtains (one) a where "p = [a]" | (two) a b where "p = [a, b]"
    | (three) a b c where "p = [a, b, c]" | (four) a b c d where "p = [a, b, c, d]"
  using is_cp_length [OF assms]
  by (auto simp: numeral_eq_Suc length_Suc_conv)

lemma code_points_are_cps:
  assumes "well_formed (encode s)" and "p \<in> set (code_points s)"
  shows "is_cp p"
proof -
  obtain ok q where q: "(ok, q) \<in> set (pieces (encode s))" "p = map char_of_byte q"
    using assms(2) by (auto simp: code_points_def)
  with assms(1) have "(True, q) \<in> set (pieces (encode s))" by (auto simp: well_formed_def)
  moreover have "q \<noteq> []" using q(1) by (rule pieces_nonempty)
  moreover have "utf8_step q = (True, length q)" if "(True, q) \<in> set (pieces bs)" for bs
    using that
  proof (induction bs rule: pieces.induct)
    case (1 bs)
    show ?case
    proof (cases "bs = []")
      case False
      obtain ok' n where step: "utf8_step bs = (ok', n)" by fastforce
      have n: "1 \<le> n" "n \<le> length bs" using utf8_step_le [OF False step] by auto
      from "1.prems" step False have "ok' \<and> q = take n bs \<or> (True, q) \<in> set (pieces (drop n bs))"
        by (subst (asm) pieces.simps) auto
      then show ?thesis
        using step utf8_step_take [OF False, of n] n "1.IH" [OF False] by auto
    qed (use "1.prems" in simp)
  qed
  ultimately show ?thesis by (simp add: is_cp_def q(2))
qed


section \<open>String literals\<close>

definition hex_digit :: "nat \<Rightarrow> char" where
  "hex_digit n = (if n < 10 then char_of (48 + n) else char_of (87 + n))"

definition hex_value :: "char \<Rightarrow> nat option" where
  "hex_value c =
     (let n = code_of c in
      if 48 \<le> n \<and> n \<le> 57 then Some (n - 48)
      else if 97 \<le> n \<and> n \<le> 102 then Some (n - 87)
      else if 65 \<le> n \<and> n \<le> 70 then Some (n - 55) else None)"

definition u_escape :: "nat \<Rightarrow> string" where
  "u_escape n = BACKSLASH # CHR ''u'' #
     map hex_digit [n div 4096 mod 16, n div 256 mod 16, n div 16 mod 16, n mod 16]"

definition short_escapes :: "(char \<times> char) list" where
  "short_escapes = [(DQUOTE, DQUOTE), (BACKSLASH, BACKSLASH), (char_of (10 :: nat), CHR ''n''),
     (char_of (13 :: nat), CHR ''r''), (char_of (9 :: nat), CHR ''t''),
     (char_of (12 :: nat), CHR ''f''), (char_of (8 :: nat), CHR ''b'')]"

definition escape_cp :: "string \<Rightarrow> string" where
  "escape_cp p =
     (let n = cp_value p in
      if length p = 1 \<and> map_of short_escapes (hd p) \<noteq> None
      then [BACKSLASH, the (map_of short_escapes (hd p))]
      else if 32 \<le> n \<and> n \<le> 126 then p
      else if n < 65536 then u_escape n
      else u_escape (55296 + (n - 65536) div 1024) @ u_escape (56320 + (n - 65536) mod 1024))"

definition json_string :: "string \<Rightarrow> string" where
  "json_string s = DQUOTE # concat (map escape_cp (code_points s)) @ [DQUOTE]"

definition unescape :: "char \<Rightarrow> char option" where
  "unescape c = map_of ((CHR ''/'', CHR ''/'') # map (\<lambda>(a, b). (b, a)) short_escapes) c"

text \<open>Four hexadecimal digits, and what follows them.\<close>

fun hex4 :: "string \<Rightarrow> (nat \<times> string) option" where
  "hex4 (a # b # c # d # s) =
     (case (hex_value a, hex_value b, hex_value c, hex_value d) of
        (Some w, Some x, Some y, Some z) \<Rightarrow> Some (w * 4096 + x * 256 + y * 16 + z, s)
      | _ \<Rightarrow> None)"
| "hex4 _ = None"

fun low_escape :: "string \<Rightarrow> (nat \<times> string) option" where
  "low_escape (x # y # s) =
     (if x = BACKSLASH \<and> y = CHR ''u''
      then (case hex4 s of None \<Rightarrow> None
            | Some (v, s') \<Rightarrow> if 56320 \<le> v \<and> v \<le> 57343 then Some (v, s') else None)
      else None)"
| "low_escape _ = None"

definition is_high :: "nat \<Rightarrow> bool" where
  "is_high u \<longleftrightarrow> 55296 \<le> u \<and> u \<le> 56319"

text \<open>An \<open>\u\<close> escape, with the low surrogate that may complete it.\<close>

definition u_unit :: "string \<Rightarrow> (string \<times> string) option" where
  "u_unit s =
     (case hex4 s of None \<Rightarrow> None
      | Some (u, s1) \<Rightarrow>
          (case (if is_high u then low_escape s1 else None) of
             None \<Rightarrow> Some (cp_bytes u, s1)
           | Some (v, s2) \<Rightarrow> Some (cp_bytes (65536 + (u - 55296) * 1024 + (v - 56320)), s2)))"

definition push :: "string \<Rightarrow> (string \<times> string) option \<Rightarrow> (string \<times> string) option" where
  "push a r = map_option (\<lambda>(b, s). (a @ b, s)) r"

lemma hex4_length: "hex4 s = Some (u, t) \<Longrightarrow> length t < length s"
  by (induction s rule: hex4.induct) (auto split: option.splits)

lemma low_escape_length: "low_escape s = Some (u, t) \<Longrightarrow> length t < length s"
  by (induction s rule: low_escape.induct) (auto split: option.splits if_splits dest: hex4_length)

lemma u_unit_length: "u_unit s = Some (u, t) \<Longrightarrow> length t < length s"
  by (auto simp: u_unit_def split: option.splits if_splits dest!: hex4_length low_escape_length)

text \<open>\<open>scanstring\<close>, after the opening quote: the value and what follows the closing quote.\<close>

function scan_string :: "string \<Rightarrow> (string \<times> string) option" where
  "scan_string [] = None"
| "scan_string (c # s) =
     (if c = DQUOTE then Some ([], s)
      else if c = BACKSLASH
      then (case s of [] \<Rightarrow> None
            | e # s1 \<Rightarrow>
                if e = CHR ''u''
                then (case u_unit s1 of None \<Rightarrow> None | Some (x, s2) \<Rightarrow> push x (scan_string s2))
                else (case unescape e of None \<Rightarrow> None | Some x \<Rightarrow> push [x] (scan_string s1)))
      else if code_of c < 32 then None
      else push [c] (scan_string s))"
  by pat_completeness auto
termination
  by (relation "measure length") (auto dest: u_unit_length)

lemma push_simps [simp]: "push a None = None" "push a (Some (b, s)) = Some (a @ b, s)"
  by (simp_all add: push_def)

lemma scan_string_length: "scan_string s = Some (v, t) \<Longrightarrow> length t < length s"
proof (induction s arbitrary: v rule: scan_string.induct)
  case (2 c s)
  then show ?case
    by (fastforce simp: push_def split: if_splits list.splits option.splits dest: u_unit_length)
qed simp

lemma hex_value_digit: "n < 16 \<Longrightarrow> hex_value (hex_digit n) = Some n"
  by (auto simp: hex_value_def hex_digit_def code_of_def Let_def)

lemma hex4_u_escape:
  assumes "n < 65536"
  shows "hex4 (map hex_digit [n div 4096 mod 16, n div 256 mod 16, n div 16 mod 16, n mod 16] @ s)
    = Some (n, s)"
proof -
  define a b c where abc: "a = n div 16" "b = a div 16" "c = b div 16"
  have two: "n div 256 = b" "n div 4096 = c" unfolding abc by (simp_all flip: div_mult2_eq)
  have "a < 4096" unfolding abc(1) using assms by (simp add: div_less_iff_less_mult)
  then have "b < 256" unfolding abc(2) by (simp add: div_less_iff_less_mult)
  then have "c < 16" unfolding abc(3) by (simp add: div_less_iff_less_mult)
  moreover have "n = a * 16 + n mod 16" "a = b * 16 + a mod 16" "b = c * 16 + b mod 16"
    unfolding abc by simp_all
  ultimately show ?thesis
    by (simp add: hex_value_digit two flip: abc(1))
qed

lemma scan_string_u_escape:
  assumes "n < 65536" and "\<not> (55296 \<le> n \<and> n \<le> 57343)"
  shows "scan_string (u_escape n @ s) = push (cp_bytes n) (scan_string s)"
proof -
  have "\<not> is_high n" using assms(2) by (auto simp: is_high_def)
  then have "u_unit (map hex_digit [n div 4096 mod 16, n div 256 mod 16, n div 16 mod 16, n mod 16] @ s)
      = Some (cp_bytes n, s)"
    unfolding u_unit_def hex4_u_escape [OF assms(1)] by simp
  then show ?thesis by (simp add: u_escape_def)
qed

lemma scan_string_surrogates:
  assumes "65536 \<le> n" and "n < 1114112"
  shows "scan_string (u_escape (55296 + (n - 65536) div 1024)
             @ u_escape (56320 + (n - 65536) mod 1024) @ s)
    = push (cp_bytes n) (scan_string s)"
proof -
  define h l where hl: "h = 55296 + (n - 65536) div 1024" "l = 56320 + (n - 65536) mod 1024"
  have "(n - 65536) div 1024 < 1024" using assms by (simp add: div_less_iff_less_mult)
  then have h: "h < 65536" "is_high h" by (auto simp: hl is_high_def)
  have "(n - 65536) mod 1024 < 1024" by simp
  then have l: "l < 65536" "56320 \<le> l" "l \<le> 57343" unfolding hl by linarith+
  have n: "65536 + (h - 55296) * 1024 + (l - 56320) = n" using assms by (simp add: hl)
  have low: "low_escape (u_escape l @ s) = Some (l, s)"
    using hex4_u_escape [OF l(1), of s] l by (simp add: u_escape_def)
  have "u_unit (map hex_digit [h div 4096 mod 16, h div 256 mod 16, h div 16 mod 16, h mod 16]
      @ u_escape l @ s) = Some (cp_bytes n, s)"
    unfolding u_unit_def hex4_u_escape [OF h(1)] by (simp add: h low n del: One_nat_def)
  then show ?thesis by (simp add: u_escape_def flip: hl)
qed

lemma short_escape_cases:
  assumes "map_of short_escapes c = Some e"
  shows "unescape e = Some c \<and> e \<noteq> CHR ''u''"
proof -
  have "(c, e) \<in> set short_escapes" using assms by (rule map_of_SomeD)
  then show ?thesis by (auto simp: short_escapes_def unescape_def)
qed

lemma escape_cp_short:
  assumes "map_of short_escapes c = Some e"
  shows "escape_cp [c] = [BACKSLASH, e]"
  using assms by (simp add: escape_cp_def)

lemma scan_string_escape_cp:
  assumes "is_cp p"
  shows "scan_string (escape_cp p @ s) = push p (scan_string s)"
  using assms
proof (cases rule: cp_shapes)
  case (one a)
  have lt: "code_of a < 128" using assms by (simp add: one is_cp_ranges)
  have bytes: "cp_bytes (code_of a) = [a]" using lt by (simp add: cp_bytes_def)
  show ?thesis
  proof (cases "map_of short_escapes a")
    case (Some e)
    then show ?thesis using short_escape_cases [OF Some] by (simp add: one escape_cp_short)
  next
    case None
    then have "a \<noteq> DQUOTE" "a \<noteq> BACKSLASH" by (auto simp: short_escapes_def split: if_splits)
    moreover have "escape_cp p = (if 32 \<le> code_of a \<and> code_of a \<le> 126 then [a] else u_escape (code_of a))"
      using None lt by (simp add: one escape_cp_def Let_def)
    moreover have "scan_string (u_escape (code_of a) @ s) = push [a] (scan_string s)"
      using scan_string_u_escape [of "code_of a" s] lt by (simp add: bytes)
    ultimately show ?thesis by (simp add: one)
  qed
next
  case (two a b)
  note v = cp_bytes_value2 [OF assms [unfolded two]]
  have "escape_cp p = u_escape (cp_value p)" using v by (simp add: two escape_cp_def Let_def)
  with v scan_string_u_escape [of "cp_value p" s] show ?thesis by (simp add: two)
next
  case (three a b c)
  note v = cp_bytes_value3 [OF assms [unfolded three]]
  have "escape_cp p = u_escape (cp_value p)" using v by (simp add: three escape_cp_def Let_def)
  with v scan_string_u_escape [of "cp_value p" s] show ?thesis by (simp add: three)
next
  case (four a b c d)
  note v = cp_bytes_value4 [OF assms [unfolded four]]
  have "escape_cp p = u_escape (55296 + (cp_value p - 65536) div 1024)
      @ u_escape (56320 + (cp_value p - 65536) mod 1024)"
    using v by (simp add: four escape_cp_def Let_def)
  with v scan_string_surrogates [of "cp_value p" s] show ?thesis by (simp add: four)
qed

lemma push_push: "push a (push b r) = push (a @ b) r"
  by (cases r) (auto simp: push_def)

lemma scan_json_string:
  assumes "well_formed (encode v)"
  shows "scan_string (tl (json_string v) @ s) = Some (v, s)"
proof -
  have "scan_string (concat (map escape_cp ps) @ DQUOTE # s) = Some (concat ps, s)"
    if "\<forall>p \<in> set ps. is_cp p" for ps
    using that by (induction ps) (simp_all add: scan_string_escape_cp)
  moreover have "\<forall>p \<in> set (code_points v). is_cp p" using assms code_points_are_cps by blast
  ultimately show ?thesis by (simp add: json_string_def concat_code_points)
qed


section \<open>Numbers\<close>

definition exponent_part :: "string \<Rightarrow> string" where
  "exponent_part s =
     (case s of [] \<Rightarrow> []
      | e # r \<Rightarrow>
          if e = CHR ''e'' \<or> e = CHR ''E''
          then (let sg = (if r \<noteq> [] \<and> (hd r = CHR ''+'' \<or> hd r = CHR ''-'') then [hd r] else []);
                    ds = takeWhile is_digit (drop (length sg) r)
                in if ds = [] then [] else e # sg @ ds)
          else [])"

definition fraction_part :: "string \<Rightarrow> string" where
  "fraction_part s =
     (case s of [] \<Rightarrow> []
      | d # r \<Rightarrow>
          if d = CHR ''.'' \<and> takeWhile is_digit r \<noteq> [] then d # takeWhile is_digit r else [])"

definition integer_part :: "string \<Rightarrow> string" where
  "integer_part s =
     (let ds = takeWhile is_digit s in if ds \<noteq> [] \<and> hd ds = CHR ''0'' then [CHR ''0''] else ds)"

definition scan_number :: "string \<Rightarrow> (json \<times> string) option" where
  "scan_number s =
     (let sg = (if s \<noteq> [] \<and> hd s = CHR ''-'' then [CHR ''-''] else []);
          s1 = drop (length sg) s; ds = integer_part s1;
          s2 = drop (length ds) s1; fr = fraction_part s2;
          s3 = drop (length fr) s2; ex = exponent_part s3;
          value = int (digits_value 0 ds)
      in if ds = [] then None
         else if fr = [] \<and> ex = [] then Some (JInt (if sg = [] then value else - value), s2)
         else Some (JFloat (sg @ ds @ fr @ ex), drop (length ex) s3))"

text \<open>What may follow a number without becoming a part of it.\<close>

definition ends_number :: "string \<Rightarrow> bool" where
  "ends_number s \<longleftrightarrow>
     (s = [] \<or> \<not> is_digit (hd s) \<and> hd s \<noteq> CHR ''.'' \<and> hd s \<noteq> CHR ''e'' \<and> hd s \<noteq> CHR ''E'')"

lemma takeWhile_digits:
  "\<forall>c \<in> set ds. is_digit c \<Longrightarrow> ends_number r \<Longrightarrow> takeWhile is_digit (ds @ r) = ds"
  by (induction ds) (auto simp: ends_number_def takeWhile_eq_Nil_iff)

lemma ends_number_parts: "ends_number r \<Longrightarrow> fraction_part r = [] \<and> exponent_part r = []"
  by (cases r) (auto simp: ends_number_def fraction_part_def exponent_part_def)

lemma digit_char_0: "digit_char 0 = CHR ''0''"
  by code_simp

lemma hd_str_of_nat_zero: "hd (str_of_nat n) = CHR ''0'' \<longleftrightarrow> n = 0"
proof (induction n rule: str_of_nat.induct)
  case (1 n)
  have "digit_char k = CHR ''0'' \<longleftrightarrow> k = 0" if "k < 10" for k
  proof
    assume "digit_char k = CHR ''0''"
    then have "digit_value (digit_char k) = digit_value (CHR ''0'')" by simp
    then show "k = 0" using digit_char_simps(2) [OF that] by (simp add: digit_value_def)
  qed (simp add: digit_char_0)
  with 1 show ?case by (subst str_of_nat.simps) (auto simp: hd_append)
qed

lemma integer_part_str_of_nat:
  assumes "ends_number r"
  shows "integer_part (str_of_nat n @ r) = str_of_nat n"
proof -
  have "takeWhile is_digit (str_of_nat n @ r) = str_of_nat n"
    using assms by (intro takeWhile_digits) (auto dest: str_of_nat_digits)
  moreover have "str_of_nat 0 = [CHR ''0'']" by (subst str_of_nat.simps) (simp add: digit_char_0)
  ultimately show ?thesis by (simp add: integer_part_def hd_str_of_nat_zero)
qed

lemma scan_number_str_of_int:
  assumes "ends_number r"
  shows "scan_number (str_of_int i @ r) = Some (JInt i, r)"
proof -
  note parts = integer_part_str_of_nat [OF assms] ends_number_parts [OF assms]
  have sign: "hd (str_of_nat n) \<noteq> CHR ''-''" for n
    using str_of_nat_digits [of "hd (str_of_nat n)" n] not_digit_minus by (auto simp: hd_append)
  have drop: "drop (length (str_of_nat n)) (str_of_nat n @ r) = r" for n by simp
  show ?thesis
  proof (cases "i < 0")
    case True
    then have i: "str_of_int i = CHR ''-'' # str_of_nat (nat (- i))" by (simp add: str_of_int_def)
    have "int (nat (- i)) = - i" using True by simp
    then show ?thesis
      unfolding scan_number_def i Let_def
      by (simp add: parts digits_value_str_of_nat drop del: drop_append length_append)
  next
    case False
    then have i: "str_of_int i = str_of_nat (nat i)" by (simp add: str_of_int_def)
    have "int (nat i) = i" using False by simp
    then show ?thesis
      unfolding scan_number_def i Let_def
      by (simp add: parts digits_value_str_of_nat sign drop del: drop_append length_append)
  qed
qed


section \<open>Values\<close>

abbreviation json_space :: "char \<Rightarrow> bool" where
  "json_space c \<equiv> c = CHR '' '' \<or> c = CHR 0x09 \<or> c = CHR 0x0A \<or> c = CHR 0x0D"

definition skip :: "string \<Rightarrow> string" where
  "skip s = dropWhile json_space s"

text \<open>\<open>d[k] = v\<close> on the list of items of a dict.\<close>

fun dict_set :: "(string \<times> 'a) list \<Rightarrow> string \<Rightarrow> 'a \<Rightarrow> (string \<times> 'a) list" where
  "dict_set [] k v = [(k, v)]"
| "dict_set ((k', v') # d) k v = (if k' = k then (k, v) # d else (k', v') # dict_set d k v)"

definition dict_of :: "(string \<times> 'a) list \<Rightarrow> (string \<times> 'a) list" where
  "dict_of kvs = fold (\<lambda>(k, v) d. dict_set d k v) kvs []"

definition expect :: "char \<Rightarrow> string \<Rightarrow> string option" where
  "expect c s = (case s of [] \<Rightarrow> None | d # r \<Rightarrow> if d = c then Some r else None)"

definition scan_literal :: "string \<Rightarrow> (json \<times> string) option" where
  "scan_literal s =
     (if startswith s ''null'' then Some (JNull, drop 4 s)
      else if startswith s ''true'' then Some (JBool True, drop 4 s)
      else if startswith s ''false'' then Some (JBool False, drop 5 s)
      else scan_number s)"

text \<open>The scanner, with fuel: every second nested call has consumed a character, so twice the length
  of the text is enough.\<close>

fun scan_value :: "nat \<Rightarrow> string \<Rightarrow> (json \<times> string) option"
and scan_members :: "nat \<Rightarrow> string \<Rightarrow> ((string \<times> json) list \<times> string) option"
and scan_items :: "nat \<Rightarrow> string \<Rightarrow> (json list \<times> string) option" where
  "scan_value 0 s = None"
| "scan_value (Suc n) s =
     (if s = [] then None
      else if hd s = DQUOTE then map_option (\<lambda>(v, t). (JStr v, t)) (scan_string (tl s))
      else if hd s = CHR ''{''
      then (case expect (CHR ''}'') (skip (tl s)) of Some t \<Rightarrow> Some (JObj [], t)
            | None \<Rightarrow> map_option (\<lambda>(d, t). (JObj (dict_of d), t)) (scan_members n (skip (tl s))))
      else if hd s = CHR ''[''
      then (case expect (CHR '']'') (skip (tl s)) of Some t \<Rightarrow> Some (JList [], t)
            | None \<Rightarrow> map_option (\<lambda>(l, t). (JList l, t)) (scan_items n (skip (tl s))))
      else scan_literal s)"
| "scan_members 0 s = None"
| "scan_members (Suc n) s =
     (case Option.bind (expect DQUOTE s) scan_string of None \<Rightarrow> None
      | Some (k, t) \<Rightarrow>
     (case Option.bind (expect (CHR '':'') (skip t)) (\<lambda>t1. scan_value n (skip t1)) of None \<Rightarrow> None
      | Some (v, t2) \<Rightarrow>
     (case expect (CHR ''}'') (skip t2) of Some t3 \<Rightarrow> Some ([(k, v)], t3)
      | None \<Rightarrow>
     (case Option.bind (expect (CHR '','') (skip t2)) (\<lambda>t3. scan_members n (skip t3)) of None \<Rightarrow> None
      | Some (d, t4) \<Rightarrow> Some ((k, v) # d, t4)))))"
| "scan_items 0 s = None"
| "scan_items (Suc n) s =
     (case scan_value n s of None \<Rightarrow> None
      | Some (v, t) \<Rightarrow>
     (case expect (CHR '']'') (skip t) of Some t1 \<Rightarrow> Some ([v], t1)
      | None \<Rightarrow>
     (case Option.bind (expect (CHR '','') (skip t)) (\<lambda>t1. scan_items n (skip t1)) of None \<Rightarrow> None
      | Some (l, t2) \<Rightarrow> Some (v # l, t2))))"

definition json_error :: exn where
  "json_error = ValueError ''invalid JSON''"

definition json_loads :: "string \<Rightarrow> json result" where
  "json_loads s =
     (case scan_value (Suc (2 * length s)) (skip s) of None \<Rightarrow> Inl json_error
      | Some (v, t) \<Rightarrow> if skip t = [] then Inr v else Inl json_error)"

fun dumps :: "string \<Rightarrow> string \<Rightarrow> json \<Rightarrow> string"
and dump_items :: "string \<Rightarrow> string \<Rightarrow> json list \<Rightarrow> string"
and dump_members :: "string \<Rightarrow> string \<Rightarrow> (string \<times> json) list \<Rightarrow> string" where
  "dumps isep ksep JNull = ''null''"
| "dumps isep ksep (JBool b) = (if b then ''true'' else ''false'')"
| "dumps isep ksep (JInt i) = str_of_int i"
| "dumps isep ksep (JFloat lit) = lit"
| "dumps isep ksep (JStr s) = json_string s"
| "dumps isep ksep (JList xs) = ''['' @ dump_items isep ksep xs @ '']''"
| "dumps isep ksep (JObj kvs) = ''{'' @ dump_members isep ksep kvs @ ''}''"
| "dump_items isep ksep [] = []"
| "dump_items isep ksep [x] = dumps isep ksep x"
| "dump_items isep ksep (x # y # r) = dumps isep ksep x @ isep @ dump_items isep ksep (y # r)"
| "dump_members isep ksep [] = []"
| "dump_members isep ksep [(k, v)] = json_string k @ ksep @ dumps isep ksep v"
| "dump_members isep ksep ((k, v) # m # r) =
     json_string k @ ksep @ dumps isep ksep v @ isep @ dump_members isep ksep (m # r)"

text \<open>\<open>json.dumps(value)\<close> and \<open>json.dumps(value, separators=(",", ":"))\<close>.\<close>

definition json_dumps :: "json \<Rightarrow> string" where
  "json_dumps v = dumps '', '' '': '' v"

definition json_compact :: "json \<Rightarrow> string" where
  "json_compact v = dumps '','' '':'' v"


section \<open>Enough fuel\<close>

lemma skip_length: "length (skip s) \<le> length s"
  by (simp add: skip_def length_dropWhile_le)

lemma expect_length: "expect c s = Some t \<Longrightarrow> length s = Suc (length t)"
  by (auto simp: expect_def split: list.splits if_splits)

lemma integer_part_length: "length (integer_part s) \<le> length s"
  by (cases s) (auto simp: integer_part_def Let_def intro: order_trans [OF length_takeWhile_le])

lemma scan_number_length: "scan_number s = Some (v, t) \<Longrightarrow> length t < length s"
proof -
  assume *: "scan_number s = Some (v, t)"
  define sg where "sg = (if s \<noteq> [] \<and> hd s = CHR ''-'' then [CHR ''-''] else [])"
  define ds where "ds = integer_part (drop (length sg) s)"
  have "ds \<noteq> []" and le: "length t \<le> length (drop (length ds) (drop (length sg) s))"
    using * unfolding scan_number_def Let_def sg_def ds_def by (auto split: if_splits)
  then have "0 < length ds" by blast
  moreover have "length ds \<le> length (drop (length sg) s)" unfolding ds_def by (rule integer_part_length)
  ultimately show ?thesis using le by (cases ds) auto
qed

lemma scan_literal_length: "scan_literal s = Some (v, t) \<Longrightarrow> length t < length s"
proof -
  assume *: "scan_literal s = Some (v, t)"
  have "s \<noteq> []" if "startswith s (c # w)" for c w using that by auto
  with * scan_number_length show ?thesis
    by (fastforce simp: scan_literal_def split: if_splits)
qed

lemma less_skip: "n < length (skip s) \<Longrightarrow> n < length s"
  using skip_length [of s] by linarith

lemma expect_skip_length: "expect c (skip s) = Some t \<Longrightarrow> length t < length s"
  using skip_length [of s] by (auto dest!: expect_length)

lemma scan_members_Some:
  assumes "scan_members (Suc n) s = Some (d, t)"
  obtains s1 k t1 t2 v t3 where "expect DQUOTE s = Some s1" "scan_string s1 = Some (k, t1)"
    "expect (CHR '':'') (skip t1) = Some t2" "scan_value n (skip t2) = Some (v, t3)"
    "(expect (CHR ''}'') (skip t3) = Some t \<and> d = [(k, v)]) \<or>
     (\<exists>t4 d'. expect (CHR ''}'') (skip t3) = None \<and> expect (CHR '','') (skip t3) = Some t4
        \<and> scan_members n (skip t4) = Some (d', t) \<and> d = (k, v) # d')"
  using assms by (auto split: option.splits bind_splits)

lemma scan_items_Some:
  assumes "scan_items (Suc n) s = Some (l, t)"
  obtains v t1 where "scan_value n s = Some (v, t1)"
    "(expect (CHR '']'') (skip t1) = Some t \<and> l = [v]) \<or>
     (\<exists>t2 l'. expect (CHR '']'') (skip t1) = None \<and> expect (CHR '','') (skip t1) = Some t2
        \<and> scan_items n (skip t2) = Some (l', t) \<and> l = v # l')"
  using assms by (auto split: option.splits bind_splits)

lemma scan_lengths:
  "(\<forall>v t. scan_value n s = Some (v, t) \<longrightarrow> length t < length s)
    \<and> (\<forall>d t. scan_members n s = Some (d, t) \<longrightarrow> length t < length s)
    \<and> (\<forall>l t. scan_items n s = Some (l, t) \<longrightarrow> length t < length s)"
proof (induction n arbitrary: s)
  case (Suc n)
  have tl: "length (skip (tl s)) < length s" if "s \<noteq> []"
    using that skip_length [of "tl s"] by (cases s) auto
  have "length t < length s" if "scan_value (Suc n) s = Some (v, t)" for v t
  proof (cases "s = [] \<or> hd s = DQUOTE")
    case True
    with that show ?thesis by (cases s) (auto dest!: scan_string_length)
  next
    case False
    with that tl Suc [of "skip (tl s)"] show ?thesis
      by (auto split: if_splits option.splits dest!: expect_length scan_literal_length)
  qed
  moreover have "length t < length s" if "scan_members (Suc n) s = Some (d, t)" for d t
    using that
  proof (cases rule: scan_members_Some)
    case (1 s1 k t1 t2 v t3)
    have "length t1 < length s" using 1(1,2) by (auto dest!: expect_length scan_string_length)
    moreover have "length t2 < length t1" by (rule expect_skip_length [OF 1(3)])
    moreover have "length t3 < length t2" using Suc [of "skip t2"] 1(4) by (blast intro: less_skip)
    moreover have "length t < length t3"
      using 1(5) Suc by (blast dest: expect_skip_length less_skip intro: less_trans)
    ultimately show ?thesis by linarith
  qed
  moreover have "length t < length s" if "scan_items (Suc n) s = Some (l, t)" for l t
    using that
  proof (cases rule: scan_items_Some)
    case (1 v t1)
    have "length t1 < length s" using Suc [of s] 1(1) by blast
    moreover have "length t < length t1"
      using 1(2) Suc by (blast dest: expect_skip_length less_skip intro: less_trans)
    ultimately show ?thesis by linarith
  qed
  ultimately show ?case by blast
qed simp

lemma scan_value_length: "scan_value n s = Some (v, t) \<Longrightarrow> length t < length s"
  using scan_lengths by blast

text \<open>More fuel than twice the length of the text changes nothing.\<close>

lemma scan_fuel:
  "(2 * length s < n \<longrightarrow> scan_value (Suc n) s = scan_value n s)
    \<and> (2 * length s < n \<longrightarrow> scan_members (Suc n) s = scan_members n s)
    \<and> (2 * length s + 1 < n \<longrightarrow> scan_items (Suc n) s = scan_items n s)"
proof (induction n arbitrary: s)
  case (Suc n)
  note IH = Suc
  have vals: "scan_value (Suc n) (skip t) = scan_value n (skip t)"
    and members: "scan_members (Suc n) (skip t) = scan_members n (skip t)"
    and items: "2 * length t + 1 < n \<Longrightarrow> scan_items (Suc n) (skip t) = scan_items n (skip t)"
    if "2 * length t < n" for t
    using IH [of "skip t"] skip_length [of t] that by auto
  have "scan_value (Suc (Suc n)) s = scan_value (Suc n) s" if "2 * length s < Suc n"
  proof (cases s)
    case (Cons c r)
    then have "2 * length r + 1 < n" using that by simp
    then show ?thesis
      using members [of r] items [of r]
      by (simp add: Cons del: scan_members.simps scan_items.simps cong: option.case_cong)
  qed simp
  moreover have "scan_members (Suc (Suc n)) s = scan_members (Suc n) s" if m: "2 * length s < Suc n"
  proof (cases "Option.bind (expect DQUOTE s) scan_string")
    case (Some kt)
    obtain k t where kt: "kt = (k, t)" by fastforce
    with Some have t: "Suc (length t) < length s"
      by (auto dest!: expect_length scan_string_length split: bind_splits)
    have v: "scan_value (Suc n) (skip t') = scan_value n (skip t')" if "expect c (skip t) = Some t'" for c t'
      using vals [of t'] m t expect_skip_length [OF that] by linarith
    have d: "scan_members (Suc n) (skip t') = scan_members n (skip t')"
      if "expect c (skip t) = Some t1" "scan_value n (skip t1) = Some (v, t2)"
        "expect c' (skip t2) = Some t'" for c c' t1 t2 t' v
      using members [of t'] m t expect_skip_length [OF that(1)] expect_skip_length [OF that(3)]
        less_skip [OF scan_value_length [OF that(2)]] by linarith
    show ?thesis
      unfolding scan_members.simps(2) [of "Suc n" s] scan_members.simps(2) [of n s] Some kt
      using v d by (auto simp del: scan_value.simps scan_members.simps split: option.splits bind_splits)
  qed simp
  moreover have "scan_items (Suc (Suc n)) s = scan_items (Suc n) s" if m: "2 * length s + 1 < Suc n"
  proof -
    have v: "scan_value (Suc n) s = scan_value n s" using IH [of s] m by simp
    have l: "scan_items (Suc n) (skip t') = scan_items n (skip t')"
      if "scan_value n s = Some (v, t1)" "expect c (skip t1) = Some t'" for c v t1 t'
      using items [of t'] m scan_value_length [OF that(1)] expect_skip_length [OF that(2)] by linarith
    show ?thesis
      unfolding scan_items.simps(2) [of "Suc n" s] scan_items.simps(2) [of n s] v
      using l by (auto simp del: scan_items.simps split: option.splits bind_splits)
  qed
  ultimately show ?case by blast
qed simp

lemma scan_value_enough:
  assumes "2 * length s < n"
  shows "scan_value n s = scan_value (Suc (2 * length s)) s"
proof -
  have "scan_value (k + Suc (2 * length s)) s = scan_value (Suc (2 * length s)) s" for k
    using scan_fuel [of s] by (induction k) (auto simp del: scan_value.simps)
  from this [of "n - Suc (2 * length s)"] assms show ?thesis by simp
qed


section \<open>Round trip\<close>

text \<open>The values \<open>dumps\<close> is inverted on: no floats, text that is Unicode, keys without repetition.\<close>

fun json_ok :: "json \<Rightarrow> bool"
and items_ok :: "json list \<Rightarrow> bool"
and members_ok :: "(string \<times> json) list \<Rightarrow> bool" where
  "json_ok JNull = True"
| "json_ok (JBool b) = True"
| "json_ok (JInt i) = True"
| "json_ok (JFloat lit) = False"
| "json_ok (JStr s) = well_formed (encode s)"
| "json_ok (JList xs) = items_ok xs"
| "json_ok (JObj kvs) = (distinct (map fst kvs) \<and> members_ok kvs)"
| "items_ok [] = True"
| "items_ok (x # xs) = (json_ok x \<and> items_ok xs)"
| "members_ok [] = True"
| "members_ok ((k, v) # kvs) = (well_formed (encode k) \<and> json_ok v \<and> members_ok kvs)"

lemma expect_Cons [simp]: "expect c (d # r) = (if d = c then Some r else None)"
  by (simp add: expect_def)

lemma expect_Nil [simp]: "expect c [] = None"
  by (simp add: expect_def)

lemma skip_Cons [simp]: "skip (c # s) = (if json_space c then skip s else c # s)"
  by (simp add: skip_def)

lemma skip_blank: "\<forall>c \<in> set w. json_space c \<Longrightarrow> skip (w @ s) = skip s"
  by (induction w) (auto simp: skip_def)

lemma dict_set_new: "k \<notin> fst ` set d \<Longrightarrow> dict_set d k v = d @ [(k, v)]"
  by (induction d k v rule: dict_set.induct) auto

lemma dict_of_distinct: "distinct (map fst kvs) \<Longrightarrow> dict_of kvs = kvs"
proof -
  have "distinct (map fst (d @ kvs)) \<Longrightarrow> fold (\<lambda>(k, v) d. dict_set d k v) kvs d = d @ kvs" for d
  proof (induction kvs arbitrary: d)
    case (Cons kv kvs)
    obtain k v where kv: "kv = (k, v)" by fastforce
    then have "k \<notin> fst ` set d" using Cons.prems by auto
    then show ?case using Cons.IH [of "d @ [(k, v)]"] Cons.prems by (simp add: kv dict_set_new)
  qed simp
  from this [of "[]"] show "distinct (map fst kvs) \<Longrightarrow> dict_of kvs = kvs" by (simp add: dict_of_def)
qed

lemma json_string_Cons: "json_string s = DQUOTE # tl (json_string s)"
  by (simp add: json_string_def)

definition number_start :: "char \<Rightarrow> bool" where
  "number_start c \<longleftrightarrow> is_digit c \<or> c = CHR ''-''"

lemma number_start_facts:
  "number_start c \<Longrightarrow> \<not> json_space c \<and> c \<noteq> CHR '']'' \<and> c \<noteq> DQUOTE \<and> c \<noteq> CHR ''{''
     \<and> c \<noteq> CHR ''['' \<and> c \<noteq> CHR ''n'' \<and> c \<noteq> CHR ''t'' \<and> c \<noteq> CHR ''f''"
  by (auto simp: number_start_def is_digit_def)

lemma str_of_int_Cons: "\<exists>c r. str_of_int i = c # r \<and> number_start c"
proof -
  have "\<exists>c r. str_of_nat n = c # r \<and> is_digit c" for n
    by (metis list.exhaust str_of_nat_hd_digit str_of_nat_not_Nil)
  then show ?thesis by (fastforce simp: str_of_int_def number_start_def)
qed

lemma dumps_start: "json_ok v \<Longrightarrow> \<exists>c r. dumps isep ksep v = c # r \<and> \<not> json_space c \<and> c \<noteq> CHR '']''"
proof (cases v)
  case (JInt i)
  obtain c r where "str_of_int i = c # r" and "number_start c" using str_of_int_Cons by blast
  with JInt show ?thesis by (auto dest: number_start_facts)
qed (auto simp: json_string_def)

lemma skip_dumps: "json_ok v \<Longrightarrow> skip (dumps isep ksep v @ s) = dumps isep ksep v @ s"
  using dumps_start [of v isep ksep] by (auto simp: Cons_eq_append_conv)

lemma scan_literal_int:
  assumes "ends_number r"
  shows "scan_value (Suc n) (str_of_int i @ r) = Some (JInt i, r)"
proof -
  obtain c w where c: "str_of_int i = c # w" "number_start c" using str_of_int_Cons by blast
  with number_start_facts [OF c(2)] scan_number_str_of_int [OF assms, of i]
  show ?thesis by (auto simp: scan_literal_def)
qed

definition separators :: "string \<Rightarrow> string \<Rightarrow> bool" where
  "separators isep ksep \<longleftrightarrow>
     (\<exists>w1 w2. isep = CHR '','' # w1 \<and> ksep = CHR '':'' # w2
        \<and> (\<forall>c \<in> set w1. json_space c) \<and> (\<forall>c \<in> set w2. json_space c))"

lemma expect_dumps:
  "json_ok v \<Longrightarrow> expect (CHR '']'') (skip (dumps isep ksep v @ s)) = None"
  using dumps_start [of v isep ksep] by (auto simp: Cons_eq_append_conv)

lemma ends_number_bracket [simp]:
  "ends_number (CHR '']'' # s)" "ends_number (CHR ''}'' # s)" "ends_number (CHR '','' # s)"
  "ends_number []"
  by (simp_all add: ends_number_def is_digit_def)

lemma separators_skip:
  assumes "separators isep ksep"
  obtains w1 w2 where "isep = CHR '','' # w1" "ksep = CHR '':'' # w2"
    "\<And>s. skip (w1 @ s) = skip s" "\<And>s. skip (w2 @ s) = skip s"
  using assms skip_blank by (auto simp: separators_def)

lemma dump_members_start: "kvs \<noteq> [] \<Longrightarrow> \<exists>r. dump_members isep ksep kvs = DQUOTE # r"
  by (cases "(isep, ksep, kvs)" rule: dump_members.cases) (auto simp: json_string_def)

lemma skip_members: "kvs \<noteq> [] \<Longrightarrow> skip (dump_members isep ksep kvs @ s) = dump_members isep ksep kvs @ s"
  using dump_members_start [of kvs isep ksep] by (auto simp: Cons_eq_append_conv)

lemma skip_items:
  "items_ok xs \<Longrightarrow> xs \<noteq> [] \<Longrightarrow> skip (dump_items isep ksep xs @ s) = dump_items isep ksep xs @ s
     \<and> expect (CHR '']'') (dump_items isep ksep xs @ s) = None"
proof (cases xs)
  case (Cons x ys)
  assume "items_ok xs"
  with Cons dumps_start [of x isep ksep] obtain c r where
    c: "dumps isep ksep x = c # r" "\<not> json_space c" "c \<noteq> CHR '']''" by auto
  have "\<exists>r'. dump_items isep ksep xs = c # r'" using Cons c by (cases ys) auto
  with c show ?thesis by auto
qed simp

lemma scan_dumps:
  "separators isep ksep \<Longrightarrow> json_ok v \<Longrightarrow> ends_number r \<Longrightarrow> 2 * length (dumps isep ksep v) < n \<Longrightarrow>
      scan_value n (dumps isep ksep v @ r) = Some (v, r)"
  "separators isep ksep \<Longrightarrow> items_ok xs \<Longrightarrow> xs \<noteq> [] \<Longrightarrow> 2 * length (dump_items isep ksep xs) + 1 < n \<Longrightarrow>
      scan_items n (dump_items isep ksep xs @ CHR '']'' # r) = Some (xs, r)"
  "separators isep ksep \<Longrightarrow> members_ok kvs \<Longrightarrow> kvs \<noteq> [] \<Longrightarrow> 2 * length (dump_members isep ksep kvs) < n \<Longrightarrow>
      scan_members n (dump_members isep ksep kvs @ CHR ''}'' # r) = Some (kvs, r)"
proof (induction isep ksep v and isep ksep xs and isep ksep kvs arbitrary: n r and n r and n r
    rule: dumps_dump_items_dump_members.induct)
  case (1 isep ksep)
  then show ?case by (cases n) (auto simp: scan_literal_def)
next
  case (2 isep ksep b)
  then show ?case by (cases n) (auto simp: scan_literal_def)
next
  case (3 isep ksep i)
  then show ?case by (cases n) (auto simp del: scan_value.simps simp: scan_literal_int)
next
  case (5 isep ksep s)
  obtain t where t: "json_string s = DQUOTE # t" by (simp add: json_string_def)
  have "scan_string (t @ r) = Some (s, r)" using 5 scan_json_string [of s r] by (simp add: t)
  with 5 show ?case by (cases n) (simp_all add: t)
next
  case (6 isep ksep xs)
  then obtain m where n: "n = Suc m" by (cases n) auto
  show ?case
  proof (cases "xs = []")
    case False
    with 6 n skip_items [of xs isep ksep "CHR '']'' # r"] show ?thesis by simp
  qed (simp add: n)
next
  case (7 isep ksep kvs)
  then obtain m where n: "n = Suc m" by (cases n) auto
  show ?case
  proof (cases "kvs = []")
    case False
    obtain w where w: "dump_members isep ksep kvs = DQUOTE # w" using dump_members_start [OF False] by blast
    have "expect (CHR ''}'') (dump_members isep ksep kvs @ CHR ''}'' # r) = None" by (simp add: w)
    with 7 n False skip_members [OF False, of isep ksep "CHR ''}'' # r"] show ?thesis
      by (simp add: dict_of_distinct)
  qed (simp add: n)
next
  case (9 isep ksep x)
  then obtain m where n: "n = Suc m" "2 * length (dumps isep ksep x) < m" by (cases n) auto
  with 9 have "scan_value m (dumps isep ksep x @ CHR '']'' # r) = Some (x, CHR '']'' # r)" by simp
  then show ?case by (simp add: n)
next
  case (10 isep ksep x y ys)
  obtain w1 where w: "isep = CHR '','' # w1" "\<And>s. skip (w1 @ s) = skip s"
    using separators_skip [OF 10(3)] by blast
  obtain m where n: "n = Suc m" using 10 by (cases n) auto
  let ?t = "dump_items isep ksep (y # ys) @ CHR '']'' # r"
  have "scan_value m (dumps isep ksep x @ isep @ ?t) = Some (x, isep @ ?t)"
    using 10 by (simp add: n w(1))
  moreover have "scan_items m ?t = Some (y # ys, r)" using 10 by (simp add: n w(1))
  moreover have "skip ?t = ?t" using 10(4) skip_items [of "y # ys" isep ksep] by simp
  ultimately show ?case by (simp add: n w del: dump_items.simps(2,3)) (simp add: w)
next
  case (12 isep ksep k v)
  obtain w2 where w: "ksep = CHR '':'' # w2" "\<And>s. skip (w2 @ s) = skip s"
    using separators_skip [OF 12(2)] by blast
  obtain m where n: "n = Suc m" using 12 by (cases n) auto
  have "scan_value m (dumps isep ksep v @ CHR ''}'' # r) = Some (v, CHR ''}'' # r)"
    using 12 by (simp add: n w(1))
  moreover obtain t where t: "json_string k = DQUOTE # t" by (simp add: json_string_def)
  have "scan_string (t @ ksep @ dumps isep ksep v @ CHR ''}'' # r)
      = Some (k, ksep @ dumps isep ksep v @ CHR ''}'' # r)"
    using 12 scan_json_string [of k] by (simp add: t)
  ultimately show ?case using 12 by (simp add: n w skip_dumps t)
next
  case (13 isep ksep k v kv kvs)
  obtain w1 w2 where w: "isep = CHR '','' # w1" "ksep = CHR '':'' # w2"
    "\<And>s. skip (w1 @ s) = skip s" "\<And>s. skip (w2 @ s) = skip s"
    using separators_skip [OF 13(3)] by blast
  obtain m where n: "n = Suc m" using 13 by (cases n) auto
  let ?t = "dump_members isep ksep (kv # kvs) @ CHR ''}'' # r"
  have "scan_value m (dumps isep ksep v @ isep @ ?t) = Some (v, isep @ ?t)"
    using 13 by (simp add: n w(1,2))
  moreover have "scan_members m ?t = Some (kv # kvs, r)" using 13 by (simp add: n w(1,2))
  moreover obtain t where t: "json_string k = DQUOTE # t" by (simp add: json_string_def)
  have "scan_string (t @ ksep @ dumps isep ksep v @ isep @ ?t)
      = Some (k, ksep @ dumps isep ksep v @ isep @ ?t)"
    using 13(4) scan_json_string [of k] by (simp add: t)
  moreover have "skip ?t = ?t" using skip_members by blast
  ultimately show ?case using 13(4)
    by (simp add: n) (simp add: w skip_dumps t del: dump_members.simps(2))
qed simp_all

lemma json_loads_dumps:
  assumes "separators isep ksep" and "json_ok v"
  shows "json_loads (dumps isep ksep v) = Inr v"
proof -
  have "skip (dumps isep ksep v) = dumps isep ksep v"
    using skip_dumps [OF assms(2), of isep ksep "[]"] by simp
  moreover have "scan_value (Suc (2 * length (dumps isep ksep v))) (dumps isep ksep v) = Some (v, [])"
    using scan_dumps(1) [OF assms, of "[]"] by (simp del: scan_value.simps)
  ultimately show ?thesis by (simp add: json_loads_def skip_def del: scan_value.simps)
qed

lemma json_loads_compact: "json_ok v \<Longrightarrow> json_loads (json_compact v) = Inr v"
  unfolding json_compact_def by (rule json_loads_dumps) (auto simp: separators_def)

lemma json_loads_default: "json_ok v \<Longrightarrow> json_loads (json_dumps v) = Inr v"
  unfolding json_dumps_def by (rule json_loads_dumps) (auto simp: separators_def)


section \<open>Reading values\<close>

text \<open>The dynamically typed operations the program applies to decoded values.\<close>

definition attribute_error :: exn where
  "attribute_error = AttributeError ''no such attribute''"

definition type_error :: exn where
  "type_error = TypeError ''unsupported type''"

text \<open>\<open>d.get(k, default)\<close>: only a dict has \<open>get\<close>.\<close>

definition get_or :: "json \<Rightarrow> string \<Rightarrow> json \<Rightarrow> json result" where
  "get_or d k dflt =
     (case d of JObj kvs \<Rightarrow> Inr (case map_of kvs k of None \<Rightarrow> dflt | Some v \<Rightarrow> v)
      | _ \<Rightarrow> Inl attribute_error)"

text \<open>\<open>d[k]\<close> with a string key.\<close>

definition item_at :: "json \<Rightarrow> string \<Rightarrow> json result" where
  "item_at d k =
     (case d of JObj kvs \<Rightarrow> (case map_of kvs k of None \<Rightarrow> Inl (KeyError k) | Some v \<Rightarrow> Inr v)
      | _ \<Rightarrow> Inl type_error)"

definition character :: "string \<Rightarrow> json" where
  "character cp = JStr cp"

text \<open>\<open>d[n]\<close> with an index that is not negative. A dict decoded from JSON has no integer key.\<close>

definition index_at :: "json \<Rightarrow> nat \<Rightarrow> json result" where
  "index_at d n =
     (case d of
        JList xs \<Rightarrow> if n < length xs then Inr (xs ! n) else Inl (IndexError ''list index out of range'')
      | JStr s \<Rightarrow> if n < str_len s then Inr (character (code_points s ! n))
                  else Inl (IndexError ''string index out of range'')
      | JObj _ \<Rightarrow> Inl (KeyError (str_of_nat n))
      | _ \<Rightarrow> Inl type_error)"

text \<open>\<open>for x in d\<close>\<close>

definition elements :: "json \<Rightarrow> json list result" where
  "elements d =
     (case d of JList xs \<Rightarrow> Inr xs | JObj kvs \<Rightarrow> Inr (map (JStr \<circ> fst) kvs)
      | JStr s \<Rightarrow> Inr (map character (code_points s)) | _ \<Rightarrow> Inl type_error)"

text \<open>\<open>len(d)\<close>\<close>

definition json_len :: "json \<Rightarrow> nat result" where
  "json_len d =
     (case d of JList xs \<Rightarrow> Inr (length xs) | JObj kvs \<Rightarrow> Inr (length kvs) | JStr s \<Rightarrow> Inr (str_len s)
      | _ \<Rightarrow> Inl type_error)"

text \<open>\<open>d.values()\<close>\<close>

definition json_values :: "json \<Rightarrow> json list result" where
  "json_values d = (case d of JObj kvs \<Rightarrow> Inr (map snd kvs) | _ \<Rightarrow> Inl attribute_error)"

text \<open>The integral part of a float literal, and whether the literal is a zero.\<close>

definition float_mantissa :: "string \<Rightarrow> nat" where
  "float_mantissa lit = digits_value 0 (filter is_digit (takeWhile (\<lambda>c. c \<noteq> CHR ''e'' \<and> c \<noteq> CHR ''E'') lit))"

definition truthy :: "json \<Rightarrow> bool" where
  "truthy d =
     (case d of JNull \<Rightarrow> False | JBool b \<Rightarrow> b | JInt i \<Rightarrow> i \<noteq> 0 | JFloat lit \<Rightarrow> float_mantissa lit \<noteq> 0
      | JStr s \<Rightarrow> s \<noteq> [] | JList xs \<Rightarrow> xs \<noteq> [] | JObj kvs \<Rightarrow> kvs \<noteq> [])"

definition float_places :: "string \<Rightarrow> nat" where
  "float_places lit =
     length (takeWhile is_digit (tl (dropWhile (\<lambda>c. c \<noteq> CHR ''.'') lit)))"

definition float_exponent :: "string \<Rightarrow> int" where
  "float_exponent lit =
     (let e = tl (dropWhile (\<lambda>c. c \<noteq> CHR ''e'' \<and> c \<noteq> CHR ''E'') lit);
          n = int (digits_value 0 (filter is_digit e))
      in if e \<noteq> [] \<and> hd e = CHR ''-'' then - n else n)"

text \<open>\<open>int(x)\<close>. The decimal value of a float literal is truncated; that a double may round it first
  is not modelled.\<close>

definition float_trunc :: "string \<Rightarrow> int" where
  "float_trunc lit =
     (let m = float_mantissa lit; e = float_exponent lit - int (float_places lit);
          n = (if 0 \<le> e then m * 10 ^ nat e else m div 10 ^ nat (- e))
      in if lit \<noteq> [] \<and> hd lit = CHR ''-'' then - int n else int n)"

definition json_int :: "json \<Rightarrow> int result" where
  "json_int d =
     (case d of JInt i \<Rightarrow> Inr i | JBool b \<Rightarrow> Inr (if b then 1 else 0) | JFloat lit \<Rightarrow> Inr (float_trunc lit)
      | JStr s \<Rightarrow> int_of_str s | _ \<Rightarrow> Inl type_error)"

text \<open>\<open>str(x)\<close>; the text of a container is a parameter, since Python prints it with \<open>repr\<close>.\<close>

definition json_str :: "(json \<Rightarrow> string) \<Rightarrow> json \<Rightarrow> string" where
  "json_str rep d =
     (case d of JNull \<Rightarrow> ''None'' | JBool b \<Rightarrow> if b then ''True'' else ''False''
      | JInt i \<Rightarrow> str_of_int i | JStr s \<Rightarrow> s | _ \<Rightarrow> rep d)"

text \<open>\<open>d == "..."\<close> against a string constant.\<close>

definition is_str :: "json \<Rightarrow> string \<Rightarrow> bool" where
  "is_str d s \<longleftrightarrow> d = JStr s"

text \<open>A value used where the code needs a string (a prefix test, a path, an argument).\<close>

definition as_str :: "json \<Rightarrow> string result" where
  "as_str d = (case d of JStr s \<Rightarrow> Inr s | _ \<Rightarrow> Inl type_error)"

text \<open>\<open>name in d\<close>\<close>

definition contains :: "json \<Rightarrow> string \<Rightarrow> bool result" where
  "contains d name =
     (case d of JObj kvs \<Rightarrow> Inr (name \<in> fst ` set kvs) | JList xs \<Rightarrow> Inr (JStr name \<in> set xs)
      | JStr s \<Rightarrow> Inr (sublist name s) | _ \<Rightarrow> Inl type_error)"

text \<open>An element of a set has to be hashable.\<close>

definition hashable :: "json \<Rightarrow> json result" where
  "hashable v = (case v of JList _ \<Rightarrow> Inl type_error | JObj _ \<Rightarrow> Inl type_error | _ \<Rightarrow> Inr v)"

lemmas json_reads = get_or_def item_at_def index_at_def elements_def json_len_def json_int_def
  json_str_def as_str_def is_str_def json_values_def

end
