(* ===== verification/World.thy ===== *)
theory World
  imports Py_Effects Py_Json
begin

text \<open>
  What the command-line tools run against: external commands and processes, HTTP requests, a socket, the
  terminal and the clock. The
  environment is a parameter: from the calls made so far and the next call it gives the answer and
  how long it took. The trace keeps every call in order, so a property can speak of what was asked
  of the outside. Times are milliseconds of the monotonic clock.
\<close>

datatype process_call = Poll | Terminate | Await nat | Kill

datatype socket_call = Connect nat | Send string | Recv nat | Hang_Up

datatype device_call =
    Raw_Mode | Restore_Mode | Catch_Resize | Release_Resize | Get_Size | Select
  | Read_Input nat | Write_Output string

datatype call =
    Run "string list" string  \<comment> \<open>the argument vector and the standard input\<close>
  | Pause nat
  | Http string string "(string \<times> string) list" "string option"  \<comment> \<open>method, address, headers and body\<close>
  | Spawn "string list"
  | Process process_call  \<comment> \<open>to the process spawned last\<close>
  | Socket socket_call
  | Device device_call  \<comment> \<open>to the terminal\<close>

text \<open>A call can fail before it has an answer: no such executable, another operating-system error, or
  the user's interrupt.\<close>

datatype failure = NotFound string | OsFailed string | Interrupted

fun exn_of :: "failure \<Rightarrow> exn" where
  "exn_of (NotFound m) = FileNotFoundError m"
| "exn_of (OsFailed m) = OSError m"
| "exn_of Interrupted = KeyboardInterrupt"

datatype answer =
    Failed failure
  | Completed int string string  \<comment> \<open>return code, standard output, standard error\<close>
  | Responded nat string  \<comment> \<open>status code and body\<close>
  | Done
  | Running  \<comment> \<open>the process has not ended\<close>
  | Data string
  | Selected bool bool bool  \<comment> \<open>the socket is readable, the input is, the window was resized\<close>
  | Size nat nat  \<comment> \<open>rows and columns\<close>

type_synonym environment = "call list \<Rightarrow> call \<Rightarrow> answer \<times> nat"

record world =
  clock :: nat
  trace :: "call list"

definition perform_call :: "environment \<Rightarrow> call \<Rightarrow> ('z world_scheme, answer) proc" where
  "perform_call env c w =
     (case env (trace w) c of
        (a, d) \<Rightarrow> (Inr a, w\<lparr>clock := clock w + d, trace := trace w @ [c]\<rparr>))"

text \<open>\<open>subprocess.run(argv, input=text, capture_output=True)\<close>: the return code and both outputs.\<close>

definition run_process ::
  "environment \<Rightarrow> string list \<Rightarrow> string \<Rightarrow> ('z world_scheme, int \<times> string \<times> string) proc" where
  "run_process env argv text =
     seq (perform_call env (Run argv text)) (\<lambda>a.
       case a of
         Failed f \<Rightarrow> raising (exn_of f)
       | Completed rc out err \<Rightarrow> ret (rc, out, err)
       | _ \<Rightarrow> raising type_error)"

text \<open>\<open>time.sleep\<close>: at least the time asked for.\<close>

definition sleep :: "environment \<Rightarrow> nat \<Rightarrow> ('z world_scheme, unit) proc" where
  "sleep env ms w =
     (case env (trace w) (Pause ms) of
        (a, d) \<Rightarrow>
          ((case a of Failed f \<Rightarrow> Inl (exn_of f) | _ \<Rightarrow> Inr ()),
           w\<lparr>clock := clock w + d + ms, trace := trace w @ [Pause ms]\<rparr>))"

text \<open>Any other call: its answer, or the exception of its failure.\<close>

definition ask :: "environment \<Rightarrow> call \<Rightarrow> ('z world_scheme, answer) proc" where
  "ask env c = seq (perform_call env c) (\<lambda>a. case a of Failed f \<Rightarrow> raising (exn_of f) | _ \<Rightarrow> ret a)"

text \<open>\<open>result.stderr.strip() or result.stdout.strip()\<close>\<close>

definition failure_detail :: "string \<Rightarrow> string \<Rightarrow> string" where
  "failure_detail out err = (if strip err \<noteq> [] then strip err else strip out)"


section \<open>Procedures that use no fuel of their own\<close>

definition fueledE :: "exn + 'a \<Rightarrow> bool" where
  "fueledE r \<longleftrightarrow> r \<noteq> Inl OutOfFuel"

definition fueled :: "('s, 'a) proc \<Rightarrow> bool" where
  "fueled m \<longleftrightarrow> (\<forall>w. fueledE (fst (m w)))"

named_theorems fuel_intros \<open>no step raises \<open>OutOfFuel\<close>\<close>

lemma fueledE_Inr [fuel_intros]: "fueledE (Inr a)" by (simp add: fueledE_def)

lemma fueledE_Inl [fuel_intros]: "e \<noteq> OutOfFuel \<Longrightarrow> fueledE (Inl e)" by (simp add: fueledE_def)

lemma fueledE_bindE [fuel_intros]: "fueledE r \<Longrightarrow> (\<And>a. r = Inr a \<Longrightarrow> fueledE (f a)) \<Longrightarrow> fueledE (bindE r f)"
  by (cases r) (auto simp: fueledE_def)

lemma fueledE_guardE [fuel_intros]: "e \<noteq> OutOfFuel \<Longrightarrow> fueledE (guardE b e)"
  by (cases b) (auto simp: fueledE_def)

lemma fueledE_mapE [fuel_intros]: "(\<And>x. fueledE (f x)) \<Longrightarrow> fueledE (mapE f xs)"
  by (induction xs) (auto intro: fuel_intros)

lemma fueled_ret [fuel_intros]: "fueled (ret a)"
  by (simp add: fueled_def ret_def fueledE_def)

lemma fueled_raising [fuel_intros]: "e \<noteq> OutOfFuel \<Longrightarrow> fueled (raising e)"
  by (simp add: fueled_def raising_def fueledE_def)

lemma fueled_gets [fuel_intros]: "fueled (gets f)"
  by (simp add: fueled_def fueledE_def)

lemma fueled_modify [fuel_intros]: "fueled (modify f)"
  by (simp add: fueled_def fueledE_def)

lemma fueled_liftE [fuel_intros]: "fueledE r \<Longrightarrow> fueled (liftE r)"
  by (simp add: fueled_def liftE_def)

lemma fueled_seq [fuel_intros]: "fueled m \<Longrightarrow> (\<And>a. fueled (f a)) \<Longrightarrow> fueled (seq m f)"
  by (auto simp: fueled_def fueledE_def seq_def split: prod.splits sum.splits) (metis fst_conv)+

lemma fueled_whenP [fuel_intros]: "(b \<Longrightarrow> fueled m) \<Longrightarrow> fueled (whenP b m)"
  by (cases b) (auto intro: fuel_intros)

lemma fueled_if [fuel_intros]: "(b \<Longrightarrow> fueled m) \<Longrightarrow> (\<not> b \<Longrightarrow> fueled n) \<Longrightarrow> fueled (if b then m else n)"
  by simp

lemma fueled_try_except [fuel_intros]:
  "(\<And>e. e \<noteq> OutOfFuel \<Longrightarrow> fueled (h e)) \<Longrightarrow> fueled m \<Longrightarrow> fueled (try_except m h)"
  by (auto simp: fueled_def fueledE_def try_except_def split: prod.splits sum.splits) (metis fst_conv)+

lemma fueled_try_finally [fuel_intros]: "fueled m \<Longrightarrow> fueled h \<Longrightarrow> fueled (try_finally m h)"
  by (auto simp: fueled_def fueledE_def try_finally_def split: prod.splits sum.splits) (metis fst_conv)+

lemma fueled_run_process [fuel_intros]: "fueled (run_process env argv text)"
proof -
  have "exn_of f \<noteq> OutOfFuel" for f by (cases f) simp_all
  then show ?thesis
    by (auto simp: fueled_def fueledE_def run_process_def perform_call_def seq_def ret_def raising_def
        type_error_def split: prod.splits answer.splits)
qed

lemma fueled_sleep [fuel_intros]: "fueled (sleep env ms)"
proof -
  have "exn_of f \<noteq> OutOfFuel" for f by (cases f) simp_all
  then show ?thesis
    by (auto simp: fueled_def fueledE_def sleep_def split: prod.splits answer.splits)
qed

lemma fueled_ask [fuel_intros]: "fueled (ask env c)"
proof -
  have "exn_of f \<noteq> OutOfFuel" for f by (cases f) simp_all
  then show ?thesis
    by (auto simp: fueled_def fueledE_def ask_def perform_call_def seq_def ret_def raising_def
        split: prod.splits answer.splits)
qed

lemma fueledE_json [fuel_intros]:
  "fueledE (json_loads s)" "fueledE (get_or d k j)" "fueledE (item_at d k)" "fueledE (index_at d n)"
  "fueledE (elements d)" "fueledE (json_len d)" "fueledE (json_values d)" "fueledE (as_str d)"
  by (auto simp: fueledE_def json_loads_def json_error_def json_reads type_error_def attribute_error_def
      split: option.splits json.splits)

lemma fueledE_json_int [fuel_intros]: "fueledE (json_int d)"
  by (auto simp: fueledE_def json_int_def int_of_str_def type_error_def Let_def
      split: json.splits option.splits prod.splits list.splits if_splits)


section \<open>Loops\<close>

text \<open>\<open>while True\<close> around a body that says when to leave, with fuel.\<close>

fun iterate :: "nat \<Rightarrow> ('s, 'a option) proc \<Rightarrow> ('s, 'a) proc" where
  "iterate 0 body = raising OutOfFuel"
| "iterate (Suc n) body =
     seq body (\<lambda>r. case r of Some a \<Rightarrow> ret a | None \<Rightarrow> iterate n body)"

lemma iterate_numeral [simp]:
  "iterate (numeral k) body =
     seq body (\<lambda>r. case r of Some a \<Rightarrow> ret a | None \<Rightarrow> iterate (pred_numeral k) body)"
  by (simp add: numeral_eq_Suc)

text \<open>A loop whose body only goes on before a deadline, and takes time when it does.\<close>

definition until_deadline ::
  "nat \<Rightarrow> ('z world_scheme, 'a option) proc \<Rightarrow> ('z world_scheme, 'a) proc" where
  "until_deadline deadline body w = iterate (Suc (deadline - clock w)) body w"

lemma keeps_iterate [keeps_intros]: "keeps I body \<Longrightarrow> keeps I (iterate n body)"
  by (induction n) (auto intro!: keeps_intros split: option.splits)

lemma keeps_until_deadline [keeps_intros]: "keeps I body \<Longrightarrow> keeps I (until_deadline d body)"
  using keeps_iterate [of I body]
  by (auto simp: keeps_def until_deadline_def wp_def simp del: iterate.simps)

lemma wp_iterate:
  assumes "\<And>w. I w \<Longrightarrow> wp body (\<lambda>r w'. case r of None \<Rightarrow> I w' | Some a \<Rightarrow> Q a w') E w"
    and "\<And>w. I w \<Longrightarrow> E OutOfFuel w" and "I w"
  shows "wp (iterate n body) Q E w"
  using assms(3)
proof (induction n arbitrary: w)
  case 0
  then show ?case by (simp add: wp_raising assms(2))
next
  case (Suc n)
  from assms(1) [OF Suc.prems] show ?case
    by (auto simp: wp_seq wp_ret Suc.IH elim!: wp_mono split: option.splits)
qed

text \<open>A loop that returns does so from a round that said so.\<close>

lemma iterate_last:
  "iterate n body w = (Inr a, w') \<Longrightarrow> \<exists>v v'. body v = (Inr (Some a), v')"
  by (induction n arbitrary: w)
     (auto simp: seq_def ret_def raising_def split: prod.splits sum.splits option.splits)

lemma until_deadline_last:
  "until_deadline d body w = (Inr a, w') \<Longrightarrow> \<exists>v v'. body v = (Inr (Some a), v')"
  unfolding until_deadline_def by (rule iterate_last)

text \<open>The contract of such a body, and that its loop never runs out of fuel.\<close>

locale deadline_loop =
  fixes deadline :: nat
    and body :: "('z world_scheme, 'a option) proc"
  assumes goes_on: "body w = (Inr None, w') \<Longrightarrow> clock w < deadline \<and> clock w < clock w'"
    and no_fuel_of_its_own: "fueled body"
begin

lemma iterate_in_fuel: "deadline - clock w < n \<Longrightarrow> fst (iterate n body w) \<noteq> Inl OutOfFuel"
proof (induction n arbitrary: w)
  case (Suc n)
  obtain r w' where b: "body w = (r, w')" by fastforce
  show ?case
  proof (cases r)
    case (Inl e)
    then show ?thesis using no_fuel_of_its_own by (auto simp: b fueled_def fueledE_def dest: spec [of _ w])
  next
    case (Inr x)
    show ?thesis
    proof (cases x)
      case None
      then have "clock w < deadline" "clock w < clock w'" using goes_on [of w w'] by (simp_all add: b Inr)
      then show ?thesis using Suc by (simp add: b Inr None)
    next
      case (Some a)
      then show ?thesis by (simp add: b Inr ret_def)
    qed
  qed
qed simp

lemma loop_returns: "fueled (until_deadline deadline body)"
  unfolding fueled_def fueledE_def until_deadline_def using iterate_in_fuel lessI by blast

lemma iterate_fuel_irrelevant:
  "deadline - clock w < n \<Longrightarrow> iterate (n + k) body w = iterate n body w"
proof (induction n arbitrary: w)
  case (Suc n)
  obtain r w' where b: "body w = (r, w')" by fastforce
  show ?case
  proof (cases "r = Inr None")
    case True
    then have "clock w < deadline" "clock w < clock w'" using goes_on [of w w'] by (simp_all add: b)
    then have "iterate (n + k) body w' = iterate n body w'" using Suc by simp
    with b True show ?thesis by simp
  next
    case False
    then show ?thesis using b by (cases r) (auto split: option.splits simp: seq_def)
  qed
qed simp

lemma iterate_unfold:
  assumes "body w = (Inr None, w')"
  shows "until_deadline deadline body w = until_deadline deadline body w'"
proof -
  have *: "clock w < deadline" "clock w < clock w'" using goes_on [OF assms] by auto
  have "until_deadline deadline body w = iterate (deadline - clock w) body w'"
    by (simp add: until_deadline_def assms)
  also have "\<dots> = until_deadline deadline body w'"
  proof -
    have "deadline - clock w = Suc (deadline - clock w') + (deadline - clock w - Suc (deadline - clock w'))"
      using * by linarith
    then show ?thesis
      unfolding until_deadline_def
      by (metis iterate_fuel_irrelevant less_Suc_eq)
  qed
  finally show ?thesis .
qed

end


section \<open>What calls do to the trace\<close>

lemma run_process_trace: "trace (snd (run_process env argv text w)) = trace w @ [Run argv text]"
  by (auto simp: run_process_def perform_call_def seq_def ret_def raising_def split: prod.splits answer.splits)

lemma wp_run_process:
  "wp (run_process env argv text) Q E w =
     (case env (trace w) (Run argv text) of
        (a, d) \<Rightarrow>
          (let w' = w\<lparr>clock := clock w + d, trace := trace w @ [Run argv text]\<rparr> in
           case a of Failed f \<Rightarrow> E (exn_of f) w' | Completed rc out err \<Rightarrow> Q (rc, out, err) w'
           | _ \<Rightarrow> E type_error w'))"
  by (auto simp: run_process_def perform_call_def seq_def ret_def raising_def wp_def Let_def
      split: prod.splits answer.splits)

lemma wp_sleep:
  "wp (sleep env ms) Q E w =
     (case env (trace w) (Pause ms) of
        (a, d) \<Rightarrow>
          (let w' = w\<lparr>clock := clock w + d + ms, trace := trace w @ [Pause ms]\<rparr> in
           case a of Failed f \<Rightarrow> E (exn_of f) w' | _ \<Rightarrow> Q () w'))"
  by (auto simp: sleep_def wp_def Let_def split: prod.splits answer.splits)

text \<open>\<open>ran c w\<close>: call \<open>c\<close> was made. The trace only grows.\<close>

abbreviation ran :: "call \<Rightarrow> 'z world_scheme \<Rightarrow> bool" where
  "ran c w \<equiv> c \<in> set (trace w)"

definition extends :: "call list \<Rightarrow> 'z world_scheme \<Rightarrow> bool" where
  "extends t w \<longleftrightarrow> prefix t (trace w)"

lemma keeps_run_process:
  assumes "\<And>w d. I w \<Longrightarrow> I (w\<lparr>clock := clock w + d, trace := trace w @ [Run argv text]\<rparr>)"
  shows "keeps I (run_process env argv text)"
  using assms by (auto simp: keeps_def wp_run_process Let_def split: prod.splits answer.splits)

lemma keeps_sleep:
  assumes "\<And>w d. I w \<Longrightarrow> I (w\<lparr>clock := clock w + d, trace := trace w @ [Pause ms]\<rparr>)"
  shows "keeps I (sleep env ms)"
proof -
  have "I (w\<lparr>clock := clock w + d + ms, trace := trace w @ [Pause ms]\<rparr>)" if "I w" for w d
    using assms [OF that, of "d + ms"] by (simp add: add.assoc)
  then show ?thesis by (auto simp: keeps_def wp_sleep Let_def split: prod.splits answer.splits)
qed

lemma keeps_ask:
  assumes "\<And>w d. I w \<Longrightarrow> I (w\<lparr>clock := clock w + d, trace := trace w @ [c]\<rparr>)"
  shows "keeps I (ask env c)"
  using assms
  by (auto simp: keeps_snd ask_def perform_call_def seq_def ret_def raising_def split: prod.splits answer.splits)

lemma ask_trace: "trace (snd (ask env c w)) = trace w @ [c]"
  by (auto simp: ask_def perform_call_def seq_def ret_def raising_def split: prod.splits answer.splits)

lemma extends_append: "extends t w \<Longrightarrow> extends t (w\<lparr>clock := n, trace := trace w @ c\<rparr>)"
  by (auto simp: extends_def prefix_def)

lemma extends_run [keeps_intros]: "keeps (extends t) (run_process env argv text)"
  by (rule keeps_run_process) (rule extends_append)

lemma extends_sleep [keeps_intros]: "keeps (extends t) (sleep env ms)"
  by (rule keeps_sleep) (rule extends_append)

lemma extends_ask [keeps_intros]: "keeps (extends t) (ask env c)"
  by (rule keeps_ask) (rule extends_append)

lemma extends_ran: "c \<in> set t \<Longrightarrow> extends t w \<Longrightarrow> ran c w"
  by (auto simp: extends_def prefix_def)

text \<open>Time passes.\<close>

lemma clock_run [keeps_intros]: "keeps (\<lambda>w. n \<le> clock w) (run_process env argv text)"
  by (rule keeps_run_process) simp

lemma clock_ask [keeps_intros]: "keeps (\<lambda>w. n \<le> clock w) (ask env c)"
  by (rule keeps_ask) simp

lemma clock_sleep [keeps_intros]: "keeps (\<lambda>w. n \<le> clock w) (sleep env ms)"
  by (rule keeps_sleep) simp

lemma sleep_clock: "sleep env ms w = (r, w') \<Longrightarrow> clock w + ms \<le> clock w'"
  by (auto simp: sleep_def split: prod.splits answer.splits)

end
