(* ===== verification/Shell_Words.thy ===== *)
theory Shell_Words
  imports Py_Shlex
begin

text \<open>
  How a shell reads a command line that needs no expansion (POSIX, token recognition and quoting): a
  specification, used to state what a generated script says. Words are split at blanks; the characters
  between single quotes stand for themselves, those between double quotes too unless the shell would
  expand them; an operator character is a token of its own wherever it is not quoted. A line with an
  unquoted character of any other kind (an expansion, a comment, a newline, a backslash) has no reading.
\<close>

datatype shell_token = Arg string | Operator char

datatype shell_state = Outside | Inside string | Single string | Double string

definition shell_operator :: "char \<Rightarrow> bool" where
  "shell_operator c \<longleftrightarrow> c \<in> set ''|&;<>()''"

definition shell_expands :: "char \<Rightarrow> bool" where
  "shell_expands c \<longleftrightarrow> c \<in> {CHR ''$'', CHR 0x60, CHR ''!'', BACKSLASH}"

fun shell_lex :: "shell_state \<Rightarrow> string \<Rightarrow> shell_token list option" where
  "shell_lex Outside [] = Some []"
| "shell_lex Outside (c # cs) =
     (if c = CHR '' '' then shell_lex Outside cs
      else if shell_operator c then map_option ((#) (Operator c)) (shell_lex Outside cs)
      else if c = QUOTE then shell_lex (Single []) cs
      else if c = DQUOTE then shell_lex (Double []) cs
      else if safe_char c then shell_lex (Inside [c]) cs
      else None)"
| "shell_lex (Inside w) [] = Some [Arg w]"
| "shell_lex (Inside w) (c # cs) =
     (if c = CHR '' '' then map_option ((#) (Arg w)) (shell_lex Outside cs)
      else if shell_operator c
      then map_option (\<lambda>ts. Arg w # Operator c # ts) (shell_lex Outside cs)
      else if c = QUOTE then shell_lex (Single w) cs
      else if c = DQUOTE then shell_lex (Double w) cs
      else if safe_char c then shell_lex (Inside (w @ [c])) cs
      else None)"
| "shell_lex (Single w) [] = None"
| "shell_lex (Single w) (c # cs) =
     (if c = QUOTE then shell_lex (Inside w) cs else shell_lex (Single (w @ [c])) cs)"
| "shell_lex (Double w) [] = None"
| "shell_lex (Double w) (c # cs) =
     (if c = DQUOTE then shell_lex (Inside w) cs
      else if shell_expands c then None
      else shell_lex (Double (w @ [c])) cs)"

definition shell_reads :: "string \<Rightarrow> shell_token list option" where
  "shell_reads line = shell_lex Outside line"


section \<open>Pieces of a line\<close>

lemma safe_char_shell:
  assumes "safe_char c"
  shows "c \<noteq> CHR '' ''" and "\<not> shell_operator c" and "c \<noteq> QUOTE" and "c \<noteq> DQUOTE"
proof -
  have "\<not> safe_char c" if "c = CHR '' '' \<or> shell_operator c \<or> c = QUOTE \<or> c = DQUOTE"
    using that by (auto simp: shell_operator_def safe_char_def)
  with assms show "c \<noteq> CHR '' ''" and "\<not> shell_operator c" and "c \<noteq> QUOTE" and "c \<noteq> DQUOTE" by blast+
qed

text \<open>\<open>t\<close> is a way to write the word \<open>w\<close>.\<close>

definition writes :: "string \<Rightarrow> string \<Rightarrow> bool" where
  "writes t w \<longleftrightarrow> (\<forall>rest. shell_lex Outside (t @ rest) = shell_lex (Inside w) rest)"

lemma lex_safe_chars:
  "list_all safe_char s \<Longrightarrow> shell_lex (Inside w) (s @ rest) = shell_lex (Inside (w @ s)) rest"
  by (induction s arbitrary: w) (simp_all add: safe_char_shell)

lemma writes_safe:
  assumes "w \<noteq> []" and "list_all safe_char w"
  shows "writes w w"
proof -
  obtain c t where "w = c # t" using assms(1) by (cases w) auto
  with assms(2) show ?thesis
    using lex_safe_chars [of t "[c]"] by (simp add: writes_def safe_char_shell)
qed

lemma lex_quote_start: "shell_lex Outside (QUOTE # cs) = shell_lex (Single []) cs"
proof -
  have "QUOTE \<noteq> CHR '' ''" "\<not> shell_operator QUOTE" by code_simp+
  then show ?thesis by simp
qed

lemma lex_single: "QUOTE \<notin> set s \<Longrightarrow> shell_lex (Single w) (s @ QUOTE # rest) = shell_lex (Inside (w @ s)) rest"
  by (induction s arbitrary: w) auto

lemma writes_quoted: "QUOTE \<notin> set s \<Longrightarrow> writes (QUOTE # s @ [QUOTE]) s"
  using lex_single [of s "[]"] by (simp add: writes_def lex_quote_start del: shell_lex.simps(2))

lemma lex_requoted:
  "shell_lex (Single w) (replace_char QUOTE [QUOTE, DQUOTE, QUOTE, DQUOTE, QUOTE] s @ QUOTE # rest)
     = shell_lex (Inside (w @ s)) rest"
proof (induction s arbitrary: w)
  case (Cons c s)
  have "QUOTE \<noteq> CHR '' ''" "DQUOTE \<noteq> CHR '' ''" "\<not> shell_operator QUOTE" "\<not> shell_operator DQUOTE"
    "QUOTE \<noteq> DQUOTE" "DQUOTE \<noteq> QUOTE" "\<not> shell_expands QUOTE" by code_simp+
  with Cons show ?case by simp
qed simp

text \<open>Quoting as \<open>shlex.quote\<close> does keeps any text in one word.\<close>

lemma writes_quote_body: "writes (quote_body w) w"
  using lex_requoted [of "[]" w] by (simp add: writes_def quote_body_def lex_quote_start del: shell_lex.simps(2))

text \<open>\<open>t\<close> is a way to write the tokens \<open>ks\<close>, alone or before a blank.\<close>

definition says :: "string \<Rightarrow> shell_token list \<Rightarrow> bool" where
  "says t ks \<longleftrightarrow> shell_lex Outside t = Some ks
     \<and> (\<forall>rest. shell_lex Outside (t @ CHR '' '' # rest) = map_option (\<lambda>ts. ks @ ts) (shell_lex Outside rest))"

lemma says_word: "writes t w \<Longrightarrow> says t [Arg w]"
  unfolding writes_def says_def by (metis append_Nil append_Nil2 append_Cons shell_lex.simps(3,4) option.map_cong)

lemma says_operator:
  assumes "shell_operator c"
  shows "says [c] [Operator c]"
proof -
  have "\<not> shell_operator (CHR '' '')" by code_simp
  with assms show ?thesis by (auto simp: says_def option.map_comp comp_def cong: option.map_cong)
qed

lemma says_operator_word:
  assumes "shell_operator c" and "writes t w"
  shows "says (c # t) [Operator c, Arg w]"
proof -
  have "c \<noteq> CHR '' ''" using assms(1) by (auto simp: shell_operator_def)
  then have op: "shell_lex Outside (c # s) = map_option ((#) (Operator c)) (shell_lex Outside s)" for s
    using assms(1) by simp
  show ?thesis
    using says_word [OF assms(2)]
    by (simp add: says_def op option.map_comp comp_def del: shell_lex.simps(2))
qed

lemma says_append: "says t ks \<Longrightarrow> says u ls \<Longrightarrow> says (t @ CHR '' '' # u) (ks @ ls)"
  by (simp add: says_def option.map_comp comp_def)

lemma says_line:
  assumes "list_all2 says ts kss" and "ts \<noteq> []"
  shows "shell_reads (join_with '' '' ts) = Some (concat kss)"
proof -
  from assms have "says (join_with '' '' ts) (concat kss)"
  proof (induction ts arbitrary: kss rule: induct_list012)
    case (3 t u ts)
    then obtain ks kss' where "kss = ks # kss'" "says t ks" "list_all2 says (u # ts) kss'"
      by (auto simp: list_all2_Cons1 simp del: list.rel_inject)
    with 3 says_append [of t ks "join_with '' '' (u # ts)" "concat kss'"] show ?case by simp
  qed (auto simp: list_all2_Cons1)
  then show ?thesis by (simp add: says_def shell_reads_def)
qed

definition plain_word :: "string \<Rightarrow> bool" where
  "plain_word w \<longleftrightarrow> w \<noteq> [] \<and> list_all safe_char w"

lemma says_plain: "plain_word w \<Longrightarrow> says w [Arg w]"
  by (simp add: plain_word_def says_word writes_safe)

lemma plain_line:
  assumes "list_all plain_word ws" and "ws \<noteq> []"
  shows "shell_reads (join_with '' '' ws) = Some (map Arg ws)"
proof -
  have "list_all2 says ws (map (\<lambda>w. [Arg w]) ws)"
    using assms(1) by (auto simp: list.rel_map list_all2_same list_all_iff says_plain)
  moreover have "concat (map (\<lambda>w. [Arg w]) ws) = map Arg ws" by (induction ws) simp_all
  ultimately show ?thesis using says_line [OF _ assms(2)] by metis
qed

lemma echo_line:
  assumes "QUOTE \<notin> set s"
  shows "shell_reads (''echo '' @ QUOTE # s @ [QUOTE]) = Some [Arg ''echo'', Arg s]"
proof -
  have "plain_word ''echo''" by code_simp
  then have "list_all2 says [''echo'', QUOTE # s @ [QUOTE]] [[Arg ''echo''], [Arg s]]"
    using assms by (simp add: says_plain says_word writes_quoted)
  from says_line [OF this] show ?thesis by simp
qed

end
