(* ===== verification/Image_Builder.thy ===== *)
theory Image_Builder
  imports World Shell_Words "HOL-Library.List_Lexorder" "HOL-Library.Char_ord"
begin

text \<open>
  \<open>tools/xolis_image_builder.py\<close>: the build script sent to a temporary EC2 instance, and the
  \<open>ImageBuilder\<close> that uploads the source, launches the instance, waits for it, runs the script and
  cleans up. The object's two fields that its cleanup reads, \<open>instance_id\<close> and \<open>source_uri\<close>, extend
  the world. What is printed is not modelled; the time stamps in names are parameters.
\<close>

section \<open>Configuration\<close>

definition repositories :: "(string \<times> string \<times> string) list" where
  "repositories =
     [(''xolis-api'', ''xolis/xolis-api'', ''image/xolis-api/Dockerfile''),
      (''xolis-runtime-python'', ''xolis/xolis-runtime-python'', ''image/xolis-runtime-python/Dockerfile''),
      (''xolis-runtime-hermes'', ''xolis/xolis-runtime-hermes'', ''image/xolis-runtime-hermes/Dockerfile''),
      (''sandbox-router-go'', ''xolis/sandbox-router'', ''image/sandbox-router/Dockerfile'')]"

definition nydus_version :: string where
  "nydus_version = ''2.4.4''"

definition nydus_archive_sha256 :: string where
  "nydus_archive_sha256 = ''e95a0d1984ef507c0cf4c7766a9cde8433215e1007556e03d4cc211725c68c59''"

definition terminal_command_states :: "string list" where
  "terminal_command_states = [''Success'', ''Cancelled'', ''Failed'', ''TimedOut'']"

record builder_config =
  profile :: string
  region :: string
  cluster_name :: string
  source_bucket :: string
  instance_type :: string
  images :: "string list"
  nydus_images :: "string list"
  keep_instance :: bool
  timeout_seconds :: int

record builder = world +
  instance_id :: "string option"
  source_uri :: "string option"


section \<open>The AWS command line\<close>

definition aws_command :: "builder_config \<Rightarrow> string list \<Rightarrow> string list" where
  "aws_command cfg arguments =
     ''aws'' # (if profile cfg \<noteq> [] then [''--profile'', profile cfg] else [])
       @ [''--region'', region cfg] @ arguments"

definition aws_run :: "environment \<Rightarrow> builder_config \<Rightarrow> string list \<Rightarrow> ('z world_scheme, string) proc" where
  "aws_run env cfg arguments =
     (let command = aws_command cfg arguments in
      seq (run_process env command []) (\<lambda>(rc, out, err).
        if rc \<noteq> 0
        then raising (AwsCommandError (join_with '' '' command @ '' failed: '' @ failure_detail out err))
        else ret out))"

definition aws_text :: "environment \<Rightarrow> builder_config \<Rightarrow> string list \<Rightarrow> ('z world_scheme, string) proc" where
  "aws_text env cfg arguments = seq (aws_run env cfg arguments) (\<lambda>out. ret (strip out))"

definition aws_json :: "environment \<Rightarrow> builder_config \<Rightarrow> string list \<Rightarrow> ('z world_scheme, json) proc" where
  "aws_json env cfg arguments =
     seq (aws_run env cfg arguments) (\<lambda>out.
       liftE (if strip out \<noteq> [] then json_loads out else Inr (JObj [])))"


section \<open>The build script\<close>

definition shell_quote :: "string \<Rightarrow> string" where
  "shell_quote v = [QUOTE] @ replace_char QUOTE [QUOTE, DQUOTE, QUOTE, DQUOTE, QUOTE] v @ [QUOTE]"

definition char_range :: "char \<Rightarrow> char \<Rightarrow> char \<Rightarrow> bool" where
  "char_range first final c \<longleftrightarrow> first \<le> c \<and> c \<le> final"

definition tag_char :: "char \<Rightarrow> bool" where
  "tag_char c \<longleftrightarrow> char_range CHR ''a'' CHR ''z'' c \<or> char_range CHR ''A'' CHR ''Z'' c \<or> is_digit c
     \<or> c \<in> {CHR ''.'', CHR ''_'', CHR ''-''}"

definition region_char :: "char \<Rightarrow> bool" where
  "region_char c \<longleftrightarrow> char_range CHR ''a'' CHR ''z'' c \<or> is_digit c \<or> c = CHR ''-''"

definition is_tag :: "string \<Rightarrow> bool" where
  "is_tag tag \<longleftrightarrow> tag \<noteq> [] \<and> list_all tag_char tag"

text \<open>\<open>[0-9]+\.dkr\.ecr\.[a-z0-9-]+\.amazonaws\.com\<close>; neither class of characters contains a dot, so
  the longest run is the only match.\<close>

definition is_registry :: "string \<Rightarrow> bool" where
  "is_registry s =
     (let account = takeWhile is_digit s;
          rest = drop (length account) s;
          r = drop (length ''.dkr.ecr.'') rest;
          place = takeWhile region_char r
      in account \<noteq> [] \<and> startswith rest ''.dkr.ecr.'' \<and> place \<noteq> []
         \<and> drop (length place) r = ''.amazonaws.com'')"

definition repository_of :: "string \<Rightarrow> (string \<times> string) result" where
  "repository_of name =
     (case map_of repositories name of None \<Rightarrow> Inl (KeyError name) | Some r \<Rightarrow> Inr r)"

definition quoted :: "string \<Rightarrow> string" where
  "quoted s = [QUOTE] @ s @ [QUOTE]"

definition prepare_commands :: "string \<Rightarrow> string \<Rightarrow> string list" where
  "prepare_commands source_url registry =
     [''set -euo pipefail'',
      ''echo '' @ quoted ''Installing the container build runtime'',
      ''dnf install -q -y docker'',
      ''systemctl enable --now docker'',
      ''rm -rf /opt/xolis-build && mkdir -p /opt/xolis-build'',
      ''echo '' @ quoted ''Downloading the committed source archive'',
      ''curl --fail --silent --show-error --location '' @ shell_quote source_url
        @ '' --output /opt/xolis-source.tar.gz'',
      ''tar -xzf /opt/xolis-source.tar.gz -C /opt/xolis-build'',
      ''cd /opt/xolis-build'',
      ''aws ecr get-login-password | docker login --username AWS --password-stdin '' @ registry
        @ '' >/dev/null'']"

definition image_commands :: "string \<Rightarrow> string \<Rightarrow> string \<Rightarrow> string list result" where
  "image_commands registry tag local_name =
     bindE (repository_of local_name) (\<lambda>(repository, dockerfile).
       let reference = registry @ ''/'' @ repository @ '':'' @ tag in
       Inr [''echo '' @ quoted (''Building '' @ local_name),
            ''docker build --pull --file '' @ dockerfile @ '' --tag '' @ local_name @ '':'' @ tag @ '' .'',
            ''docker tag '' @ local_name @ '':'' @ tag @ '' '' @ reference,
            ''echo '' @ quoted (''Pushing '' @ local_name),
            ''docker push --quiet '' @ reference])"

definition nydus_archive :: string where
  "nydus_archive = ''nydus-static-v'' @ nydus_version @ ''-linux-amd64.tgz''"

definition nydus_setup :: "string list" where
  "nydus_setup =
     [''echo '' @ quoted ''Installing the pinned Nydus conversion tools'',
      ''curl --fail --silent --show-error --location https://github.com/dragonflyoss/nydus/releases/download/v''
        @ nydus_version @ ''/'' @ nydus_archive @ '' --output /opt/'' @ nydus_archive,
      ''echo '' @ quoted (nydus_archive_sha256 @ ''  /opt/'' @ nydus_archive) @ '' | sha256sum --check --strict'',
      ''tar -xzf /opt/'' @ nydus_archive @ '' -C /opt'',
      ''install -m 0755 /opt/nydus-static/nydus-image /usr/local/bin/nydus-image'',
      ''install -m 0755 /opt/nydus-static/nydusify /usr/local/bin/nydusify'',
      ''install -m 0755 /opt/nydus-static/nydusd /usr/local/bin/nydusd'']"

definition nydus_commands :: "string \<Rightarrow> string \<Rightarrow> string \<Rightarrow> string list result" where
  "nydus_commands registry tag local_name =
     bindE (repository_of local_name) (\<lambda>(repository, _).
       let source = registry @ ''/'' @ repository @ '':'' @ tag;
           target = registry @ ''/'' @ repository @ '':'' @ tag @ ''-nydus'' in
       Inr [''echo '' @ quoted (''Converting '' @ local_name @ '' to Nydus format''),
            ''nydusify convert --source '' @ source @ '' --target '' @ target,
            ''echo '' @ quoted (''Checking '' @ local_name @ '' Nydus manifest and bootstrap''),
            ''nydusify check --target '' @ target])"

definition unknown_images :: "string list \<Rightarrow> string list \<Rightarrow> string list" where
  "unknown_images imgs nydus =
     sort (remdups (filter (\<lambda>n. map_of repositories n = None) (imgs @ nydus)))"

definition build_commands ::
  "string \<Rightarrow> string \<Rightarrow> string \<Rightarrow> string list \<Rightarrow> string list \<Rightarrow> string list result" where
  "build_commands source_url registry tag imgs nydus =
     (if \<not> is_tag tag then Inl (ValueError ''image tag contains unsupported characters'')
      else if \<not> is_registry registry
      then Inl (ValueError ''registry is not a private Amazon ECR hostname'')
      else if unknown_images imgs nydus \<noteq> []
      then Inl (ValueError (''unknown image names: '' @ join_with '', '' (unknown_images imgs nydus)))
      else if \<not> set nydus \<subseteq> set imgs
      then Inl (ValueError ''Nydus images must also be selected as OCI images'')
      else
        bindE (mapE (image_commands registry tag) imgs) (\<lambda>built.
        bindE (mapE (nydus_commands registry tag) nydus) (\<lambda>converted.
          Inr (prepare_commands source_url registry @ concat built
               @ (if nydus = [] then [] else nydus_setup @ concat converted)))))"


section \<open>The builder\<close>

text \<open>Where an answer of AWS is used as an argument of a later command it is taken to be a string, as
  the service documents; anything else is a \<open>TypeError\<close> as soon as it is read.\<close>

definition assertion_error :: exn where
  "assertion_error = RuntimeError ''assertion failed''"

text \<open>What a run reads from its surroundings: the environment of its calls, the executables on the
  path, the wall clock in names, and the temporary directory.\<close>

record surroundings =
  calls :: environment
  on_path :: "string \<Rightarrow> bool"
  stamp :: string
  epoch :: int
  archive :: string
  repr :: "json \<Rightarrow> string"

definition require_executables :: "surroundings \<Rightarrow> unit result" where
  "require_executables env =
     (let missing = filter (\<lambda>name. \<not> on_path env name) [''aws'', ''git''] in
      if missing \<noteq> []
      then Inl (RuntimeError (''required executables are missing: '' @ join_with '', '' missing))
      else Inr ())"

text \<open>\<open>subprocess.run(..., check=True)\<close>\<close>

definition run_checked :: "environment \<Rightarrow> string list \<Rightarrow> ('z world_scheme, string) proc" where
  "run_checked env argv =
     seq (run_process env argv []) (\<lambda>(rc, out, err).
       if rc \<noteq> 0 then raising (CalledProcessError argv rc) else ret out)"

definition upload_source :: "surroundings \<Rightarrow> builder_config \<Rightarrow> string \<Rightarrow> (builder, string) proc" where
  "upload_source env cfg commit =
     (let key = ''xolis/image-builds/'' @ commit @ ''/'' @ str_of_int (epoch env) @ ''/source.tar.gz'';
          uri = ''s3://'' @ source_bucket cfg @ ''/'' @ key in
      seq (modify (\<lambda>w. w\<lparr>source_uri := Some uri\<rparr>)) (\<lambda>_.
      seq (run_checked (calls env) [''git'', ''archive'', ''--format=tar.gz'', ''--output='' @ archive env, ''HEAD'']) (\<lambda>_.
      seq (aws_text (calls env) cfg [''s3'', ''cp'', archive env, uri, ''--only-show-errors'']) (\<lambda>_.
        aws_text (calls env) cfg [''s3'', ''presign'', uri, ''--expires-in'', ''7200'']))))"

definition lookup_security_group :: "surroundings \<Rightarrow> builder_config \<Rightarrow> (builder, string) proc" where
  "lookup_security_group env cfg =
     seq (aws_json (calls env) cfg
            [''ec2'', ''describe-security-groups'', ''--filters'',
             ''Name=group-name,Values='' @ cluster_name cfg @ ''-image-builder'']) (\<lambda>response.
       liftE (bindE (item_at response ''SecurityGroups'') (\<lambda>groups.
              bindE (json_len groups) (\<lambda>n.
              bindE (guardE (n = 1) (RuntimeError ''expected exactly one image-builder security group'')) (\<lambda>_.
              bindE (index_at groups 0) (\<lambda>g.
              bindE (item_at g ''GroupId'') as_str))))))"

definition launch_instance ::
  "surroundings \<Rightarrow> builder_config \<Rightarrow> string \<Rightarrow> string \<Rightarrow> string \<Rightarrow> (builder, string) proc" where
  "launch_instance env cfg ami_id subnet_id security_group_id =
     seq (aws_json (calls env) cfg
            [''ec2'', ''run-instances'', ''--image-id'', ami_id, ''--instance-type'', instance_type cfg,
             ''--subnet-id'', subnet_id, ''--security-group-ids'', security_group_id,
             ''--associate-public-ip-address'', ''--iam-instance-profile'',
             ''Name='' @ cluster_name cfg @ ''-image-builder'', ''--metadata-options'',
             ''HttpTokens=required,HttpEndpoint=enabled'', ''--block-device-mappings'',
             ''DeviceName=/dev/xvda,Ebs={VolumeSize=50,VolumeType=gp3,DeleteOnTermination=true,Encrypted=true}'',
             ''--tag-specifications'',
             ''ResourceType=instance,Tags=[{Key=Name,Value='' @ cluster_name cfg
               @ ''-image-builder},{Key=Purpose,Value=xolis-image-build}]'']) (\<lambda>response.
       liftE (bindE (item_at response ''Instances'') (\<lambda>l.
              bindE (index_at l 0) (\<lambda>i. bindE (item_at i ''InstanceId'') as_str))))"

definition own_instance :: "(builder, string) proc" where
  "own_instance =
     seq (gets instance_id) (\<lambda>i. case i of None \<Rightarrow> raising assertion_error | Some n \<Rightarrow> ret n)"

text \<open>One round of the loop of \<open>wait_for_instance\<close>, with the deadline test.\<close>

definition registration_round ::
  "surroundings \<Rightarrow> builder_config \<Rightarrow> string \<Rightarrow> nat \<Rightarrow> (builder, unit option) proc" where
  "registration_round env cfg instance deadline =
     seq (gets clock) (\<lambda>t.
     if \<not> t < deadline
     then raising (TimeoutError ''image builder did not register with Systems Manager'')
     else
       seq (aws_json (calls env) cfg
              [''ssm'', ''describe-instance-information'', ''--filters'',
               ''Key=InstanceIds,Values='' @ instance]) (\<lambda>response.
       seq (liftE (item_at response ''InstanceInformationList'')) (\<lambda>known.
       if truthy known then ret (Some ())
       else seq (sleep (calls env) 10000) (\<lambda>_. ret None))))"

definition wait_for_instance :: "surroundings \<Rightarrow> builder_config \<Rightarrow> (builder, unit) proc" where
  "wait_for_instance env cfg =
     seq own_instance (\<lambda>instance.
     seq (aws_text (calls env) cfg
            [''ec2'', ''wait'', ''instance-status-ok'', ''--instance-ids'', instance]) (\<lambda>_.
     seq (gets clock) (\<lambda>t.
       until_deadline (t + 600000) (registration_round env cfg instance (t + 600000)))))"

definition send_build ::
  "surroundings \<Rightarrow> builder_config \<Rightarrow> string \<Rightarrow> string \<Rightarrow> string \<Rightarrow> (builder, string) proc" where
  "send_build env cfg source_url registry tag =
     seq own_instance (\<lambda>instance.
     seq (liftE (build_commands source_url registry tag (images cfg) (nydus_images cfg))) (\<lambda>commands.
     seq (aws_json (calls env) cfg
            [''ssm'', ''send-command'', ''--instance-ids'', instance, ''--document-name'',
             ''AWS-RunShellScript'', ''--timeout-seconds'', str_of_int (timeout_seconds cfg),
             ''--parameters'', json_dumps (JObj [(''commands'', JList (map JStr commands))])]) (\<lambda>response.
       liftE (bindE (item_at response ''Command'') (\<lambda>c. bindE (item_at c ''CommandId'') as_str)))))"

definition mentions :: "string \<Rightarrow> string \<Rightarrow> bool" where
  "mentions part s \<longleftrightarrow> sublist part s"

text \<open>The end of the remote command: \<open>None\<close> while it is not in a terminal state (a set, so that the state
  has to be hashable). The \<open>get\<close>s of the two outputs only print.\<close>

definition command_end :: "json \<Rightarrow> unit option result" where
  "command_end invocation =
     bindE (item_at invocation ''Status'') (\<lambda>status.
     bindE (hashable status) (\<lambda>_.
       if \<not> (\<exists>s \<in> set terminal_command_states. is_str status s) then Inr None
       else if is_str status ''Success'' then Inr (Some ())
       else bindE (as_str status) (\<lambda>s. Inl (RuntimeError (''remote image build ended with status '' @ s)))))"

text \<open>What the service says of the invocation: \<open>None\<close> when it does not know it yet, after a pause.\<close>

definition invocation_answer ::
  "surroundings \<Rightarrow> builder_config \<Rightarrow> string \<Rightarrow> string \<Rightarrow> (builder, json option) proc" where
  "invocation_answer env cfg inst command_id =
     try_except
       (seq (aws_json (calls env) cfg
               [''ssm'', ''get-command-invocation'', ''--command-id'', command_id,
                ''--instance-id'', inst]) (\<lambda>i. ret (Some i)))
       (\<lambda>e. case e of
          AwsCommandError m \<Rightarrow>
            if \<not> mentions ''InvocationDoesNotExist'' m then raising e
            else seq (sleep (calls env) 5000) (\<lambda>_. ret None)
        | _ \<Rightarrow> raising e)"

definition invocation_round ::
  "surroundings \<Rightarrow> builder_config \<Rightarrow> string \<Rightarrow> string \<Rightarrow> nat \<Rightarrow> (builder, unit option) proc" where
  "invocation_round env cfg instance command_id deadline =
     seq (gets clock) (\<lambda>t.
     if \<not> t < deadline
     then raising (TimeoutError ''remote image build did not finish before the deadline'')
     else
       seq (invocation_answer env cfg instance command_id) (\<lambda>i.
       case i of None \<Rightarrow> ret None
       | Some invocation \<Rightarrow>
           seq (liftE (command_end invocation)) (\<lambda>r.
             if r = Some () then ret r else seq (sleep (calls env) 15000) (\<lambda>_. ret None))))"

definition wait_for_command :: "surroundings \<Rightarrow> builder_config \<Rightarrow> string \<Rightarrow> (builder, unit) proc" where
  "wait_for_command env cfg command_id =
     seq own_instance (\<lambda>instance.
     seq (gets clock) (\<lambda>t.
       let deadline = nat (int t + 1000 * timeout_seconds cfg + 120000) in
       until_deadline deadline (invocation_round env cfg instance command_id deadline)))"

definition image_tags :: "builder_config \<Rightarrow> string \<Rightarrow> (string \<times> string) list" where
  "image_tags cfg tag =
     map (\<lambda>name. (name, tag)) (images cfg)
     @ map (\<lambda>name. (name @ ''-nydus'', tag @ ''-nydus'')) (nydus_images cfg)"

definition image_reference ::
  "surroundings \<Rightarrow> builder_config \<Rightarrow> string \<times> string \<Rightarrow> (builder, string \<times> string) proc" where
  "image_reference env cfg = (\<lambda>(output_name, image_tag).
     seq (liftE (repository_of (removesuffix output_name ''-nydus''))) (\<lambda>(repository, _).
     seq (aws_json (calls env) cfg
            [''ecr'', ''describe-images'', ''--repository-name'', repository, ''--image-ids'',
             ''imageTag='' @ image_tag]) (\<lambda>response.
       liftE (bindE (item_at response ''imageDetails'') (\<lambda>l.
              bindE (index_at l 0) (\<lambda>image.
              bindE (item_at image ''registryId'') (\<lambda>registry.
              bindE (item_at image ''imageDigest'') (\<lambda>digest.
                Inr (output_name, json_str (repr env) registry @ ''.dkr.ecr.'' @ region cfg
                       @ ''.amazonaws.com/'' @ repository @ ''@'' @ json_str (repr env) digest)))))))))"

definition image_references ::
  "surroundings \<Rightarrow> builder_config \<Rightarrow> string \<Rightarrow> (builder, (string \<times> string) list) proc" where
  "image_references env cfg tag =
     seq (map_each (image_reference env cfg) (image_tags cfg tag)) (\<lambda>pairs. ret (dict_of pairs))"

definition build_steps :: "surroundings \<Rightarrow> builder_config \<Rightarrow> string \<Rightarrow> string \<Rightarrow> (builder, (string \<times> string) list) proc" where
  "build_steps env cfg commit tag =
     seq (upload_source env cfg commit) (\<lambda>source_url.
     seq (aws_json (calls env) cfg [''eks'', ''describe-cluster'', ''--name'', cluster_name cfg]) (\<lambda>answer.
     seq (liftE (bindE (item_at answer ''cluster'') (\<lambda>cluster.
                 bindE (item_at cluster ''resourcesVpcConfig'') (\<lambda>vpc.
                 bindE (item_at vpc ''subnetIds'') (\<lambda>l. bindE (index_at l 0) as_str))))) (\<lambda>subnet_id.
     seq (aws_text (calls env) cfg
            [''sts'', ''get-caller-identity'', ''--query'', ''Account'', ''--output'', ''text'']) (\<lambda>account_id.
     let registry = account_id @ ''.dkr.ecr.'' @ region cfg @ ''.amazonaws.com'' in
     seq (lookup_security_group env cfg) (\<lambda>security_group_id.
     seq (aws_text (calls env) cfg
            [''ssm'', ''get-parameter'', ''--name'',
             ''/aws/service/ami-amazon-linux-latest/al2023-ami-kernel-default-x86_64'',
             ''--query'', ''Parameter.Value'', ''--output'', ''text'']) (\<lambda>ami_id.
     seq (launch_instance env cfg ami_id subnet_id security_group_id) (\<lambda>instance.
     seq (modify (\<lambda>w. w\<lparr>instance_id := Some instance\<rparr>)) (\<lambda>_.
     seq (wait_for_instance env cfg) (\<lambda>_.
     seq (send_build env cfg source_url registry tag) (\<lambda>command_id.
     seq (wait_for_command env cfg command_id) (\<lambda>_.
       image_references env cfg tag)))))))))))"

definition terminate_call :: "builder_config \<Rightarrow> string \<Rightarrow> string list" where
  "terminate_call cfg instance = aws_command cfg [''ec2'', ''terminate-instances'', ''--instance-ids'', instance]"

definition remove_call :: "builder_config \<Rightarrow> string \<Rightarrow> string list" where
  "remove_call cfg uri = aws_command cfg [''s3'', ''rm'', uri, ''--only-show-errors'']"

definition cleanup_instance :: "surroundings \<Rightarrow> builder_config \<Rightarrow> (builder, unit) proc" where
  "cleanup_instance env cfg =
     seq (gets instance_id) (\<lambda>i. case i of None \<Rightarrow> ret () | Some instance \<Rightarrow>
       if instance = [] \<or> keep_instance cfg then ret ()
       else
         seq (aws_text (calls env) cfg [''ec2'', ''terminate-instances'', ''--instance-ids'', instance]) (\<lambda>_.
         seq (aws_text (calls env) cfg [''ec2'', ''wait'', ''instance-terminated'', ''--instance-ids'', instance]) (\<lambda>_.
         seq (aws_text (calls env) cfg
                [''ec2'', ''describe-instances'', ''--instance-ids'', instance, ''--query'',
                 ''Reservations[0].Instances[0].State.Name'', ''--output'', ''text'']) (\<lambda>state.
           whenP (state \<noteq> ''terminated'')
             (raising (RuntimeError (''image builder '' @ instance @ '' cleanup ended in state '' @ state)))))))"

text \<open>The versions and delete markers of exactly the uploaded key.\<close>

definition version_entry :: "string \<Rightarrow> json \<Rightarrow> json list result" where
  "version_entry key item =
     bindE (item_at item ''Key'') (\<lambda>k.
       if \<not> is_str k key then Inr []
       else bindE (item_at item ''VersionId'') (\<lambda>v. Inr [JObj [(''Key'', k), (''VersionId'', v)]]))"

definition source_versions :: "string \<Rightarrow> json \<Rightarrow> json list result" where
  "source_versions key versions =
     bindE (mapE (\<lambda>collection.
              bindE (get_or versions collection (JList [])) (\<lambda>l.
              bindE (elements l) (\<lambda>items.
              bindE (mapE (version_entry key) items) (\<lambda>r. Inr (concat r)))))
            [''Versions'', ''DeleteMarkers'']) (\<lambda>r. Inr (concat r))"

definition cleanup_source :: "surroundings \<Rightarrow> builder_config \<Rightarrow> (builder, unit) proc" where
  "cleanup_source env cfg =
     seq (gets source_uri) (\<lambda>u. case u of None \<Rightarrow> ret () | Some uri \<Rightarrow>
       if uri = [] then ret ()
       else
         seq (aws_text (calls env) cfg [''s3'', ''rm'', uri, ''--only-show-errors'']) (\<lambda>_.
         case partition_on (CHR ''/'') (removeprefix uri ''s3://'') of (bucket, found, key) \<Rightarrow>
         seq (whenP (\<not> found \<or> bucket = [] \<or> key = [])
                (raising (RuntimeError (''invalid temporary source URI: '' @ uri)))) (\<lambda>_.
         seq (aws_json (calls env) cfg
                [''s3api'', ''list-object-versions'', ''--bucket'', bucket, ''--prefix'', key]) (\<lambda>versions.
         seq (liftE (source_versions key versions)) (\<lambda>objects.
         whenP (objects \<noteq> [])
           (seq (aws_json (calls env) cfg
                   [''s3api'', ''delete-objects'', ''--bucket'', bucket, ''--delete'',
                    json_dumps (JObj [(''Objects'', JList objects), (''Quiet'', JBool True)])]) (\<lambda>response.
            seq (liftE (get_or response ''Errors'' JNull)) (\<lambda>errors.
            whenP (truthy errors)
              (raising (RuntimeError (''failed to delete temporary source versions: '' @ repr env errors)))))))))))"

definition cleanup :: "surroundings \<Rightarrow> builder_config \<Rightarrow> (builder, unit) proc" where
  "cleanup env cfg = seq (cleanup_instance env cfg) (\<lambda>_. cleanup_source env cfg)"

definition run :: "surroundings \<Rightarrow> builder_config \<Rightarrow> (builder, (string \<times> string) list) proc" where
  "run env cfg =
     seq (liftE (require_executables env)) (\<lambda>_.
     seq (run_checked (calls env) [''git'', ''rev-parse'', ''HEAD'']) (\<lambda>out.
       let commit = strip out; tag = take 12 commit @ ''-'' @ stamp env in
       try_finally (build_steps env cfg commit tag) (cleanup env cfg)))"

definition new_builder :: builder where
  "new_builder = \<lparr>clock = 0, trace = [], instance_id = None, source_uri = None\<rparr>"

text \<open>\<open>main\<close> after its arguments were parsed: which exceptions become an exit status.\<close>

definition is_runtime_error :: "exn \<Rightarrow> bool" where
  "is_runtime_error e \<longleftrightarrow>
     (case e of AwsCommandError _ \<Rightarrow> True | RuntimeError _ \<Rightarrow> True | CalledProcessError _ _ \<Rightarrow> True
      | _ \<Rightarrow> False)"

definition main :: "surroundings \<Rightarrow> builder_config \<Rightarrow> string list option \<Rightarrow> (builder, int) proc" where
  "main env cfg selected =
     (let imgs = (case selected of None \<Rightarrow> map fst repositories
                  | Some l \<Rightarrow> if l = [] then map fst repositories else l) in
      if \<not> set (nydus_images cfg) \<subseteq> set imgs then ret 2
      else try_except (seq (run env (cfg\<lparr>images := imgs\<rparr>)) (\<lambda>_. ret 0))
             (\<lambda>e. if is_runtime_error e then ret 1 else raising e))"


section \<open>The waiting loops\<close>

lemma fueled_aws [fuel_intros]:
  "fueled (aws_run env cfg args)" "fueled (aws_text env cfg args)" "fueled (aws_json env cfg args)"
  unfolding aws_run_def aws_text_def aws_json_def Let_def
  by (auto intro!: fuel_intros split: prod.splits)

lemma keeps_aws:
  assumes "\<And>argv. keeps I (run_process env argv [])"
  shows "keeps I (aws_run env cfg args)" "keeps I (aws_text env cfg args)" "keeps I (aws_json env cfg args)"
  unfolding aws_run_def aws_text_def aws_json_def Let_def
  by (auto intro!: keeps_intros assms split: prod.splits)

lemma clock_aws: "aws_json env cfg args w = (r, w') \<Longrightarrow> clock w \<le> clock w'"
  using keeps_run [OF keeps_aws(3) [OF clock_run [of "clock w"]], of w] by (metis order_refl snd_conv)

lemma registration_goes_on:
  "registration_round env cfg instance deadline w = (Inr None, w') \<Longrightarrow>
     clock w < deadline \<and> clock w < clock w'"
  by (auto simp: registration_round_def seq_Inr liftE_run ret_run raising_run
      dest!: clock_aws sleep_clock split: if_splits)

lemma fueled_registration: "fueled (registration_round env cfg inst deadline)"
  unfolding registration_round_def by (auto intro!: fuel_intros)

interpretation registration: deadline_loop deadline "registration_round env cfg inst deadline"
  for env cfg inst deadline
  by unfold_locales (rule registration_goes_on, assumption, rule fueled_registration)

lemma fueled_hashable [fuel_intros]: "fueledE (hashable v)"
  by (cases v) (simp_all add: hashable_def fueledE_def type_error_def)

lemma fueled_command_end [fuel_intros]: "fueledE (command_end i)"
  unfolding command_end_def by (auto intro!: fuel_intros)

lemma invocation_answer_clock:
  assumes "invocation_answer env cfg inst command_id w = (Inr i, w')"
  shows "clock w \<le> clock w'" and "i = None \<Longrightarrow> clock w < clock w'"
  using assms
  by (auto simp: invocation_answer_def try_except_def seq_Inr seq_Inl ret_run raising_run
      dest!: clock_aws sleep_clock split: prod.splits sum.splits exn.splits if_splits)

lemma invocation_goes_on:
  assumes "invocation_round env cfg inst command_id deadline w = (Inr None, w')"
  shows "clock w < deadline \<and> clock w < clock w'"
proof -
  obtain i u where t: "clock w < deadline" and i: "invocation_answer env cfg inst command_id w = (Inr i, u)"
    and rest: "(case i of None \<Rightarrow> ret None
       | Some v \<Rightarrow> seq (liftE (command_end v)) (\<lambda>r.
           if r = Some () then ret r else seq (sleep (calls env) 15000) (\<lambda>_. ret None))) u = (Inr None, w')"
    using assms by (auto simp: invocation_round_def seq_Inr raising_run split: if_splits)
  from rest invocation_answer_clock [OF i] have "clock w < clock w'"
    by (cases i) (auto simp: ret_run seq_Inr liftE_run dest!: sleep_clock split: if_splits)
  with t show ?thesis by simp
qed

lemma fueled_invocation: "fueled (invocation_round env cfg inst command_id deadline)"
  unfolding invocation_round_def invocation_answer_def
  by (auto intro!: fuel_intros split: option.splits exn.splits)

interpretation invocation: deadline_loop deadline "invocation_round env cfg inst command_id deadline"
  for env cfg inst command_id deadline
  by unfold_locales (rule invocation_goes_on, assumption, rule fueled_invocation)


section \<open>The words of the script\<close>

lemma is_digit_safe: "is_digit c \<Longrightarrow> safe_char c"
  unfolding is_digit_def safe_char_def Let_def by blast

lemma letter_safe:
  assumes "char_range CHR ''a'' CHR ''z'' c \<or> char_range CHR ''A'' CHR ''Z'' c"
  shows "safe_char c"
proof -
  have "(97 :: nat) \<le> of_char c \<and> of_char c \<le> (122 :: nat) \<or> (65 :: nat) \<le> of_char c \<and> of_char c \<le> (90 :: nat)"
    using assms by (simp add: char_range_def less_eq_char_def)
  then show ?thesis unfolding safe_char_def Let_def by blast
qed

lemma tag_char_safe: "tag_char c \<Longrightarrow> safe_char c"
proof -
  have "safe_char (CHR ''.'')" "safe_char (CHR ''_'')" "safe_char (CHR ''-'')" by code_simp+
  then show "tag_char c \<Longrightarrow> safe_char c"
    unfolding tag_char_def using is_digit_safe letter_safe by blast
qed

lemma region_char_safe: "region_char c \<Longrightarrow> safe_char c"
proof -
  have "safe_char (CHR ''-'')" by code_simp
  then show "region_char c \<Longrightarrow> safe_char c"
    unfolding region_char_def using is_digit_safe letter_safe by blast
qed

lemma is_tag_safe: "is_tag tag \<Longrightarrow> tag \<noteq> [] \<and> list_all safe_char tag"
  by (auto simp: is_tag_def list_all_iff dest: tag_char_safe)

lemma is_registry_safe:
  assumes "is_registry s"
  shows "s \<noteq> [] \<and> list_all safe_char s"
proof -
  define a where "a = takeWhile is_digit s"
  define r where "r = drop (length a + length ''.dkr.ecr.'') s"
  define p where "p = takeWhile region_char r"
  have a: "a \<noteq> []" and mid: "startswith (drop (length a) s) ''.dkr.ecr.''"
    and tail: "drop (length p) r = ''.amazonaws.com''"
    using assms by (auto simp: is_registry_def Let_def a_def r_def p_def drop_drop add.commute)
  have "s = a @ drop (length a) s" unfolding a_def by (metis dropWhile_eq_drop takeWhile_dropWhile_id)
  moreover have "drop (length a) s = ''.dkr.ecr.'' @ r"
  proof -
    obtain z where z: "drop (length a) s = ''.dkr.ecr.'' @ z" using mid by (auto simp: prefix_def)
    have "r = drop (length ''.dkr.ecr.'') (drop (length a) s)" by (simp only: r_def drop_drop add.commute)
    then show ?thesis unfolding z by simp
  qed
  moreover have "r = p @ ''.amazonaws.com''"
    using tail unfolding p_def by (metis dropWhile_eq_drop takeWhile_dropWhile_id)
  ultimately have s: "s = a @ ''.dkr.ecr.'' @ p @ ''.amazonaws.com''" by simp
  have "list_all safe_char a" unfolding a_def
    by (auto simp: list_all_iff dest: set_takeWhileD is_digit_safe)
  moreover have "list_all safe_char p" unfolding p_def
    by (auto simp: list_all_iff dest: set_takeWhileD region_char_safe)
  moreover have "list_all safe_char ''.dkr.ecr.''" "list_all safe_char ''.amazonaws.com''" by code_simp+
  ultimately show ?thesis using a unfolding s by simp
qed

lemma repository_cases:
  "map_of repositories name = Some (repo, dockerfile) \<Longrightarrow>
     (name, repo, dockerfile) \<in> set repositories"
  by (rule map_of_SomeD)

lemma repository_safe:
  assumes "map_of repositories name = Some (repo, dockerfile)"
  shows "name \<noteq> [] \<and> list_all safe_char name \<and> list_all safe_char repo
    \<and> dockerfile \<noteq> [] \<and> list_all safe_char dockerfile"
proof -
  have "\<forall>(n, r, d) \<in> set repositories. n \<noteq> [] \<and> list_all safe_char n \<and> list_all safe_char r
      \<and> d \<noteq> [] \<and> list_all safe_char d"
    by code_simp
  with repository_cases [OF assms] show ?thesis by blast
qed

lemma known_images:
  "unknown_images imgs nydus = [] \<longleftrightarrow> (\<forall>n \<in> set imgs \<union> set nydus. map_of repositories n \<noteq> None)"
proof -
  have "sort xs = [] \<longleftrightarrow> xs = []" for xs :: "string list" by (metis set_empty set_sort)
  then show ?thesis by (auto simp: unknown_images_def filter_empty_conv)
qed

lemma build_commands_cases:
  assumes "build_commands url registry tag imgs nydus = Inr cmds"
  obtains built converted where "is_tag tag" and "is_registry registry"
    and "\<forall>n \<in> set imgs \<union> set nydus. map_of repositories n \<noteq> None" and "set nydus \<subseteq> set imgs"
    and "mapE (image_commands registry tag) imgs = Inr built"
    and "mapE (nydus_commands registry tag) nydus = Inr converted"
    and "cmds = prepare_commands url registry @ concat built
      @ (if nydus = [] then [] else nydus_setup @ concat converted)"
  using assms by (auto simp: build_commands_def result_iff known_images split: if_splits)

lemma build_commands_total:
  assumes "is_tag tag" "is_registry registry" "set nydus \<subseteq> set imgs"
    and "\<forall>n \<in> set imgs. map_of repositories n \<noteq> None"
  shows "\<exists>cmds. build_commands url registry tag imgs nydus = Inr cmds"
proof -
  have known: "\<forall>n \<in> set imgs \<union> set nydus. map_of repositories n \<noteq> None" using assms(3,4) by blast
  have "\<exists>l. image_commands registry tag n = Inr l" "\<exists>l. nydus_commands registry tag n = Inr l"
    if "map_of repositories n \<noteq> None" for n
    using that by (auto simp: image_commands_def nydus_commands_def repository_of_def Let_def)
  with known have "\<exists>l. mapE (image_commands registry tag) imgs = Inr l"
    and "\<exists>l. mapE (nydus_commands registry tag) nydus = Inr l"
    by (blast intro: mapE_total)+
  with assms known show "\<exists>cmds. build_commands url registry tag imgs nydus = Inr cmds"
    by (auto simp: build_commands_def known_images)
qed

text \<open>The script as it is meant: the words and operators of every line.\<close>

abbreviation words :: "string list \<Rightarrow> shell_token list" where
  "words ws \<equiv> map Arg ws"

definition prepare_tokens :: "string \<Rightarrow> string \<Rightarrow> shell_token list list" where
  "prepare_tokens url registry =
     [words [''set'', ''-euo'', ''pipefail''],
      words [''echo'', ''Installing the container build runtime''],
      words [''dnf'', ''install'', ''-q'', ''-y'', ''docker''],
      words [''systemctl'', ''enable'', ''--now'', ''docker''],
      words [''rm'', ''-rf'', ''/opt/xolis-build''] @ [Operator (CHR ''&''), Operator (CHR ''&'')]
        @ words [''mkdir'', ''-p'', ''/opt/xolis-build''],
      words [''echo'', ''Downloading the committed source archive''],
      words [''curl'', ''--fail'', ''--silent'', ''--show-error'', ''--location'', url, ''--output'',
            ''/opt/xolis-source.tar.gz''],
      words [''tar'', ''-xzf'', ''/opt/xolis-source.tar.gz'', ''-C'', ''/opt/xolis-build''],
      words [''cd'', ''/opt/xolis-build''],
      words [''aws'', ''ecr'', ''get-login-password''] @ [Operator (CHR ''|'')]
        @ words [''docker'', ''login'', ''--username'', ''AWS'', ''--password-stdin'', registry]
        @ [Operator (CHR ''>''), Arg ''/dev/null'']]"

definition image_tokens :: "string \<Rightarrow> string \<Rightarrow> string \<Rightarrow> shell_token list list" where
  "image_tokens registry tag name =
     (case map_of repositories name of None \<Rightarrow> []
      | Some (repository, dockerfile) \<Rightarrow>
          let reference = registry @ ''/'' @ repository @ '':'' @ tag; built = name @ '':'' @ tag in
          [words [''echo'', ''Building '' @ name],
           words [''docker'', ''build'', ''--pull'', ''--file'', dockerfile, ''--tag'', built, ''.''],
           words [''docker'', ''tag'', built, reference],
           words [''echo'', ''Pushing '' @ name],
           words [''docker'', ''push'', ''--quiet'', reference]])"

definition nydus_setup_tokens :: "shell_token list list" where
  "nydus_setup_tokens =
     [words [''echo'', ''Installing the pinned Nydus conversion tools''],
      words [''curl'', ''--fail'', ''--silent'', ''--show-error'', ''--location'',
            ''https://github.com/dragonflyoss/nydus/releases/download/v'' @ nydus_version @ ''/'' @ nydus_archive,
            ''--output'', ''/opt/'' @ nydus_archive],
      words [''echo'', nydus_archive_sha256 @ ''  /opt/'' @ nydus_archive] @ [Operator (CHR ''|'')]
        @ words [''sha256sum'', ''--check'', ''--strict''],
      words [''tar'', ''-xzf'', ''/opt/'' @ nydus_archive, ''-C'', ''/opt''],
      words [''install'', ''-m'', ''0755'', ''/opt/nydus-static/nydus-image'', ''/usr/local/bin/nydus-image''],
      words [''install'', ''-m'', ''0755'', ''/opt/nydus-static/nydusify'', ''/usr/local/bin/nydusify''],
      words [''install'', ''-m'', ''0755'', ''/opt/nydus-static/nydusd'', ''/usr/local/bin/nydusd'']]"

definition nydus_tokens :: "string \<Rightarrow> string \<Rightarrow> string \<Rightarrow> shell_token list list" where
  "nydus_tokens registry tag name =
     (case map_of repositories name of None \<Rightarrow> []
      | Some (repository, _) \<Rightarrow>
          let source = registry @ ''/'' @ repository @ '':'' @ tag; target = source @ ''-nydus'' in
          [words [''echo'', ''Converting '' @ name @ '' to Nydus format''],
           words [''nydusify'', ''convert'', ''--source'', source, ''--target'', target],
           words [''echo'', ''Checking '' @ name @ '' Nydus manifest and bootstrap''],
           words [''nydusify'', ''check'', ''--target'', target]])"

definition script_tokens ::
  "string \<Rightarrow> string \<Rightarrow> string \<Rightarrow> string list \<Rightarrow> string list \<Rightarrow> shell_token list list" where
  "script_tokens url registry tag imgs nydus =
     prepare_tokens url registry @ concat (map (image_tokens registry tag) imgs)
     @ (if nydus = [] then [] else nydus_setup_tokens @ concat (map (nydus_tokens registry tag) nydus))"

text \<open>The shell reads a list of lines as these tokens.\<close>

definition reads_as :: "string list \<Rightarrow> shell_token list list \<Rightarrow> bool" where
  "reads_as lines tokens \<longleftrightarrow> map shell_reads lines = map Some tokens"

lemma reads_as_append: "reads_as a b \<Longrightarrow> reads_as c d \<Longrightarrow> reads_as (a @ c) (b @ d)"
  by (simp add: reads_as_def)

lemma reads_as_parts:
  "mapE f xs = Inr ys \<Longrightarrow> (\<And>x y. x \<in> set xs \<Longrightarrow> f x = Inr y \<Longrightarrow> reads_as y (g x)) \<Longrightarrow>
     reads_as (concat ys) (concat (map g xs))"
  by (induction xs arbitrary: ys) (auto simp: result_iff reads_as_def)

lemma curl_line:
  "shell_reads (''curl --fail --silent --show-error --location '' @ shell_quote url
      @ '' --output /opt/xolis-source.tar.gz'')
   = Some (words [''curl'', ''--fail'', ''--silent'', ''--show-error'', ''--location'', url, ''--output'',
            ''/opt/xolis-source.tar.gz''])"
proof -
  let ?ts = "[''curl'', ''--fail'', ''--silent'', ''--show-error'', ''--location'', shell_quote url, ''--output'',
      ''/opt/xolis-source.tar.gz'']"
  have plain: "list_all plain_word
      [''curl'', ''--fail'', ''--silent'', ''--show-error'', ''--location'', ''--output'',
       ''/opt/xolis-source.tar.gz'']" by code_simp
  have "shell_quote url = quote_body url" by (simp add: shell_quote_def quote_body_def)
  then have "list_all2 says ?ts
      [words [''curl''], words [''--fail''], words [''--silent''], words [''--show-error''], words [''--location''],
       words [url], words [''--output''], words [''/opt/xolis-source.tar.gz'']]"
    using plain by (simp add: says_plain says_word writes_quote_body)
  from says_line [OF this] show ?thesis by simp
qed

lemma login_line:
  assumes "plain_word registry"
  shows "shell_reads (''aws ecr get-login-password | docker login --username AWS --password-stdin '' @ registry
        @ '' >/dev/null'')
    = Some (words [''aws'', ''ecr'', ''get-login-password''] @ [Operator (CHR ''|'')]
        @ words [''docker'', ''login'', ''--username'', ''AWS'', ''--password-stdin'', registry]
        @ [Operator (CHR ''>''), Arg ''/dev/null''])"
proof -
  let ?ts = "[''aws'', ''ecr'', ''get-login-password'', ''|'', ''docker'', ''login'', ''--username'', ''AWS'',
      ''--password-stdin'', registry, ''>/dev/null'']"
  have plain: "list_all plain_word [''aws'', ''ecr'', ''get-login-password'', ''docker'', ''login'', ''--username'',
      ''AWS'', ''--password-stdin'']" and target: "plain_word ''/dev/null''" by code_simp+
  have "shell_operator CHR ''|''" "shell_operator CHR ''>''" by code_simp+
  then have "says ''|'' [Operator (CHR ''|'')]" "says ''>/dev/null'' [Operator (CHR ''>''), Arg ''/dev/null'']"
    using target says_operator_word [of "CHR ''>''" "''/dev/null''"]
    by (simp_all add: says_operator plain_word_def writes_safe)
  with plain assms have "list_all2 says ?ts
      [words [''aws''], words [''ecr''], words [''get-login-password''], [Operator (CHR ''|'')], words [''docker''],
       words [''login''], words [''--username''], words [''AWS''], words [''--password-stdin''], words [registry],
       [Operator (CHR ''>''), Arg ''/dev/null'']]"
    by (simp add: says_plain)
  from says_line [OF this] show ?thesis by simp
qed

lemma prepare_reads:
  assumes "plain_word registry"
  shows "reads_as (prepare_commands url registry) (prepare_tokens url registry)"
proof -
  have "map shell_reads [''set -euo pipefail'', ''echo '' @ quoted ''Installing the container build runtime'',
      ''dnf install -q -y docker'', ''systemctl enable --now docker'',
      ''rm -rf /opt/xolis-build && mkdir -p /opt/xolis-build'',
      ''echo '' @ quoted ''Downloading the committed source archive'']
    = map Some (take 6 (prepare_tokens [] []))"
    "map shell_reads [''tar -xzf /opt/xolis-source.tar.gz -C /opt/xolis-build'', ''cd /opt/xolis-build'']
    = map Some (take 2 (drop 7 (prepare_tokens [] [])))"
    by code_simp+
  then show ?thesis
    using curl_line [of url] login_line [OF assms]
    by (simp add: reads_as_def prepare_commands_def prepare_tokens_def)
qed

lemma nydus_setup_reads: "reads_as nydus_setup nydus_setup_tokens"
  unfolding reads_as_def by code_simp

lemma quiet_names: "(name, r) \<in> set repositories \<Longrightarrow> QUOTE \<notin> set name"
proof -
  have "\<forall>(n, r) \<in> set repositories. QUOTE \<notin> set n" by code_simp
  then show "(name, r) \<in> set repositories \<Longrightarrow> QUOTE \<notin> set name" by blast
qed

lemma image_reads:
  assumes "image_commands registry tag name = Inr lines"
    and "list_all safe_char registry" and "list_all safe_char tag" and "registry \<noteq> []"
  shows "reads_as lines (image_tokens registry tag name)"
proof -
  obtain repository dockerfile where r: "map_of repositories name = Some (repository, dockerfile)"
    using assms(1) by (auto simp: image_commands_def repository_of_def split: option.splits)
  have quiet: "QUOTE \<notin> set (''Building '' @ name)" "QUOTE \<notin> set (''Pushing '' @ name)"
    using quiet_names [OF map_of_SomeD [OF r]] by simp_all
  have marks: "list_all safe_char ''/'' \<and> list_all safe_char '':''"
    and plain: "list_all plain_word [''docker'', ''build'', ''--pull'', ''--file'', ''--tag'', ''.'', ''tag'',
      ''push'', ''--quiet'']" by code_simp+
  let ?reference = "registry @ ''/'' @ repository @ '':'' @ tag" and ?built = "name @ '':'' @ tag"
  have safe: "plain_word dockerfile" "plain_word ?built" "plain_word ?reference"
    using repository_safe [OF r] marks assms(2-4) by (simp_all add: plain_word_def)
  have "shell_reads (''docker build --pull --file '' @ dockerfile @ '' --tag '' @ ?built @ '' .'')
      = Some (words [''docker'', ''build'', ''--pull'', ''--file'', dockerfile, ''--tag'', ?built, ''.''])"
    "shell_reads (''docker tag '' @ ?built @ '' '' @ ?reference) = Some (words [''docker'', ''tag'', ?built, ?reference])"
    "shell_reads (''docker push --quiet '' @ ?reference) = Some (words [''docker'', ''push'', ''--quiet'', ?reference])"
    using plain safe
      plain_line [of "[''docker'', ''build'', ''--pull'', ''--file'', dockerfile, ''--tag'', ?built, ''.'']"]
      plain_line [of "[''docker'', ''tag'', ?built, ?reference]"]
      plain_line [of "[''docker'', ''push'', ''--quiet'', ?reference]"]
    by simp_all
  moreover have "shell_reads (''echo '' @ quoted (''Building '' @ name)) = Some (words [''echo'', ''Building '' @ name])"
    "shell_reads (''echo '' @ quoted (''Pushing '' @ name)) = Some (words [''echo'', ''Pushing '' @ name])"
    using echo_line [OF quiet(1)] echo_line [OF quiet(2)] by (simp_all add: quoted_def)
  ultimately show ?thesis
    using assms(1) r
    by (auto simp: reads_as_def image_commands_def image_tokens_def repository_of_def Let_def)
qed

lemma nydus_reads:
  assumes "nydus_commands registry tag name = Inr lines"
    and "list_all safe_char registry" and "list_all safe_char tag" and "registry \<noteq> []"
  shows "reads_as lines (nydus_tokens registry tag name)"
proof -
  obtain repository dockerfile where r: "map_of repositories name = Some (repository, dockerfile)"
    using assms(1) by (auto simp: nydus_commands_def repository_of_def split: option.splits)
  have "QUOTE \<notin> set (''Converting '' @ '' to Nydus format'')"
    "QUOTE \<notin> set (''Checking '' @ '' Nydus manifest and bootstrap'')" by code_simp+
  then have quiet: "QUOTE \<notin> set (''Converting '' @ name @ '' to Nydus format'')"
    "QUOTE \<notin> set (''Checking '' @ name @ '' Nydus manifest and bootstrap'')"
    using quiet_names [OF map_of_SomeD [OF r]] by auto
  have marks: "list_all safe_char ''/'' \<and> list_all safe_char '':'' \<and> list_all safe_char ''-nydus''"
    and plain: "list_all plain_word [''nydusify'', ''convert'', ''--source'', ''--target'', ''check'']" by code_simp+
  let ?source = "registry @ ''/'' @ repository @ '':'' @ tag"
  let ?target = "?source @ ''-nydus''"
  have safe: "plain_word ?source" "plain_word ?target"
    using repository_safe [OF r] marks assms(2-4) by (simp_all add: plain_word_def)
  have "shell_reads (''nydusify convert --source '' @ ?source @ '' --target '' @ ?target)
      = Some (words [''nydusify'', ''convert'', ''--source'', ?source, ''--target'', ?target])"
    "shell_reads (''nydusify check --target '' @ ?target) = Some (words [''nydusify'', ''check'', ''--target'', ?target])"
    using plain safe
      plain_line [of "[''nydusify'', ''convert'', ''--source'', ?source, ''--target'', ?target]"]
      plain_line [of "[''nydusify'', ''check'', ''--target'', ?target]"]
    by simp_all
  moreover have "shell_reads (''echo '' @ quoted (''Converting '' @ name @ '' to Nydus format''))
      = Some (words [''echo'', ''Converting '' @ name @ '' to Nydus format''])"
    "shell_reads (''echo '' @ quoted (''Checking '' @ name @ '' Nydus manifest and bootstrap''))
      = Some (words [''echo'', ''Checking '' @ name @ '' Nydus manifest and bootstrap''])"
    using echo_line [OF quiet(1)] echo_line [OF quiet(2)] by (simp_all add: quoted_def)
  ultimately show ?thesis
    using assms(1) r
    by (auto simp: reads_as_def nydus_commands_def nydus_tokens_def repository_of_def Let_def)
qed


section \<open>Properties of the script\<close>

text \<open>\<open>build_commands\<close> accepts exactly the safe tags, the private ECR registries and the known
  images among which the ones to convert were selected; it never raises from the table lookups.\<close>

theorem build_commands_accepts:
  "(\<exists>cmds. build_commands url registry tag imgs nydus = Inr cmds) \<longleftrightarrow>
     is_tag tag \<and> is_registry registry \<and> set nydus \<subseteq> set imgs
     \<and> list_all (\<lambda>n. map_of repositories n \<noteq> None) imgs"
  unfolding list_all_iff
proof
  assume "\<exists>cmds. build_commands url registry tag imgs nydus = Inr cmds"
  then show "is_tag tag \<and> is_registry registry \<and> set nydus \<subseteq> set imgs
     \<and> (\<forall>n \<in> set imgs. map_of repositories n \<noteq> None)"
    by (metis UnCI build_commands_cases)
qed (blast intro: build_commands_total)

text \<open>C30: no value can break out of its word in the script: whatever address, registry, tag and images it
  was built from, the shell reads every line of it as the words and operators that are meant there, the
  source address with whatever quotes, separators or newlines it holds as one argument of the one \<open>curl\<close>,
  and nothing else is in the script.\<close>

theorem build_commands_words:
  assumes "build_commands url registry tag imgs nydus = Inr cmds"
  shows "reads_as cmds (script_tokens url registry tag imgs nydus)"
proof -
  obtain built converted where ok: "is_tag tag" "is_registry registry"
    and built: "mapE (image_commands registry tag) imgs = Inr built"
    and converted: "mapE (nydus_commands registry tag) nydus = Inr converted"
    and cmds: "cmds = prepare_commands url registry @ concat built
      @ (if nydus = [] then [] else nydus_setup @ concat converted)"
    using build_commands_cases [OF assms] by metis
  have safe: "list_all safe_char registry" "list_all safe_char tag" "registry \<noteq> []"
    using is_tag_safe [OF ok(1)] is_registry_safe [OF ok(2)] by simp_all
  have "reads_as (concat built) (concat (map (image_tokens registry tag) imgs))"
    using built by (rule reads_as_parts) (rule image_reads [OF _ safe])
  moreover have "reads_as (concat converted) (concat (map (nydus_tokens registry tag) nydus))"
    using converted by (rule reads_as_parts) (rule nydus_reads [OF _ safe])
  moreover have "reads_as [] []" by (simp add: reads_as_def)
  ultimately show ?thesis
    using safe prepare_reads nydus_setup_reads
    by (simp add: cmds script_tokens_def reads_as_append plain_word_def)
qed


text \<open>A presigned address with a quote and a command separator in it.\<close>

definition demo_url :: string where
  "demo_url = ''https://b/k?x='' @ [QUOTE] @ '';rm -rf /''"

definition demo_registry :: string where
  "demo_registry = ''123456789012.dkr.ecr.us-east-1.amazonaws.com''"

theorem build_commands_words_witness:
  "\<exists>cmds. build_commands demo_url demo_registry ''0a1b'' [''xolis-api''] [''xolis-api''] = Inr cmds
    \<and> reads_as cmds (script_tokens demo_url demo_registry ''0a1b'' [''xolis-api''] [''xolis-api''])"
proof -
  have "is_tag ''0a1b'' \<and> is_registry demo_registry" "map_of repositories ''xolis-api'' \<noteq> None" by code_simp+
  then obtain cmds where "build_commands demo_url demo_registry ''0a1b'' [''xolis-api''] [''xolis-api''] = Inr cmds"
    using build_commands_total [of "''0a1b''" demo_registry "[''xolis-api'']" "[''xolis-api'']" demo_url] by auto
  with build_commands_words [OF this] show ?thesis by blast
qed


section \<open>What a run leaves behind\<close>

lemma extends_aws [keeps_intros]:
  "keeps (extends t) (aws_run env cfg args)" "keeps (extends t) (aws_text env cfg args)"
  "keeps (extends t) (aws_json env cfg args)"
  by (rule keeps_aws, rule extends_run)+

lemma aws_run_trace: "trace (snd (aws_run env cfg args w)) = trace w @ [Run (aws_command cfg args) []]"
  using run_process_trace [of env "aws_command cfg args" "[]" w]
  by (auto simp: aws_run_def Let_def seq_def ret_def raising_def split: prod.splits sum.splits)

lemma aws_text_trace: "trace (snd (aws_text env cfg args w)) = trace w @ [Run (aws_command cfg args) []]"
  using aws_run_trace [of env cfg args w]
  by (auto simp: aws_text_def seq_def ret_def split: prod.splits sum.splits)

abbreviation same_instance :: "string option \<Rightarrow> builder \<Rightarrow> bool" where
  "same_instance i \<equiv> \<lambda>w. instance_id w = i"

lemma same_instance_run [keeps_intros]: "keeps (same_instance i) (run_process env argv text)"
  by (rule keeps_run_process) simp

lemma same_instance_aws [keeps_intros]:
  "keeps (same_instance i) (aws_run env cfg args)" "keeps (same_instance i) (aws_text env cfg args)"
  "keeps (same_instance i) (aws_json env cfg args)"
  by (rule keeps_aws, rule same_instance_run)+

lemma keeps_cleanup:
  assumes "\<And>argv. keeps I (run_process (calls env) argv [])"
  shows "keeps I (cleanup_instance env cfg)" and "keeps I (cleanup_source env cfg)"
    and "keeps I (cleanup env cfg)"
proof -
  note aws = keeps_aws [of I "calls env", OF assms]
  show a: "keeps I (cleanup_instance env cfg)" unfolding cleanup_instance_def
    by (auto intro!: keeps_intros aws split: option.splits)
  show b: "keeps I (cleanup_source env cfg)" unfolding cleanup_source_def
    by (auto intro!: keeps_intros aws split: option.splits prod.splits)
  from a b show "keeps I (cleanup env cfg)" unfolding cleanup_def by (intro keeps_intros)
qed

lemma extends_after_first:
  assumes "trace (snd (m w)) = trace w @ [c]" and "\<And>a t. keeps (extends t) (f a)"
  shows "ran c (snd (seq m f w))"
proof (cases "m w")
  case (Pair r u)
  with assms(1) have u: "extends (trace w @ [c]) u" by (simp add: extends_def)
  show ?thesis
  proof (cases r)
    case (Inl e)
    with Pair extends_ran [OF _ u, of c] show ?thesis by simp
  next
    case (Inr a)
    with Pair extends_ran [OF _ keeps_run [OF assms(2) u], of c] show ?thesis by simp
  qed
qed

lemma cleanup_instance_terminates:
  assumes "instance_id w = Some i" and "i \<noteq> []" and "\<not> keep_instance cfg"
  shows "ran (Run (terminate_call cfg i) []) (snd (cleanup_instance env cfg w))"
proof -
  have "\<exists>f. cleanup_instance env cfg w
      = seq (aws_text (calls env) cfg [''ec2'', ''terminate-instances'', ''--instance-ids'', i]) f w
      \<and> (\<forall>a t. keeps (extends t) (f a))"
    using assms by (auto simp: cleanup_instance_def seq_def [of "gets instance_id"] gets_def intro!: exI keeps_intros)
  then obtain f where f: "cleanup_instance env cfg w
      = seq (aws_text (calls env) cfg [''ec2'', ''terminate-instances'', ''--instance-ids'', i]) f w"
    and k: "\<And>a t. keeps (extends t) (f a)" by blast
  have "trace (snd (aws_text (calls env) cfg [''ec2'', ''terminate-instances'', ''--instance-ids'', i] w))
      = trace w @ [Run (terminate_call cfg i) []]"
    by (simp add: aws_text_trace terminate_call_def)
  from extends_after_first [of "aws_text (calls env) cfg
      [''ec2'', ''terminate-instances'', ''--instance-ids'', i]" w, OF this k]
  show ?thesis unfolding f .
qed

lemma cleanup_terminates:
  assumes "instance_id w = Some i" and "i \<noteq> []" and "\<not> keep_instance cfg"
  shows "ran (Run (terminate_call cfg i) []) (snd (cleanup env cfg w))"
proof (cases "cleanup_instance env cfg w")
  case (Pair r u)
  have "ran (Run (terminate_call cfg i) []) u"
    using cleanup_instance_terminates [OF assms, of env] Pair by simp
  moreover have "extends (trace u) (snd (cleanup_source env cfg u))"
    using keeps_run [OF keeps_cleanup(2) [OF extends_run [of "trace u"]]] by (auto simp: extends_def)
  ultimately show ?thesis
    using Pair by (cases r) (auto simp: cleanup_def dest: extends_ran)
qed

lemma run_result:
  assumes "run env cfg w = (r, w')"
  shows "(\<exists>e. r = Inl e \<and> instance_id w' = instance_id w \<and> source_uri w' = source_uri w)
    \<or> (\<exists>commit tag v x u y. build_steps env cfg commit tag v = (x, u) \<and> cleanup env cfg u = (y, w')
        \<and> r = (case y of Inl e \<Rightarrow> Inl e | Inr _ \<Rightarrow> x)
        \<and> instance_id v = instance_id w \<and> source_uri v = source_uri w)"
proof -
  obtain x v where git: "run_checked (calls env) [''git'', ''rev-parse'', ''HEAD''] w = (x, v)" by fastforce
  have same: "instance_id v = instance_id w \<and> source_uri v = source_uri w"
  proof -
    have "keeps (\<lambda>u. instance_id u = instance_id w \<and> source_uri u = source_uri w)
        (run_checked (calls env) [''git'', ''rev-parse'', ''HEAD''])"
      unfolding run_checked_def by (auto intro!: keeps_intros keeps_run_process split: prod.splits)
    from keeps_run [OF this, of w] git show ?thesis by simp
  qed
  show ?thesis
    using assms git same
    by (cases x) (fastforce simp: run_def Let_def seq_def liftE_def dest!: try_finally_result
        split: prod.splits sum.splits)+
qed


section \<open>Properties of a run\<close>

text \<open>C4: no run leaves its instance behind: however the run ends, with a result, an error of AWS, a
  time-out or the user's interrupt, the instance it recorded has been asked to terminate, unless it
  was to be kept.\<close>

theorem run_terminates_instance:
  assumes "run env cfg w = (r, w')" and "instance_id w = None"
    and "instance_id w' = Some i" and "i \<noteq> []" and "\<not> keep_instance cfg"
  shows "ran (Run (terminate_call cfg i) []) w'"
proof -
  from run_result [OF assms(1)] assms(2,3) obtain u y where c: "cleanup env cfg u = (y, w')"
    by auto
  have "instance_id u = Some i"
    using keeps_run [OF keeps_cleanup(3) [OF same_instance_run [of "instance_id u"]]] c assms(3)
    by (metis snd_conv)
  from cleanup_terminates [OF this assms(4,5), of env] c show ?thesis by simp
qed

text \<open>An account that answers every call with one document, except that the instance never comes up.\<close>

definition demo_value :: json where
  "demo_value = JObj
     [(''cluster'', JObj [(''resourcesVpcConfig'', JObj [(''subnetIds'', JList [JStr ''s''])])]),
      (''SecurityGroups'', JList [JObj [(''GroupId'', JStr ''g'')]]),
      (''Instances'', JList [JObj [(''InstanceId'', JStr ''i'')]])]"

definition demo_text :: string where
  "demo_text = json_compact demo_value"

definition demo_calls :: environment where
  "demo_calls history c =
     (case c of
        Run argv text \<Rightarrow>
          if ''instance-status-ok'' \<in> set argv then (Completed 255 [] ''timed out'', 5)
          else (Completed 0 demo_text [], 5)
      | _ \<Rightarrow> (Completed 0 [] [], 0))"

definition demo_surroundings :: surroundings where
  "demo_surroundings = \<lparr>calls = demo_calls, on_path = (\<lambda>_. True), stamp = ''20250101000000'', epoch = 0,
     archive = ''/tmp/source.tar.gz'', repr = (\<lambda>_. [])\<rparr>"

definition demo_builder_config :: builder_config where
  "demo_builder_config = \<lparr>profile = [], region = ''r'', cluster_name = ''c'', source_bucket = ''b'',
     instance_type = ''t'', images = [''xolis-api''], nydus_images = [], keep_instance = False,
     timeout_seconds = 60\<rparr>"

lemma demo_text_facts:
  "strip demo_text \<noteq> []" "''instance-status-ok'' \<noteq> strip demo_text"
  "json_loads demo_text = Inr demo_value"
proof -
  show "strip demo_text \<noteq> []" "''instance-status-ok'' \<noteq> strip demo_text" by code_simp+
  have "json_ok demo_value" by code_simp
  then show "json_loads demo_text = Inr demo_value" unfolding demo_text_def by (rule json_loads_compact)
qed

lemma demo_run_process:
  "''instance-status-ok'' \<notin> set argv \<Longrightarrow> run_process demo_calls argv text w
     = (Inr (0, demo_text, []), w\<lparr>clock := clock w + 5, trace := trace w @ [Run argv text]\<rparr>)"
  "''instance-status-ok'' \<in> set argv \<Longrightarrow> run_process demo_calls argv text w
     = (Inr (255, [], ''timed out''), w\<lparr>clock := clock w + 5, trace := trace w @ [Run argv text]\<rparr>)"
  by (simp_all add: run_process_def perform_call_def demo_calls_def ret_run)

lemma demo_instance:
  "instance_id (snd (run demo_surroundings demo_builder_config new_builder)) = Some ''i''"
proof -
  note steps = run_checked_def aws_text_def aws_json_def aws_run_def aws_command_def Let_def
    demo_run_process demo_text_facts ret_run liftE_run raising_run
  obtain v where git: "run_checked demo_calls [''git'', ''rev-parse'', ''HEAD''] new_builder = (Inr demo_text, v)"
    by (simp add: steps)
  have "instance_id (snd (build_steps demo_surroundings demo_builder_config c t v)) = Some ''i''" for c t
    by (simp add: build_steps_def upload_source_def lookup_security_group_def launch_instance_def
        wait_for_instance_def own_instance_def demo_surroundings_def demo_builder_config_def steps
        demo_value_def json_reads)
  then have "instance_id (snd (try_finally (build_steps demo_surroundings demo_builder_config c t)
      (cleanup demo_surroundings demo_builder_config) v)) = Some ''i''" for c t
    using keeps_run [OF keeps_cleanup(3) [OF same_instance_run [of "Some ''i''"]]]
    by (auto simp: try_finally_def split: prod.splits sum.splits) (metis snd_conv)+
  then show ?thesis
    using git by (simp add: run_def require_executables_def demo_surroundings_def liftE_run Let_def)
qed

theorem run_terminates_instance_witness:
  "ran (Run (terminate_call demo_builder_config ''i'') []) (snd (run demo_surroundings demo_builder_config new_builder))"
proof -
  have "run demo_surroundings demo_builder_config new_builder
      = (fst (run demo_surroundings demo_builder_config new_builder), snd (run demo_surroundings demo_builder_config new_builder))"
    by simp
  from run_terminates_instance [OF this _ demo_instance] show ?thesis
    by (simp add: new_builder_def demo_builder_config_def)
qed

text \<open>the two halves of the clean-up are not independent: when AWS refuses to terminate the
  instance, the clean-up stops there, and the uploaded source archive stays in its bucket.\<close>

theorem cleanup_skips_source:
  assumes "instance_id w = Some i" and "i \<noteq> []" and "\<not> keep_instance cfg"
    and "calls env (trace w) (Run (terminate_call cfg i) []) = (Completed rc out err, d)" and "rc \<noteq> 0"
  shows "\<exists>m w'. cleanup env cfg w = (Inl (AwsCommandError m), w') \<and> source_uri w' = source_uri w
    \<and> trace w' = trace w @ [Run (terminate_call cfg i) []]"
proof -
  have "\<exists>m. aws_text (calls env) cfg [''ec2'', ''terminate-instances'', ''--instance-ids'', i] w
      = (Inl (AwsCommandError m), w\<lparr>clock := clock w + d, trace := trace w @ [Run (terminate_call cfg i) []]\<rparr>)"
    using assms(4,5)
    by (simp add: aws_text_def aws_run_def Let_def run_process_def perform_call_def ret_run raising_run
        terminate_call_def)
  then show ?thesis
    using assms(1-3) by (auto simp: cleanup_def cleanup_instance_def seq_def [of "gets instance_id"] gets_def)
qed

theorem cleanup_skips_source_witness:
  "\<exists>m w'. cleanup (demo_surroundings\<lparr>calls := \<lambda>_ _. (Completed 1 [] ''denied'', 0)\<rparr>) demo_builder_config
      (new_builder\<lparr>instance_id := Some ''i'', source_uri := Some ''s3://b/k''\<rparr>) = (Inl (AwsCommandError m), w')
    \<and> source_uri w' = Some ''s3://b/k''
    \<and> trace w' = [Run (terminate_call demo_builder_config ''i'') []]"
  using cleanup_skips_source
    [of "new_builder\<lparr>instance_id := Some ''i'', source_uri := Some ''s3://b/k''\<rparr>" "''i''" demo_builder_config
        "demo_surroundings\<lparr>calls := \<lambda>_ _. (Completed 1 [] ''denied'', 0)\<rparr>" 1 "[]" "''denied''" 0]
  by (simp add: demo_builder_config_def new_builder_def)

text \<open>The service reported success of the command at some point.\<close>

definition reported_success :: "surroundings \<Rightarrow> builder_config \<Rightarrow> string \<Rightarrow> string \<Rightarrow> bool" where
  "reported_success env cfg inst command_id \<longleftrightarrow>
     (\<exists>t out err d v. calls env t
          (Run (aws_command cfg [''ssm'', ''get-command-invocation'', ''--command-id'', command_id,
                                 ''--instance-id'', inst]) []) = (Completed 0 out err, d)
        \<and> json_loads out = Inr v \<and> item_at v ''Status'' = Inr (JStr ''Success''))"

lemma aws_json_answer:
  assumes "aws_json env cfg args w = (Inr v, w')" and "item_at v k = Inr x"
  shows "\<exists>t out err d. env t (Run (aws_command cfg args) []) = (Completed 0 out err, d) \<and> json_loads out = Inr v"
proof -
  obtain out u where "aws_run env cfg args w = (Inr out, u)"
    and v: "(if strip out \<noteq> [] then json_loads out else Inr (JObj [])) = Inr v"
    using assms(1) by (auto simp: aws_json_def seq_Inr liftE_run)
  then have "\<exists>err d. env (trace w) (Run (aws_command cfg args) []) = (Completed 0 out err, d)"
    by (auto simp: aws_run_def Let_def seq_Inr run_process_def perform_call_def ret_run raising_run
        split: prod.splits answer.splits if_splits)
  moreover have "json_loads out = Inr v"
    using v assms(2) by (auto simp: item_at_def split: if_splits)
  ultimately show ?thesis by blast
qed

lemma invocation_success:
  assumes "invocation_round env cfg inst command_id deadline w = (Inr (Some u), w')"
  shows "reported_success env cfg inst command_id"
proof -
  obtain i v where i: "invocation_answer env cfg inst command_id w = (Inr i, v)"
    and rest: "(case i of None \<Rightarrow> ret None
       | Some j \<Rightarrow> seq (liftE (command_end j)) (\<lambda>r.
           if r = Some () then ret r else seq (sleep (calls env) 15000) (\<lambda>_. ret None))) v = (Inr (Some u), w')"
    using assms by (auto simp: invocation_round_def seq_Inr raising_run split: if_splits)
  then obtain j where j: "i = Some j" and e: "command_end j = Inr (Some ())"
    by (cases i) (auto simp: ret_run seq_Inr liftE_run split: if_splits)
  from e have s: "item_at j ''Status'' = Inr (JStr ''Success'')"
    by (auto simp: command_end_def result_iff is_str_def split: if_splits)
  obtain a where "aws_json (calls env) cfg [''ssm'', ''get-command-invocation'', ''--command-id'', command_id,
               ''--instance-id'', inst] w = (Inr j, a)"
    using i j by (auto simp: invocation_answer_def try_except_def seq_Inr seq_Inl ret_run raising_run
        split: prod.splits sum.splits exn.splits if_splits)
  from aws_json_answer [OF this s] s show ?thesis unfolding reported_success_def by blast
qed

text \<open>C28: waiting for the remote build comes to an end in every environment, after at most as many
  rounds as the time left allows, and it returns only after the service has reported success.\<close>

theorem wait_for_command_outcome:
  assumes "wait_for_command env cfg command_id w = (r, w')"
  shows "r \<noteq> Inl OutOfFuel
    \<and> (r = Inr u \<longrightarrow> (\<exists>inst. instance_id w = Some inst \<and> reported_success env cfg inst command_id))"
proof
  have "fueled own_instance"
    unfolding own_instance_def assertion_error_def by (auto intro!: fuel_intros split: option.splits)
  then have "fueled (wait_for_command env cfg command_id)"
    unfolding wait_for_command_def Let_def by (intro fuel_intros invocation.loop_returns)
  with assms show "r \<noteq> Inl OutOfFuel" by (metis fst_conv fueledE_def fueled_def)
  show "r = Inr u \<longrightarrow> (\<exists>inst. instance_id w = Some inst \<and> reported_success env cfg inst command_id)"
  proof
    assume "r = Inr u"
    with assms obtain inst d v where inst: "instance_id w = Some inst"
      and loop: "until_deadline d (invocation_round env cfg inst command_id d) v = (Inr u, w')"
      by (auto simp: wait_for_command_def own_instance_def seq_Inr Let_def ret_run raising_run
          split: option.splits)
    obtain a b where "invocation_round env cfg inst command_id d a = (Inr (Some u), b)"
      using until_deadline_last [OF loop] by auto
    from inst invocation_success [OF this]
    show "\<exists>inst. instance_id w = Some inst \<and> reported_success env cfg inst command_id" by blast
  qed
qed

definition success_text :: string where
  "success_text = json_compact (JObj [(''Status'', JStr ''Success'')])"

definition success_calls :: environment where
  "success_calls history c = (Completed 0 success_text [], 10)"

theorem wait_for_command_outcome_witness:
  "fst (wait_for_command (demo_surroundings\<lparr>calls := success_calls\<rparr>) demo_builder_config ''c''
      (new_builder\<lparr>instance_id := Some ''i''\<rparr>)) = Inr ()
   \<and> reported_success (demo_surroundings\<lparr>calls := success_calls\<rparr>) demo_builder_config ''i'' ''c''"
proof -
  let ?env = "demo_surroundings\<lparr>calls := success_calls\<rparr>"
  let ?w = "new_builder\<lparr>instance_id := Some ''i''\<rparr>"
  have "strip success_text \<noteq> []" by code_simp
  moreover have "json_loads success_text = Inr (JObj [(''Status'', JStr ''Success'')])"
    unfolding success_text_def by (rule json_loads_compact) code_simp
  ultimately have "fst (wait_for_command ?env demo_builder_config ''c'' ?w) = Inr ()"
    by (simp add: wait_for_command_def own_instance_def new_builder_def demo_builder_config_def
        until_deadline_def invocation_round_def invocation_answer_def try_except_def aws_json_def
        aws_run_def Let_def run_process_def perform_call_def success_calls_def ret_run liftE_run
        demo_surroundings_def command_end_def hashable_def item_at_def is_str_def terminal_command_states_def)
  moreover from this obtain w' where "wait_for_command ?env demo_builder_config ''c'' ?w = (Inr (), w')"
    by (metis prod.collapse)
  from wait_for_command_outcome [OF this, of "()"] have "reported_success ?env demo_builder_config ''i'' ''c''"
    by simp
  ultimately show ?thesis by blast
qed

end
