(* ===== verification/Py_Float.thy ===== *)
theory Py_Float
  imports Py_Json Complex_Main
begin

text \<open>
  Python's floats. A finite double is the rational number it stands for, and an operation is the exact
  one followed by \<open>to_double\<close>, the rounding of IEEE 754 to 53 significant bits, ties to even; the
  library functions that round only once (\<open>statistics.fmean\<close>, \<open>round\<close>) do so here. Not modelled: the
  infinities and not-a-number, overflow, and the wider spacing of the subnormal numbers.
\<close>

definition round_even :: "rat \<Rightarrow> int" where
  "round_even x =
     (let f = \<lfloor>x\<rfloor>; r = x - of_int f in
      if r < 1 / 2 then f else if 1 / 2 < r then f + 1 else if even f then f else f + 1)"

fun bits :: "nat \<Rightarrow> nat" where
  "bits n = (if n = 0 then 0 else Suc (bits (n div 2)))"

declare bits.simps [simp del]

definition pow2 :: "int \<Rightarrow> rat" where
  "pow2 e = (if 0 \<le> e then 2 ^ nat e else 1 / 2 ^ nat (- e))"

definition floor_log2 :: "rat \<Rightarrow> int" where
  "floor_log2 x =
     (case quotient_of x of
        (a, b) \<Rightarrow> let e = int (bits (nat a)) - int (bits (nat b)) in if pow2 e \<le> x then e else e - 1)"

definition to_double :: "rat \<Rightarrow> rat" where
  "to_double x =
     (if x = 0 then 0
      else let unit = pow2 (floor_log2 \<bar>x\<bar> - 52) in of_int (round_even (x / unit)) * unit)"

definition pow10 :: "int \<Rightarrow> rat" where
  "pow10 e = (if 0 \<le> e then 10 ^ nat e else 1 / 10 ^ nat (- e))"

text \<open>The number a decimal text denotes: a sign, digits around a point, an exponent.\<close>

definition signed :: "string \<Rightarrow> bool \<times> string" where
  "signed s = (if s \<noteq> [] \<and> (hd s = CHR ''-'' \<or> hd s = CHR ''+'') then (hd s = CHR ''-'', tl s) else (False, s))"

definition exponent_value :: "string \<Rightarrow> int option" where
  "exponent_value s =
     (if s = [] then Some 0
      else if hd s \<noteq> CHR ''e'' \<and> hd s \<noteq> CHR ''E'' then None
      else (case signed (tl s) of
              (neg, ds) \<Rightarrow>
                if ds = [] \<or> \<not> list_all is_digit ds then None
                else let n = int (digits_value 0 ds) in Some (if neg then - n else n)))"

definition decimal_value :: "string \<Rightarrow> rat option" where
  "decimal_value s =
     (case signed s of
        (neg, s1) \<Rightarrow>
          let whole = takeWhile is_digit s1;
              s2 = dropWhile is_digit s1;
              pointed = (s2 \<noteq> [] \<and> hd s2 = CHR ''.'');
              places = (if pointed then takeWhile is_digit (tl s2) else []);
              s3 = (if pointed then dropWhile is_digit (tl s2) else s2)
          in if whole @ places = [] then None
             else map_option (\<lambda>e.
                    let m = of_nat (digits_value 0 (whole @ places)) * pow10 (e - int (length places))
                    in if neg then - m else m) (exponent_value s3))"

definition float_of_str :: "string \<Rightarrow> rat result" where
  "float_of_str s =
     (case decimal_value (strip s) of
        None \<Rightarrow> Inl (ValueError (''could not convert string to float''))
      | Some x \<Rightarrow> Inr (to_double x))"

text \<open>\<open>float(x)\<close> of a decoded value.\<close>

definition json_float :: "json \<Rightarrow> rat result" where
  "json_float d =
     (case d of
        JInt i \<Rightarrow> Inr (to_double (of_int i))
      | JBool b \<Rightarrow> Inr (if b then 1 else 0)
      | JFloat lit \<Rightarrow> float_of_str lit
      | JStr s \<Rightarrow> float_of_str s
      | _ \<Rightarrow> Inl type_error)"

definition fadd :: "rat \<Rightarrow> rat \<Rightarrow> rat" where
  "fadd x y = to_double (x + y)"

definition fmul :: "rat \<Rightarrow> rat \<Rightarrow> rat" where
  "fmul x y = to_double (x * y)"

definition fdiv :: "rat \<Rightarrow> rat \<Rightarrow> rat" where
  "fdiv x y = to_double (x / y)"

text \<open>\<open>round(x, 3)\<close>\<close>

definition round3 :: "rat \<Rightarrow> rat" where
  "round3 x = to_double (of_int (round_even (x * 1000)) / 1000)"

text \<open>\<open>statistics.fmean\<close> and \<open>statistics.median\<close> of a list that is not empty. \<open>fmean\<close> divides the
  correctly rounded sum.\<close>

definition fmean :: "rat list \<Rightarrow> rat" where
  "fmean xs = fdiv (to_double (sum_list xs)) (of_nat (length xs))"

definition median :: "rat list \<Rightarrow> rat" where
  "median xs =
     (let s = sort xs; n = length xs in
      if odd n then s ! (n div 2) else fdiv (fadd (s ! (n div 2 - 1)) (s ! (n div 2))) 2)"


section \<open>The rounding error\<close>

lemma pow2_pos: "0 < pow2 e"
  by (simp add: pow2_def)

lemma pow2_add: "pow2 (d + e) = pow2 d * pow2 e"
proof -
  have "pow2 x = 2 powi x" for x by (auto simp: pow2_def power_int_def power_one_over inverse_eq_divide)
  then show ?thesis using power_int_add [of "2 :: rat" d e] by simp
qed

lemma round_even_error: "\<bar>of_int (round_even x) - x\<bar> \<le> 1 / 2"
  using floor_correct [of x] by (auto simp: round_even_def Let_def abs_le_iff)

lemma bits_bounds:
  assumes "0 < n"
  shows "2 ^ (bits n - 1) \<le> n" and "n < 2 ^ bits n" and "0 < bits n"
proof -
  have "2 ^ (bits n - 1) \<le> n \<and> n < 2 ^ bits n \<and> 0 < bits n"
    using assms
  proof (induction n rule: bits.induct)
    case (1 n)
    show ?case
    proof (cases "n div 2 = 0")
      case True
      then have "n = 1" using 1(2) by presburger
      then show ?thesis by (simp add: bits.simps)
    next
      case False
      with 1 have ih: "2 ^ (bits (n div 2) - 1) \<le> n div 2" "n div 2 < 2 ^ bits (n div 2)" "0 < bits (n div 2)"
        by auto
      have b: "bits n = Suc (bits (n div 2))" using 1(2) by (simp add: bits.simps [of n])
      have "2 ^ bits (n div 2) = 2 * (2 :: nat) ^ (bits (n div 2) - 1)" using ih(3) by (cases "bits (n div 2)") simp_all
      moreover have n: "2 * (n div 2) \<le> n" "n < 2 * Suc (n div 2)" by presburger+
      moreover have "2 * 2 ^ (bits (n div 2) - 1) \<le> n" using ih(1) n(1) by linarith
      ultimately show ?thesis unfolding b using ih by simp
    qed
  qed
  then show "2 ^ (bits n - 1) \<le> n" and "n < 2 ^ bits n" and "0 < bits n" by simp_all
qed

lemma floor_log2_le:
  assumes "0 < x"
  shows "pow2 (floor_log2 x) \<le> x"
proof -
  obtain a b where q: "quotient_of x = (a, b)" by fastforce
  have b: "0 < b" and x: "x = of_int a / of_int b"
    using q quotient_of_denom_pos quotient_of_div by auto
  with assms have a: "0 < a" by (simp add: zero_less_divide_iff)
  define p where "p = int (bits (nat a))"
  define r where "r = int (bits (nat b))"
  have ge: "pow2 (p - 1) \<le> of_int a" and lt: "of_int b < pow2 r"
  proof -
    have pb: "0 < bits (nat a)" "2 ^ (bits (nat a) - 1) \<le> nat a" "nat b < 2 ^ bits (nat b)"
      using bits_bounds [of "nat a"] bits_bounds [of "nat b"] a b by auto
    have "pow2 (p - 1) = 2 ^ (bits (nat a) - 1)"
      using pb(1) by (simp add: pow2_def p_def nat_diff_distrib)
    also have "\<dots> = of_nat (2 ^ (bits (nat a) - 1))" by simp
    also have "\<dots> \<le> (of_nat (nat a) :: rat)" using pb(2) by (rule of_nat_mono)
    also have "\<dots> = of_int a" using a by simp
    finally show "pow2 (p - 1) \<le> of_int a" .
    have "(of_int b :: rat) = of_nat (nat b)" using b by simp
    also have "\<dots> < of_nat (2 ^ bits (nat b))" using pb(3) by (rule of_nat_less_iff [THEN iffD2])
    also have "\<dots> = pow2 r" by (simp add: pow2_def r_def)
    finally show "of_int b < pow2 r" .
  qed
  have "pow2 (p - r - 1) \<le> x"
  proof -
    have "pow2 (p - r - 1) * pow2 r = pow2 (p - 1)" by (simp flip: pow2_add)
    then have "pow2 (p - r - 1) = pow2 (p - 1) / pow2 r" using pow2_pos [of r] by (simp add: field_simps)
    also have "\<dots> \<le> of_int a / pow2 r" using ge pow2_pos [of r] by (simp add: divide_right_mono less_imp_le)
    also have "\<dots> \<le> of_int a / of_int b" using lt a b by (simp add: frac_le)
    finally show ?thesis unfolding x .
  qed
  then show ?thesis
    by (auto simp: floor_log2_def q Let_def p_def [symmetric] r_def [symmetric])
qed

text \<open>One rounding changes a number by at most its \<open>2\<^sup>-\<^sup>5\<^sup>3\<close>th part.\<close>

lemma to_double_error: "\<bar>to_double x - x\<bar> \<le> \<bar>x\<bar> / 2 ^ 53"
proof (cases "x = 0")
  case False
  define u where "u = pow2 (floor_log2 \<bar>x\<bar> - 52)"
  have u: "0 < u" by (simp add: u_def pow2_pos)
  have "u * 2 ^ 52 = pow2 (floor_log2 \<bar>x\<bar>)"
    using pow2_add [of "floor_log2 \<bar>x\<bar> - 52" 52] by (simp add: u_def pow2_def [of 52])
  also have "\<dots> \<le> \<bar>x\<bar>" using False by (intro floor_log2_le) simp
  finally have small: "u / 2 \<le> \<bar>x\<bar> / 2 ^ 53" by simp
  have "to_double x - x = (of_int (round_even (x / u)) - x / u) * u"
    using False u by (simp add: to_double_def Let_def u_def [symmetric] field_simps)
  then have "\<bar>to_double x - x\<bar> = \<bar>of_int (round_even (x / u)) - x / u\<bar> * u"
    using u by (simp add: abs_mult)
  also have "\<dots> \<le> 1 / 2 * u" using u by (intro mult_right_mono round_even_error) simp
  finally show ?thesis using small by simp
qed (simp add: to_double_def)

lemma to_double_0 [simp]: "to_double 0 = 0"
  by (simp add: to_double_def)

lemma to_double_between:
  "0 \<le> x \<Longrightarrow> x * (1 - 1 / 2 ^ 53) \<le> to_double x \<and> to_double x \<le> x * (1 + 1 / 2 ^ 53)"
  using to_double_error [of x] unfolding abs_le_iff by (simp add: algebra_simps)

end
