(* ===== verification/Aws_Lab.thy ===== *)
theory Aws_Lab
  imports World Py_Fs Py_Float
begin

text \<open>
  \<open>tools/xolis_aws_lab.py\<close>, first part: the configuration and how it is read and validated, the
  \<open>CommandRunner\<close> with its dry-run mode and its log, and the operations of \<open>AwsLab\<close> on the
  infrastructure, the node group and the warm pool, with their waiting loops. The workflows made of
  these operations are in \<open>Lab_Workflows\<close>. What is printed is not modelled, nor a failure to write
  the log.
\<close>

section \<open>Configuration\<close>

record lab_config =
  region :: string
  cluster_name :: string
  sandbox_autoscaling_group :: string
  sandbox_node_selector :: string
  sandbox_min_size :: int
  sandbox_desired_size :: int
  sandbox_max_size :: int
  tofu_directory :: string
  bootstrap_manifests :: "string list"
  test_manifest :: string
  ready_command :: "string list"
  agent_sandbox_install_script :: string
  service_manifests_directory :: string
  service_test_script :: string
  artifact_directory :: string
  node_ready_timeout_seconds :: int
  node_stop_timeout_seconds :: int
  warm_pool_namespace :: string
  warm_pool_name :: string
  warm_pool_ready_timeout_seconds :: int

definition required_fields :: "string list" where
  "required_fields =
     [''region'', ''cluster_name'', ''sandbox_autoscaling_group'', ''sandbox_node_selector'',
      ''tofu_directory'', ''test_manifest'', ''ready_command'', ''artifact_directory'']"

definition path_text :: "path \<Rightarrow> string" where
  "path_text p = ''/'' @ join_with ''/'' p"

text \<open>\<open>(base / item).resolve()\<close>, where \<open>resolve\<close> is the resolution of a path on the machine.\<close>

definition resolve_item :: "(pure_path \<Rightarrow> string) \<Rightarrow> pure_path \<Rightarrow> json \<Rightarrow> string result" where
  "resolve_item resolve base item =
     bindE (as_str item) (\<lambda>s.
       let p = parse_path s in
       Inr (resolve (if absolute p then p else base\<lparr>parts := parts base @ parts p\<rparr>)))"

definition validate :: "lab_config \<Rightarrow> unit result" where
  "validate c =
     (if \<not> (0 \<le> sandbox_min_size c \<and> sandbox_min_size c \<le> sandbox_desired_size c
            \<and> sandbox_desired_size c \<le> sandbox_max_size c)
      then Inl (ValueError ''Sandbox scaling values must satisfy 0 <= min <= desired <= max.'')
      else if ready_command c = [] then Inl (ValueError ''ready_command must not be empty.'')
      else Inr ())"

definition missing_fields :: "json \<Rightarrow> string list result" where
  "missing_fields data =
     bindE (mapE (\<lambda>key. bindE (get_or data key JNull) (\<lambda>v. Inr (key, truthy v))) required_fields)
       (\<lambda>l. Inr (map fst (filter (\<lambda>(key, present). \<not> present) l)))"

definition int_field :: "json \<Rightarrow> string \<Rightarrow> int \<Rightarrow> int result" where
  "int_field data key dflt = bindE (get_or data key (JInt dflt)) json_int"

definition str_field :: "(json \<Rightarrow> string) \<Rightarrow> json \<Rightarrow> string \<Rightarrow> string result" where
  "str_field rep data key = bindE (item_at data key) (\<lambda>v. Inr (json_str rep v))"

text \<open>\<open>LabConfig.load\<close> after the file was read: \<open>contents\<close> is its text, or the error of reading it.\<close>

definition parse_config ::
  "(json \<Rightarrow> string) \<Rightarrow> (pure_path \<Rightarrow> string) \<Rightarrow> pure_path \<Rightarrow> json \<Rightarrow> lab_config result" where
  "parse_config rep resolve base data =
     (let path_at = (\<lambda>key. bindE (item_at data key) (resolve_item resolve base));
          path_or = (\<lambda>key dflt. bindE (get_or data key (JStr dflt)) (resolve_item resolve base)) in
      bindE (str_field rep data ''region'') (\<lambda>reg.
      bindE (str_field rep data ''cluster_name'') (\<lambda>cluster.
      bindE (str_field rep data ''sandbox_autoscaling_group'') (\<lambda>group.
      bindE (str_field rep data ''sandbox_node_selector'') (\<lambda>selector.
      bindE (int_field data ''sandbox_min_size'' 0) (\<lambda>minimum.
      bindE (int_field data ''sandbox_desired_size'' 1) (\<lambda>desired.
      bindE (int_field data ''sandbox_max_size'' 1) (\<lambda>maximum.
      bindE (path_at ''tofu_directory'') (\<lambda>tofu.
      bindE (bindE (get_or data ''bootstrap_manifests'' (JList [])) elements) (\<lambda>items.
      bindE (mapE (resolve_item resolve base) items) (\<lambda>manifests.
      bindE (path_at ''test_manifest'') (\<lambda>test.
      bindE (bindE (item_at data ''ready_command'') elements) (\<lambda>ready.
      bindE (path_or ''agent_sandbox_install_script'' ''../deploy/agent-sandbox/install-v0.5.3.sh'') (\<lambda>install.
      bindE (path_or ''service_manifests_directory'' ''../deploy'') (\<lambda>services.
      bindE (path_or ''service_test_script'' ''../deploy/tests/smoke_service.py'') (\<lambda>smoke.
      bindE (path_at ''artifact_directory'') (\<lambda>artifacts.
      bindE (int_field data ''node_ready_timeout_seconds'' 900) (\<lambda>t_ready.
      bindE (int_field data ''node_stop_timeout_seconds'' 900) (\<lambda>t_stop.
      bindE (get_or data ''warm_pool_namespace'' (JStr ''xolis-sandboxes'')) (\<lambda>pool_ns.
      bindE (get_or data ''warm_pool_name'' (JStr ''python-basic-v1-pool'')) (\<lambda>pool.
      bindE (int_field data ''warm_pool_ready_timeout_seconds'' 300) (\<lambda>t_pool.
        Inr \<lparr>region = reg, cluster_name = cluster, sandbox_autoscaling_group = group,
             sandbox_node_selector = selector, sandbox_min_size = minimum,
             sandbox_desired_size = desired, sandbox_max_size = maximum, tofu_directory = tofu,
             bootstrap_manifests = manifests, test_manifest = test,
             ready_command = map (json_str rep) ready, agent_sandbox_install_script = install,
             service_manifests_directory = services, service_test_script = smoke,
             artifact_directory = artifacts, node_ready_timeout_seconds = t_ready,
             node_stop_timeout_seconds = t_stop, warm_pool_namespace = json_str rep pool_ns,
             warm_pool_name = json_str rep pool, warm_pool_ready_timeout_seconds = t_pool\<rparr>))))))))))))))))))))))"

definition load_config ::
  "(json \<Rightarrow> string) \<Rightarrow> (pure_path \<Rightarrow> string) \<Rightarrow> pure_path \<Rightarrow> string \<Rightarrow> string result \<Rightarrow> lab_config result" where
  "load_config rep resolve base name contents =
     (case contents of
        Inl (FileNotFoundError m) \<Rightarrow> Inl (ValueError (''Configuration file does not exist: '' @ name))
      | Inl e \<Rightarrow> Inl e
      | Inr text \<Rightarrow>
          (case json_loads text of
             Inl e \<Rightarrow> Inl (ValueError ''Configuration is not valid JSON'')
           | Inr data \<Rightarrow>
               bindE (missing_fields data) (\<lambda>missing.
                 if missing \<noteq> []
                 then Inl (ValueError (''Configuration is missing required fields: '' @ join_with '', '' missing))
                 else bindE (parse_config rep resolve base data) (\<lambda>c. bindE (validate c) (\<lambda>_. Inr c)))))"


section \<open>The runner\<close>

text \<open>What the lab writes to its files: a snapshot as it was printed, or a report, whose JSON text is not
  spelled out. Durations are in milliseconds, which is what the reports round to.\<close>

type_synonym phase_result = "string \<times> bool \<times> nat"  \<comment> \<open>name, passed or failed, duration\<close>

record workflow_report =
  workflow :: string
  passed :: bool
  started_at :: string
  completed_at :: string
  duration :: int
  environment_of :: "string \<times> string \<times> string"
  phases :: "phase_result list"

record metric_summary =
  count_of :: nat
  minimum_of :: rat
  mean_of :: rat
  median_of :: rat
  maximum_of :: rat

record mode_report =
  sample_files :: "string list"
  completed_samples :: nat
  passed_samples :: nat
  summary :: "(string \<times> metric_summary) list"

datatype document =
    Snapshot string
  | Workflow workflow_report
  | Benchmark int "(string \<times> mode_report) list"  \<comment> \<open>iterations and modes\<close>

text \<open>What a run of the lab reads: the configuration, whether it is a dry run, and the machine: which
  executables it has, which files exist and what they hold after the calls made so far, and its
  calendar clock.\<close>

record lab_env =
  config :: lab_config
  dry_run :: bool
  commands :: environment
  on_path :: "string \<Rightarrow> bool"
  is_file_at :: "call list \<Rightarrow> string \<Rightarrow> bool"
  is_dir_at :: "call list \<Rightarrow> string \<Rightarrow> bool"
  text_at :: "call list \<Rightarrow> string \<Rightarrow> string result"
  wall_clock :: "call list \<Rightarrow> int"
  isoformat :: "int \<Rightarrow> string"
  run_directory :: string

record lab = world +
  log :: "string list"
  phase_results :: "phase_result list"
  written :: "(string \<times> document) list"
  cold_paths :: "string list"
  warm_paths :: "string list"

definition rstrip :: "string \<Rightarrow> string" where
  "rstrip s = concat (rev (dropWhile is_space (rev (code_points s))))"

definition log_line :: "string \<Rightarrow> (lab, unit) proc" where
  "log_line m = modify (\<lambda>w. w\<lparr>log := log w @ [m]\<rparr>)"

text \<open>With \<open>capture_output\<close> the command's standard output and error come together, as \<open>out\<close>.\<close>

definition run_command :: "lab_env \<Rightarrow> string list \<Rightarrow> bool \<Rightarrow> (lab, string) proc" where
  "run_command e command capture =
     seq (log_line (''$ '' @ join_with '' '' command)) (\<lambda>_.
     if dry_run e then ret []
     else seq (run_process (commands e) command []) (\<lambda>(rc, out, err).
          if rc \<noteq> 0 then raising (CalledProcessError command rc)
          else seq (whenP (capture \<and> out \<noteq> []) (log_line (rstrip out))) (\<lambda>_.
               ret (if capture then out else []))))"

definition write_file :: "string \<Rightarrow> document \<Rightarrow> (lab, unit) proc" where
  "write_file name contents = modify (\<lambda>w. w\<lparr>written := written w @ [(name, contents)]\<rparr>)"

definition require_file :: "lab_env \<Rightarrow> string \<Rightarrow> (lab, unit) proc" where
  "require_file e path =
     (if dry_run e then ret ()
      else seq (gets trace) (\<lambda>t. whenP (\<not> is_file_at e t path)
             (raising (RuntimeError (''Required manifest does not exist: '' @ path)))))"

definition require_directory :: "lab_env \<Rightarrow> string \<Rightarrow> (lab, unit) proc" where
  "require_directory e path =
     (if dry_run e then ret ()
      else seq (gets trace) (\<lambda>t. whenP (\<not> is_dir_at e t path)
             (raising (RuntimeError (''Required manifest directory does not exist: '' @ path)))))"


section \<open>Operations\<close>

definition required_executables :: "string list" where
  "required_executables = [''aws'', ''kubectl'', ''tofu'']"

definition doctor :: "lab_env \<Rightarrow> (lab, unit) proc" where
  "doctor e =
     (let missing = filter (\<lambda>name. \<not> on_path e name) required_executables in
      if missing \<noteq> []
      then raising (RuntimeError (''Missing required executables: '' @ join_with '', '' missing))
      else
        seq (run_command e [''aws'', ''sts'', ''get-caller-identity'', ''--region'', region (config e),
                            ''--output'', ''json''] True) (\<lambda>_.
        seq (run_command e [''tofu'', ''-chdir='' @ tofu_directory (config e), ''version''] False) (\<lambda>_.
        ret ())))"

definition infra :: "lab_env \<Rightarrow> string \<Rightarrow> (lab, unit) proc" where
  "infra e action =
     (let directory = tofu_directory (config e);
          prefix_words = [''tofu'', ''-chdir='' @ directory] in
      seq (gets trace) (\<lambda>t.
      seq (whenP (\<not> dry_run e \<and> \<not> is_dir_at e t directory)
             (raising (RuntimeError (''OpenTofu directory does not exist: '' @ directory)))) (\<lambda>_.
      seq (run_command e (prefix_words @ [''init'']) False) (\<lambda>_.
      if action \<in> {''plan'', ''apply'', ''destroy''}
      then seq (run_command e (prefix_words @ [action]) False) (\<lambda>_. ret ())
      else raising (ValueError (''Unsupported infrastructure action: '' @ action))))))"

definition kubeconfig_command :: "lab_env \<Rightarrow> string list" where
  "kubeconfig_command e =
     [''aws'', ''eks'', ''update-kubeconfig'', ''--region'', region (config e), ''--name'',
      cluster_name (config e)]"

definition update_kubeconfig :: "lab_env \<Rightarrow> (lab, unit) proc" where
  "update_kubeconfig e = seq (run_command e (kubeconfig_command e) False) (\<lambda>_. ret ())"

definition scale_command :: "lab_env \<Rightarrow> int \<Rightarrow> int \<Rightarrow> int \<Rightarrow> string list" where
  "scale_command e minimum desired maximum =
     [''aws'', ''autoscaling'', ''update-auto-scaling-group'', ''--region'', region (config e),
      ''--auto-scaling-group-name'', sandbox_autoscaling_group (config e), ''--min-size'',
      str_of_int minimum, ''--desired-capacity'', str_of_int desired, ''--max-size'',
      str_of_int maximum]"

definition scale_autoscaling_group :: "lab_env \<Rightarrow> int \<Rightarrow> int \<Rightarrow> int \<Rightarrow> (lab, unit) proc" where
  "scale_autoscaling_group e minimum desired maximum =
     seq (run_command e (scale_command e minimum desired maximum) False) (\<lambda>_. ret ())"

definition apply_file :: "lab_env \<Rightarrow> string \<Rightarrow> (lab, unit) proc" where
  "apply_file e manifest =
     seq (run_command e [''kubectl'', ''apply'', ''-f'', manifest] False) (\<lambda>_. ret ())"

definition bootstrap :: "lab_env \<Rightarrow> (lab, unit) proc" where
  "bootstrap e =
     seq (update_kubeconfig e) (\<lambda>_.
       for_each (\<lambda>manifest. seq (require_file e manifest) (\<lambda>_. apply_file e manifest))
         (bootstrap_manifests (config e)))"

text \<open>\<open>any(f(x) for x in xs)\<close>\<close>

fun anyE :: "('a \<Rightarrow> bool result) \<Rightarrow> 'a list \<Rightarrow> bool result" where
  "anyE f [] = Inr False"
| "anyE f (x # xs) = bindE (f x) (\<lambda>b. if b then Inr True else anyE f xs)"

definition node_is_ready :: "json \<Rightarrow> bool result" where
  "node_is_ready node =
     bindE (get_or node ''status'' (JObj [])) (\<lambda>status.
     bindE (get_or status ''conditions'' (JList [])) (\<lambda>conditions.
     bindE (elements conditions) (anyE (\<lambda>condition.
       bindE (get_or condition ''type'' JNull) (\<lambda>t.
         if \<not> is_str t ''Ready'' then Inr False
         else bindE (get_or condition ''status'' JNull) (\<lambda>s. Inr (is_str s ''True'')))))))"

definition node_instance_id :: "json \<Rightarrow> json result" where
  "node_instance_id node =
     bindE (get_or node ''spec'' (JObj [])) (\<lambda>spec.
     bindE (get_or spec ''providerID'' (JStr [])) (\<lambda>provider.
       case provider of
         JStr p \<Rightarrow>
           Inr (if \<not> startswith p ''aws:///'' then JNull
                else let name = last (split_on (CHR ''/'') p) in if name = [] then JNull else JStr name)
       | _ \<Rightarrow> Inl attribute_error))"

definition in_service :: "json \<Rightarrow> bool result" where
  "in_service inst =
     bindE (get_or inst ''LifecycleState'' JNull) (\<lambda>s.
       if \<not> is_str s ''InService'' then Inr False
       else bindE (get_or inst ''HealthStatus'' JNull) (\<lambda>h. Inr (is_str h ''Healthy'')))"

definition group_instances :: "bool \<Rightarrow> json \<Rightarrow> json list result" where
  "group_instances require_ready answer =
     bindE (get_or answer ''AutoScalingGroups'' (JList [])) (\<lambda>groups.
     bindE (json_len groups) (\<lambda>n.
     bindE (guardE (n = 1) (RuntimeError ''Expected exactly one configured sandbox Auto Scaling group.'')) (\<lambda>_.
     bindE (index_at groups 0) (\<lambda>g.
     bindE (bindE (get_or g ''Instances'' (JList [])) elements) (\<lambda>l.
     bindE (if require_ready then filterE in_service l else Inr l) (\<lambda>kept.
       mapE (\<lambda>inst. bindE (item_at inst ''InstanceId'') hashable) kept))))))"

definition sandbox_instance_ids :: "lab_env \<Rightarrow> bool \<Rightarrow> (lab, json list) proc" where
  "sandbox_instance_ids e require_ready =
     seq (run_command e [''aws'', ''autoscaling'', ''describe-auto-scaling-groups'', ''--region'',
            region (config e), ''--auto-scaling-group-names'', sandbox_autoscaling_group (config e),
            ''--output'', ''json''] True) (\<lambda>out.
       if dry_run e then ret []
       else liftE (bindE (json_loads out) (group_instances require_ready)))"

definition ready_in_group :: "json list \<Rightarrow> json \<Rightarrow> bool result" where
  "ready_in_group ids node =
     bindE (node_is_ready node) (\<lambda>r.
       if \<not> r then Inr False else bindE (node_instance_id node) (\<lambda>i. Inr (i \<in> set ids)))"

definition count_ready :: "json list \<Rightarrow> json list \<Rightarrow> nat result" where
  "count_ready ids nodes = bindE (filterE (ready_in_group ids) nodes) (\<lambda>l. Inr (length l))"

definition nodes_settled :: "nat \<Rightarrow> json list \<Rightarrow> json list \<Rightarrow> nat \<Rightarrow> bool" where
  "nodes_settled expected ids nodes ready \<longleftrightarrow>
     (if expected = 0 then nodes = [] \<and> ids = [] else expected \<le> ready)"

definition nodes_round :: "lab_env \<Rightarrow> nat \<Rightarrow> nat \<Rightarrow> (lab, unit option) proc" where
  "nodes_round e expected deadline =
     seq (sandbox_instance_ids e (0 < expected)) (\<lambda>ids.
     seq (run_command e [''kubectl'', ''get'', ''nodes'', ''-l'', sandbox_node_selector (config e), ''-o'',
            ''json''] True) (\<lambda>out.
     if dry_run e then ret (Some ())
     else
       seq (liftE (bindE (json_loads out) (\<lambda>v. bindE (get_or v ''items'' (JList [])) elements))) (\<lambda>nodes.
       seq (liftE (count_ready ids nodes)) (\<lambda>ready.
       if nodes_settled expected ids nodes ready then ret (Some ())
       else seq (gets clock) (\<lambda>t.
         if deadline \<le> t
         then raising (TimeoutError (''Timed out waiting for sandbox nodes. Expected '' @ str_of_nat expected
                @ '', found '' @ str_of_nat ready @ '' Ready nodes.''))
         else seq (sleep (commands e) 10000) (\<lambda>_. ret None))))))"

definition deadline_after :: "nat \<Rightarrow> int \<Rightarrow> nat" where
  "deadline_after t seconds = nat (int t + 1000 * seconds)"

definition wait_for_nodes :: "lab_env \<Rightarrow> nat \<Rightarrow> int \<Rightarrow> (lab, unit) proc" where
  "wait_for_nodes e expected timeout_seconds =
     seq (gets clock) (\<lambda>t.
       let deadline = deadline_after t timeout_seconds in
       until_deadline deadline (nodes_round e expected deadline))"

definition start_node :: "lab_env \<Rightarrow> (lab, unit) proc" where
  "start_node e =
     seq (update_kubeconfig e) (\<lambda>_.
     seq (scale_autoscaling_group e (sandbox_min_size (config e)) (sandbox_desired_size (config e))
            (sandbox_max_size (config e))) (\<lambda>_.
       wait_for_nodes e 1 (node_ready_timeout_seconds (config e))))"

definition stop_node :: "lab_env \<Rightarrow> (lab, unit) proc" where
  "stop_node e =
     seq (update_kubeconfig e) (\<lambda>_.
     seq (scale_autoscaling_group e 0 0 (sandbox_max_size (config e))) (\<lambda>_.
       wait_for_nodes e 0 (node_stop_timeout_seconds (config e))))"

definition pool_patch :: "int \<Rightarrow> string" where
  "pool_patch replicas = json_compact (JObj [(''spec'', JObj [(''replicas'', JInt replicas)])])"

definition set_warm_pool :: "lab_env \<Rightarrow> int \<Rightarrow> (lab, unit) proc" where
  "set_warm_pool e replicas =
     seq (run_command e [''kubectl'', ''patch'', ''sandboxwarmpool'', warm_pool_name (config e),
            ''--namespace'', warm_pool_namespace (config e), ''--type'', ''merge'', ''--patch'',
            pool_patch replicas] False) (\<lambda>_. ret ())"

definition pool_counts :: "json \<Rightarrow> (int \<times> int) result" where
  "pool_counts pool =
     bindE (bindE (get_or pool ''spec'' (JObj [])) (\<lambda>s. int_field s ''replicas'' 0)) (\<lambda>desired.
     bindE (bindE (get_or pool ''status'' (JObj [])) (\<lambda>s. int_field s ''readyReplicas'' 0)) (\<lambda>ready.
       Inr (desired, ready)))"

definition pool_round :: "lab_env \<Rightarrow> int \<Rightarrow> nat \<Rightarrow> (lab, unit option) proc" where
  "pool_round e replicas deadline =
     seq (run_command e [''kubectl'', ''get'', ''sandboxwarmpool/'' @ warm_pool_name (config e),
            ''--namespace'', warm_pool_namespace (config e), ''--output'', ''json''] True) (\<lambda>out.
     if dry_run e then ret (Some ())
     else
       seq (liftE (bindE (json_loads out) pool_counts)) (\<lambda>(desired, ready).
       if desired = replicas \<and> ready = replicas then ret (Some ())
       else seq (gets clock) (\<lambda>t.
         if deadline \<le> t
         then raising (TimeoutError (''Timed out waiting for warm pool '' @ warm_pool_name (config e)
                @ '': expected '' @ str_of_int replicas @ '', desired '' @ str_of_int desired @ '', Ready ''
                @ str_of_int ready @ ''.''))
         else seq (sleep (commands e) 2000) (\<lambda>_. ret None))))"

definition wait_for_warm_pool :: "lab_env \<Rightarrow> int \<Rightarrow> (lab, unit) proc" where
  "wait_for_warm_pool e replicas =
     seq (gets clock) (\<lambda>t.
       let deadline = deadline_after t (warm_pool_ready_timeout_seconds (config e)) in
       until_deadline deadline (pool_round e replicas deadline))"


section \<open>The waiting loops\<close>

lemma fueledE_anyE [fuel_intros]: "(\<And>x. fueledE (f x)) \<Longrightarrow> fueledE (anyE f xs)"
  by (induction xs) (auto intro!: fuel_intros)

lemma fueledE_filterE [fuel_intros]: "(\<And>x. fueledE (f x)) \<Longrightarrow> fueledE (filterE f xs)"
  by (induction xs) (auto intro!: fuel_intros)

lemma fueledE_if [fuel_intros]: "(b \<Longrightarrow> fueledE r) \<Longrightarrow> (\<not> b \<Longrightarrow> fueledE s) \<Longrightarrow> fueledE (if b then r else s)"
  by simp

lemma fueledE_hashable [fuel_intros]: "fueledE (hashable v)"
  by (cases v) (auto simp: hashable_def type_error_def intro!: fuel_intros)

lemma fueledE_lab [fuel_intros]:
  "fueledE (node_is_ready v)" "fueledE (node_instance_id v)" "fueledE (in_service v)"
  "fueledE (int_field v k i)"
  unfolding node_is_ready_def node_instance_id_def in_service_def int_field_def
  by (auto intro!: fuel_intros simp: attribute_error_def Let_def split: json.splits)

lemma fueledE_lab2 [fuel_intros]:
  "fueledE (group_instances b v)" "fueledE (count_ready ids nodes)" "fueledE (pool_counts v)"
  unfolding group_instances_def count_ready_def ready_in_group_def pool_counts_def
  by (auto intro!: fuel_intros)

lemma fueled_run_command [fuel_intros]: "fueled (run_command e c b)"
  unfolding run_command_def log_line_def by (auto intro!: fuel_intros split: prod.splits)

lemma fueled_sandbox_instance_ids [fuel_intros]: "fueled (sandbox_instance_ids e b)"
  unfolding sandbox_instance_ids_def by (auto intro!: fuel_intros)

lemma fueled_nodes_round: "fueled (nodes_round e n d)"
  unfolding nodes_round_def by (auto intro!: fuel_intros)

lemma fueled_pool_round: "fueled (pool_round e n d)"
  unfolding pool_round_def by (auto intro!: fuel_intros split: prod.splits)

lemma keeps_run_command:
  assumes "\<And>argv. keeps I (run_process (commands e) argv [])"
    and "\<And>w m. I w \<Longrightarrow> I (w\<lparr>log := log w @ [m]\<rparr>)"
  shows "keeps I (run_command e c b)"
proof -
  have "keeps I (log_line m)" for m using assms(2) by (simp add: keeps_def log_line_def wp_modify)
  then show ?thesis unfolding run_command_def
    by (auto intro!: keeps_intros assms(1) split: prod.splits)
qed

lemma keeps_sandbox_instance_ids:
  "(\<And>c b. keeps I (run_command e c b)) \<Longrightarrow> keeps I (sandbox_instance_ids e require)"
  unfolding sandbox_instance_ids_def by (auto intro!: keeps_intros)

lemma clock_run_command [keeps_intros]: "keeps (\<lambda>w. n \<le> clock w) (run_command e c b)"
  by (rule keeps_run_command) (auto intro: clock_run)

lemma run_command_clock: "run_command e c b w = (r, w') \<Longrightarrow> clock w \<le> clock w'"
  using keeps_run [OF clock_run_command [of "clock w" e c b], of w] by simp

lemma instance_ids_clock: "sandbox_instance_ids e b w = (r, w') \<Longrightarrow> clock w \<le> clock w'"
  using keeps_run [OF keeps_sandbox_instance_ids [OF clock_run_command [of "clock w"]], of w e b] by simp

text \<open>A round that does not settle is taken before the deadline and makes time pass.\<close>

lemma nodes_goes_on:
  "nodes_round e n d w = (Inr None, w') \<Longrightarrow> clock w < d \<and> clock w < clock w'"
  by (fastforce simp: nodes_round_def seq_Inr liftE_run ret_run raising_run
      dest!: run_command_clock instance_ids_clock sleep_clock split: if_splits)

lemma pool_goes_on:
  "pool_round e n d w = (Inr None, w') \<Longrightarrow> clock w < d \<and> clock w < clock w'"
  by (fastforce simp: pool_round_def seq_Inr liftE_run ret_run raising_run
      dest!: run_command_clock sleep_clock split: if_splits prod.splits)

interpretation node_wait: deadline_loop deadline "nodes_round e expected deadline"
  for e expected deadline
  by unfold_locales (rule nodes_goes_on, assumption, rule fueled_nodes_round)

interpretation pool_wait: deadline_loop deadline "pool_round e replicas deadline"
  for e replicas deadline
  by unfold_locales (rule pool_goes_on, assumption, rule fueled_pool_round)

lemma fueled_waits [fuel_intros]:
  "fueled (wait_for_nodes e n s)" "fueled (wait_for_warm_pool e i)"
  unfolding wait_for_nodes_def wait_for_warm_pool_def Let_def
  by (intro fuel_intros node_wait.loop_returns pool_wait.loop_returns)+


section \<open>What the operations do to the trace\<close>

text \<open>A property of the state that a further call and a line of the log keep is kept by every
  operation; in a dry run no call is made.\<close>

locale lab_law =
  fixes e :: lab_env and I :: "lab \<Rightarrow> bool"
  assumes grows: "\<not> dry_run e \<Longrightarrow> I w \<Longrightarrow> I (w\<lparr>clock := clock w + d, trace := trace w @ [c]\<rparr>)"
    and logs: "I w \<Longrightarrow> I (w\<lparr>log := l\<rparr>)"
begin

lemma keeps_command: "keeps I (run_command e c b)"
proof (cases "dry_run e")
  case True
  then show ?thesis by (simp add: keeps_def run_command_def log_line_def wp_simps logs)
next
  case False
  then show ?thesis by (intro keeps_run_command keeps_run_process) (simp_all add: grows logs)
qed

lemma keeps_pause: "\<not> dry_run e \<Longrightarrow> keeps I (sleep (commands e) n)"
  by (rule keeps_sleep) (simp add: grows)

lemma keeps_log: "keeps I (log_line m)"
  by (simp add: log_line_def keeps_def wp_modify logs)

lemma keeps_instance_ids: "keeps I (sandbox_instance_ids e b)"
  by (rule keeps_sandbox_instance_ids) (rule keeps_command)

lemma keeps_nodes_round: "keeps I (nodes_round e n d)"
  unfolding nodes_round_def by (intro keeps_intros keeps_instance_ids keeps_command keeps_pause)

lemma keeps_pool_round: "keeps I (pool_round e i d)"
  unfolding pool_round_def
  by (auto intro!: keeps_intros keeps_command keeps_pause split: prod.splits)

lemma keeps_waits:
  "keeps I (wait_for_nodes e n s)" "keeps I (wait_for_warm_pool e i)"
  unfolding wait_for_nodes_def wait_for_warm_pool_def Let_def
  by (intro keeps_intros keeps_nodes_round keeps_pool_round)+

lemma keeps_requires:
  "keeps I (require_file e f)" "keeps I (require_directory e f)"
  unfolding require_file_def require_directory_def by (intro keeps_intros)+

lemma keeps_steps:
  "keeps I (update_kubeconfig e)"
  "keeps I (scale_autoscaling_group e a b c)"
  "keeps I (apply_file e f)"
  "keeps I (set_warm_pool e i)"
  unfolding update_kubeconfig_def scale_autoscaling_group_def apply_file_def set_warm_pool_def
  by (intro keeps_intros keeps_command)+

lemma keeps_operations:
  "keeps I (doctor e)" "keeps I (infra e a)"
  "keeps I (bootstrap e)" "keeps I (start_node e)"
  "keeps I (stop_node e)"
  unfolding doctor_def infra_def bootstrap_def start_node_def stop_node_def Let_def
  by (intro keeps_intros keeps_command keeps_requires keeps_steps keeps_waits)+

end

lemma fueled_for_each [fuel_intros]: "(\<And>x. fueled (f x)) \<Longrightarrow> fueled (for_each f xs)"
  by (induction xs) (auto intro!: fuel_intros)

lemma fueled_steps [fuel_intros]:
  "fueled (update_kubeconfig e)" "fueled (scale_autoscaling_group e a b c)" "fueled (apply_file e f)"
  "fueled (set_warm_pool e i)" "fueled (require_file e f)" "fueled (require_directory e f)"
  unfolding update_kubeconfig_def scale_autoscaling_group_def apply_file_def set_warm_pool_def
    require_file_def require_directory_def
  by (auto intro!: fuel_intros)

lemma fueled_operations [fuel_intros]:
  "fueled (doctor e)" "fueled (infra e act)" "fueled (bootstrap e)" "fueled (start_node e)" "fueled (stop_node e)"
  unfolding doctor_def infra_def bootstrap_def start_node_def stop_node_def Let_def
  by (auto intro!: fuel_intros)


section \<open>Scaling down\<close>

text \<open>A command that succeeds whenever it is run.\<close>

definition succeeds :: "lab_env \<Rightarrow> string list \<Rightarrow> bool" where
  "succeeds e argv \<longleftrightarrow> (\<forall>t. \<exists>out err d. commands e t (Run argv []) = (Completed 0 out err, d))"

text \<open>The calls with which the lab watches the node group.\<close>

definition observes :: "lab_env \<Rightarrow> call \<Rightarrow> bool" where
  "observes e c \<longleftrightarrow>
     c \<in> {Run [''aws'', ''autoscaling'', ''describe-auto-scaling-groups'', ''--region'',
                region (config e), ''--auto-scaling-group-names'', sandbox_autoscaling_group (config e),
                ''--output'', ''json''] [],
          Run [''kubectl'', ''get'', ''nodes'', ''-l'', sandbox_node_selector (config e), ''-o'', ''json''] [],
          Pause 10000}"

text \<open>The last thing done to the node group was to scale it to these sizes.\<close>

definition last_scaled_to :: "lab_env \<Rightarrow> int \<Rightarrow> int \<Rightarrow> int \<Rightarrow> call list \<Rightarrow> bool" where
  "last_scaled_to e minimum desired maximum t \<longleftrightarrow>
     (\<exists>before after. t = before @ Run (scale_command e minimum desired maximum) [] # after
        \<and> (\<forall>c \<in> set after. observes e c))"

lemma last_scaled_to_observes:
  "last_scaled_to e a b c t \<Longrightarrow> observes e x \<Longrightarrow> last_scaled_to e a b c (t @ [x])"
  unfolding last_scaled_to_def by fastforce

lemma run_command_trace:
  "\<not> dry_run e \<Longrightarrow> trace (snd (run_command e c b w)) = trace w @ [Run c []]"
  using run_process_trace [of "commands e" c "[]" "w\<lparr>log := log w @ [''$ '' @ join_with '' '' c]\<rparr>"]
  by (auto simp: run_command_def log_line_def seq_def modify_def ret_def raising_def whenP_def
      split: prod.splits sum.splits)

lemma run_command_succeeds:
  "succeeds e c \<Longrightarrow> \<exists>out w'. run_command e c b w = (Inr out, w')"
proof -
  assume s: "succeeds e c"
  define v where "v = w\<lparr>log := log w @ [CHR ''$'' # CHR '' '' # join_with '' '' c]\<rparr>"
  obtain out err d where "commands e (trace v) (Run c []) = (Completed 0 out err, d)"
    using s unfolding succeeds_def by metis
  then have "run_process (commands e) c [] v
      = (Inr (0, out, err), v\<lparr>clock := clock v + d, trace := trace v @ [Run c []]\<rparr>)"
    by (simp add: run_process_def perform_call_def ret_run)
  then show ?thesis
    by (cases "b \<and> out \<noteq> []") (simp_all add: run_command_def log_line_def v_def [symmetric] ret_run)
qed

lemma keeps_scaled:
  assumes "\<not> dry_run e"
  shows "keeps (\<lambda>w. last_scaled_to e a b c (trace w)) (wait_for_nodes e n s)"
proof -
  have "keeps (\<lambda>w. last_scaled_to e a b c (trace w)) (run_command e argv cap)"
    if "observes e (Run argv [])" for argv cap
    using assms that run_command_trace [of e argv cap]
    by (auto simp: keeps_def wp_def last_scaled_to_observes split: prod.splits sum.splits) (metis snd_conv last_scaled_to_observes)+
  moreover have "keeps (\<lambda>w. last_scaled_to e a b c (trace w)) (sleep (commands e) 10000)"
    by (rule keeps_sleep) (simp add: last_scaled_to_observes observes_def)
  ultimately show ?thesis
    unfolding wait_for_nodes_def nodes_round_def sandbox_instance_ids_def Let_def
    by (intro keeps_intros) (simp_all add: observes_def)
qed

end
