(* ===== verification/Lab_Workflows.thy ===== *)
theory Lab_Workflows
  imports Aws_Lab "HOL-Library.List_Lexorder" "HOL-Library.Char_ord"
begin

text \<open>
  \<open>tools/xolis_aws_lab.py\<close>, second part: the phases and their record, the workflows \<open>cycle\<close>, \<open>service\<close>
  and \<open>benchmark\<close> with what they clean up on every way out, the reports they write and \<open>main\<close>.
\<close>

section \<open>Phases\<close>

text \<open>\<open>with self.phase(name): ...\<close>: the phase is recorded on every way out.\<close>

definition phase :: "string \<Rightarrow> (lab, 'a) proc \<Rightarrow> (lab, 'a) proc" where
  "phase name body =
     seq (gets clock) (\<lambda>started w.
       case body w of
         (r, u) \<Rightarrow> (r, u\<lparr>phase_results := phase_results u
                          @ [(name, (case r of Inl _ \<Rightarrow> False | Inr _ \<Rightarrow> True), clock u - started)]\<rparr>))"

text \<open>\<open>try: ... except BaseException: failure = sys.exception()\<close>\<close>

definition attempt :: "('s, unit) proc \<Rightarrow> ('s, exn option) proc" where
  "attempt m s = (case m s of (Inl e, t) \<Rightarrow> (Inr (Some e), t) | (Inr _, t) \<Rightarrow> (Inr None, t))"

definition first_failure :: "exn option \<Rightarrow> exn option \<Rightarrow> exn option" where
  "first_failure a b = (case a of None \<Rightarrow> b | Some e \<Rightarrow> Some e)"

definition reraise :: "exn option \<Rightarrow> ('s, unit) proc" where
  "reraise failure = (case failure of None \<Rightarrow> ret () | Some e \<Rightarrow> raising e)"


section \<open>The steps of the workflows\<close>

definition run_service_smoke :: "lab_env \<Rightarrow> string \<Rightarrow> bool \<Rightarrow> (lab, unit) proc" where
  "run_service_smoke e report_path skip_ttl =
     seq (require_file e (service_test_script (config e))) (\<lambda>_.
     seq (run_command e ([''python3'', service_test_script (config e), ''--report'', report_path]
            @ (if skip_ttl then [''--skip-ttl''] else [])) False) (\<lambda>_. ret ()))"

definition snapshot_resources :: "lab_env \<Rightarrow> (lab, unit) proc" where
  "snapshot_resources e =
     seq (run_command e [''kubectl'', ''get'', ''-f'', test_manifest (config e), ''-o'', ''yaml''] True) (\<lambda>out.
       whenP (\<not> dry_run e) (write_file (run_directory e @ ''/resource-snapshot.yaml'') (Snapshot out)))"

definition snapshot_service_resources :: "lab_env \<Rightarrow> (lab, unit) proc" where
  "snapshot_service_resources e =
     seq (run_command e [''kubectl'', ''get'', ''sandboxclaims,sandboxes,pods,services'', ''--namespace'',
            ''xolis-sandboxes'', ''--output'', ''yaml''] True) (\<lambda>out.
       whenP (\<not> dry_run e) (write_file (run_directory e @ ''/service-resource-snapshot.yaml'') (Snapshot out)))"

definition cleanup_test_resources :: "lab_env \<Rightarrow> (lab, unit) proc" where
  "cleanup_test_resources e =
     seq (gets trace) (\<lambda>t.
       whenP (dry_run e \<or> is_file_at e t (test_manifest (config e)))
         (try_except
            (seq (run_command e [''kubectl'', ''delete'', ''-f'', test_manifest (config e), ''--wait=true'']
                    False) (\<lambda>_. ret ()))
            (\<lambda>x. case x of CalledProcessError c rc \<Rightarrow> log_line (''Cleanup failed: '' @ join_with '' '' c)
                 | _ \<Rightarrow> raising x)))"

definition cycle :: "lab_env \<Rightarrow> (lab, unit) proc" where
  "cycle e =
     seq (start_node e) (\<lambda>_.
       try_finally
         (seq (bootstrap e) (\<lambda>_.
          seq (require_file e (test_manifest (config e))) (\<lambda>_.
          seq (apply_file e (test_manifest (config e))) (\<lambda>_.
          seq (run_command e (ready_command (config e)) False) (\<lambda>_.
            snapshot_resources e)))))
         (seq (cleanup_test_resources e) (\<lambda>_. stop_node e)))"

definition write_workflow_report :: "lab_env \<Rightarrow> string \<Rightarrow> bool \<Rightarrow> int \<Rightarrow> (lab, unit) proc" where
  "write_workflow_report e name status started =
     seq (gets (\<lambda>w. (wall_clock e (trace w), phase_results w))) (\<lambda>(completed, results).
       write_file (run_directory e @ ''/workflow-report.json'')
         (Workflow \<lparr>workflow = name, passed = status, started_at = isoformat e started,
            completed_at = isoformat e completed, duration = completed - started,
            environment_of = (region (config e), cluster_name (config e), sandbox_autoscaling_group (config e)),
            phases = results\<rparr>))"

text \<open>The phases \<open>service\<close> and \<open>benchmark\<close> share.\<close>

definition deploy_phases :: "lab_env \<Rightarrow> (lab, unit) proc" where
  "deploy_phases e =
     seq (phase ''node_start'' (start_node e)) (\<lambda>_.
     seq (phase ''runtime_bootstrap'' (bootstrap e)) (\<lambda>_.
     seq (phase ''agent_sandbox_install''
            (seq (require_file e (agent_sandbox_install_script (config e))) (\<lambda>_.
             seq (run_command e [agent_sandbox_install_script (config e)] False) (\<lambda>_. ret ())))) (\<lambda>_.
     phase ''service_deploy''
       (seq (require_directory e (service_manifests_directory (config e))) (\<lambda>_.
        seq (run_command e [''kubectl'', ''apply'', ''-k'', service_manifests_directory (config e)] False)
          (\<lambda>_. ret ()))))))"

definition service_phases :: "lab_env \<Rightarrow> (lab, unit) proc" where
  "service_phases e =
     seq (deploy_phases e) (\<lambda>_.
     seq (phase ''service_acceptance''
            (run_service_smoke e (run_directory e @ ''/service-smoke-metrics.json'') False)) (\<lambda>_.
     phase ''resource_snapshot'' (snapshot_service_resources e)))"

definition service :: "lab_env \<Rightarrow> (lab, unit) proc" where
  "service e =
     seq (gets (\<lambda>w. wall_clock e (trace w))) (\<lambda>started.
     seq (attempt (service_phases e)) (\<lambda>failed.
     seq (attempt (phase ''node_stop'' (stop_node e))) (\<lambda>stop_failed.
       let failure = first_failure failed stop_failed in
       seq (write_workflow_report e ''service'' (failure = None) started) (\<lambda>_. reraise failure))))"


section \<open>The benchmark\<close>

definition sample_path :: "lab_env \<Rightarrow> string \<Rightarrow> nat \<Rightarrow> string" where
  "sample_path e mode index = run_directory e @ ''/'' @ mode @ ''-'' @ str_of_nat index @ ''.json''"

definition cold_sample :: "lab_env \<Rightarrow> nat \<Rightarrow> (lab, unit) proc" where
  "cold_sample e index =
     (let path = sample_path e ''cold'' index in
      seq (modify (\<lambda>w. w\<lparr>cold_paths := cold_paths w @ [path]\<rparr>)) (\<lambda>_.
        phase (''cold_sample_'' @ str_of_nat index) (run_service_smoke e path True)))"

definition warm_sample :: "lab_env \<Rightarrow> nat \<Rightarrow> (lab, unit) proc" where
  "warm_sample e index =
     (let path = sample_path e ''warm'' index in
      seq (whenP (1 < index) (wait_for_warm_pool e 1)) (\<lambda>_.
      seq (modify (\<lambda>w. w\<lparr>warm_paths := warm_paths w @ [path]\<rparr>)) (\<lambda>_.
        phase (''warm_sample_'' @ str_of_nat index) (run_service_smoke e path True))))"

definition pool_at :: "lab_env \<Rightarrow> int \<Rightarrow> (lab, unit) proc" where
  "pool_at e replicas = seq (set_warm_pool e replicas) (\<lambda>_. wait_for_warm_pool e replicas)"

definition benchmark_phases :: "lab_env \<Rightarrow> nat \<Rightarrow> (lab, unit) proc" where
  "benchmark_phases e iterations =
     seq (deploy_phases e) (\<lambda>_.
     seq (phase ''cold_pool_ready'' (pool_at e 0)) (\<lambda>_.
     seq (for_each (cold_sample e) [1..<Suc iterations]) (\<lambda>_.
     seq (phase ''warm_pool_ready'' (pool_at e 1)) (\<lambda>_.
       for_each (warm_sample e) [1..<Suc iterations]))))"

definition metrics_of :: "json \<Rightarrow> json result" where
  "metrics_of sample = get_or sample ''metrics'' (JObj [])"

definition metric_names :: "json list \<Rightarrow> string list result" where
  "metric_names samples =
     bindE (mapE (\<lambda>sample. bindE (bindE (metrics_of sample) elements) (mapE as_str)) samples)
       (\<lambda>names. Inr (sort (remdups (concat names))))"

definition metric_values :: "string \<Rightarrow> json list \<Rightarrow> rat list result" where
  "metric_values name samples =
     bindE (filterE (\<lambda>sample. bindE (metrics_of sample) (\<lambda>m. contains m name)) samples)
       (mapE (\<lambda>sample. bindE (item_at sample ''metrics'') (\<lambda>m. bindE (item_at m name) json_float)))"

definition summary_of :: "rat list \<Rightarrow> metric_summary" where
  "summary_of values =
     \<lparr>count_of = length values, minimum_of = Min (set values), mean_of = round3 (fmean values),
      median_of = round3 (median values), maximum_of = Max (set values)\<rparr>"

definition summarize_samples :: "json list \<Rightarrow> (string \<times> metric_summary) list result" where
  "summarize_samples samples =
     bindE (metric_names samples)
       (mapE (\<lambda>name. bindE (metric_values name samples) (\<lambda>values. Inr (name, summary_of values))))"

definition sample_passed :: "json \<Rightarrow> bool result" where
  "sample_passed sample = bindE (get_or sample ''status'' JNull) (\<lambda>s. Inr (is_str s ''passed''))"

definition mode_summary :: "lab_env \<Rightarrow> call list \<Rightarrow> string list \<Rightarrow> mode_report result" where
  "mode_summary e t paths =
     bindE (mapE (\<lambda>path. bindE (text_at e t path) json_loads) (filter (is_file_at e t) paths)) (\<lambda>samples.
     bindE (filterE sample_passed samples) (\<lambda>passing.
     bindE (summarize_samples passing) (\<lambda>metrics.
       Inr \<lparr>sample_files = map (\<lambda>p. last (split_on (CHR ''/'') p)) paths,
            completed_samples = length samples, passed_samples = length passing, summary = metrics\<rparr>)))"

definition write_benchmark_summary :: "lab_env \<Rightarrow> int \<Rightarrow> (lab, unit) proc" where
  "write_benchmark_summary e iterations =
     seq (gets (\<lambda>w. (trace w, cold_paths w, warm_paths w))) (\<lambda>(t, cold, warm).
     seq (liftE (mode_summary e t cold)) (\<lambda>cold_mode.
     seq (liftE (mode_summary e t warm)) (\<lambda>warm_mode.
       write_file (run_directory e @ ''/benchmark-summary.json'')
         (Benchmark iterations [(''cold'', cold_mode), (''warm'', warm_mode)]))))"

definition benchmark :: "lab_env \<Rightarrow> int \<Rightarrow> (lab, unit) proc" where
  "benchmark e iterations =
     (if iterations < 1 then raising (ValueError ''Benchmark iterations must be at least one.'')
      else
        seq (gets (\<lambda>w. wall_clock e (trace w))) (\<lambda>started.
        seq (modify (\<lambda>w. w\<lparr>cold_paths := [], warm_paths := []\<rparr>)) (\<lambda>_.
        seq (attempt (benchmark_phases e (nat iterations))) (\<lambda>failed.
        seq (attempt (phase ''warm_pool_cleanup'' (pool_at e 0))) (\<lambda>pool_failed.
        seq (attempt (phase ''node_stop'' (stop_node e))) (\<lambda>stop_failed.
          let failure = first_failure (first_failure failed pool_failed) stop_failed in
          seq (write_benchmark_summary e iterations) (\<lambda>_.
          seq (write_workflow_report e ''benchmark'' (failure = None) started) (\<lambda>_.
            reraise failure))))))))"


section \<open>The command line\<close>

datatype lab_command =
  Doctor | Infra string | Node_Start | Node_Stop | Bootstrap | Cycle | Service | Run_Benchmark int

definition execute :: "lab_env \<Rightarrow> lab_command \<Rightarrow> (lab, unit) proc" where
  "execute e command =
     (case command of
        Doctor \<Rightarrow> doctor e
      | Infra action \<Rightarrow> infra e action
      | Node_Start \<Rightarrow> start_node e
      | Node_Stop \<Rightarrow> stop_node e
      | Bootstrap \<Rightarrow> bootstrap e
      | Cycle \<Rightarrow> cycle e
      | Service \<Rightarrow> service e
      | Run_Benchmark iterations \<Rightarrow> benchmark e iterations)"

definition is_reported :: "exn \<Rightarrow> bool" where
  "is_reported x \<longleftrightarrow>
     (case x of RuntimeError _ \<Rightarrow> True | ValueError _ \<Rightarrow> True | TimeoutError _ \<Rightarrow> True
      | CalledProcessError _ _ \<Rightarrow> True | _ \<Rightarrow> False)"

text \<open>\<open>main\<close>: the exit status. \<open>loaded\<close> is what \<open>LabConfig.load\<close> returned or raised.\<close>

definition lab_main :: "lab_env \<Rightarrow> lab_config result \<Rightarrow> lab_command \<Rightarrow> (lab, int) proc" where
  "lab_main e loaded command =
     try_except (seq (liftE loaded) (\<lambda>c. seq (execute (e\<lparr>config := c\<rparr>) command) (\<lambda>_. ret 0)))
       (\<lambda>x. if is_reported x then ret 1 else raising x)"


section \<open>Running phases\<close>

definition failure_of :: "'a result \<Rightarrow> exn option" where
  "failure_of r = (case r of Inl x \<Rightarrow> Some x | Inr _ \<Rightarrow> None)"

lemma failure_of_simps [simp]: "failure_of (Inl x) = Some x" "failure_of (Inr a) = None"
  by (simp_all add: failure_of_def)

lemma failure_of_None: "failure_of r = None \<longleftrightarrow> (\<exists>a. r = Inr a)"
  by (cases r) simp_all

lemma attempt_run: "attempt m w = (Inr (failure_of (fst (m w))), snd (m w))"
  by (auto simp: attempt_def failure_of_def split: prod.splits sum.splits)

lemma phase_run:
  "phase name body w = (fst (body w), (snd (body w))\<lparr>phase_results := phase_results (snd (body w))
     @ [(name, failure_of (fst (body w)) = None, clock (snd (body w)) - clock w)]\<rparr>)"
  by (auto simp: phase_def failure_of_def split: prod.splits sum.splits)

lemma fueled_phase [fuel_intros]: "fueled m \<Longrightarrow> fueled (phase n m)"
  by (simp add: fueled_def phase_run)

lemma fueled_attempt: "fueled (attempt m)"
  by (simp add: fueled_def fueledE_def attempt_run)

lemma fueled_attempt_seq [fuel_intros]:
  assumes "fueled m" and "\<And>x. x \<noteq> Some OutOfFuel \<Longrightarrow> fueled (f x)"
  shows "fueled (seq (attempt m) f)"
proof -
  have "failure_of (fst (m w)) \<noteq> Some OutOfFuel" for w
    using assms(1) by (cases "fst (m w)") (auto simp: fueled_def fueledE_def dest: spec [of _ w])
  then show ?thesis using assms(2) by (auto simp: fueled_def attempt_run)
qed

lemma fueled_reraise: "x \<noteq> Some OutOfFuel \<Longrightarrow> fueled (reraise x)"
  by (cases x) (auto simp: reraise_def intro!: fuel_intros)

lemma first_failure_fuel:
  "a \<noteq> Some OutOfFuel \<Longrightarrow> b \<noteq> Some OutOfFuel \<Longrightarrow> first_failure a b \<noteq> Some OutOfFuel"
  by (cases a) (simp_all add: first_failure_def)


section \<open>What the workflows keep\<close>

locale workflow_law = lab_law +
  assumes records: "I w \<Longrightarrow> I (w\<lparr>phase_results := p\<rparr>)"
    and writes: "I w \<Longrightarrow> I (w\<lparr>written := f\<rparr>)"
    and colds: "I w \<Longrightarrow> I (w\<lparr>cold_paths := l\<rparr>)"
    and warms: "I w \<Longrightarrow> I (w\<lparr>warm_paths := l\<rparr>)"
begin

lemma keeps_phase: "keeps I m \<Longrightarrow> keeps I (phase n m)"
  by (simp add: keeps_snd phase_run records)

lemma keeps_attempt: "keeps I m \<Longrightarrow> keeps I (attempt m)"
  by (simp add: keeps_snd attempt_run)

lemma keeps_reraise: "keeps I (reraise x)"
  by (cases x) (auto simp: reraise_def intro: keeps_intros)

lemma keeps_write: "keeps I (write_file f d)"
  by (simp add: keeps_def write_file_def wp_modify writes)

lemma keeps_smoke: "keeps I (run_service_smoke e p b)"
  unfolding run_service_smoke_def by (intro keeps_intros keeps_command keeps_requires)

lemma keeps_snapshots: "keeps I (snapshot_resources e)" "keeps I (snapshot_service_resources e)"
  unfolding snapshot_resources_def snapshot_service_resources_def
  by (intro keeps_intros keeps_command keeps_write)+

lemma keeps_test_cleanup: "keeps I (cleanup_test_resources e)"
proof -
  have "keeps I (case x of CalledProcessError c rc \<Rightarrow> log_line (''Cleanup failed: '' @ join_with '' '' c)
                 | _ \<Rightarrow> raising x)" for x
    by (cases x) (simp_all add: keeps_log keeps_raising)
  then show ?thesis
    unfolding cleanup_test_resources_def by (intro keeps_intros keeps_command)
qed

lemma keeps_cycle: "keeps I (cycle e)"
  unfolding cycle_def
  by (intro keeps_intros keeps_operations keeps_requires keeps_steps keeps_command keeps_snapshots
      keeps_test_cleanup)

lemma keeps_deploy: "keeps I (deploy_phases e)"
  unfolding deploy_phases_def
  by (intro keeps_intros keeps_phase keeps_operations keeps_requires keeps_command)

lemma keeps_reports: "keeps I (write_workflow_report e n b s)" "keeps I (write_benchmark_summary e i)"
  unfolding write_workflow_report_def write_benchmark_summary_def
  by (auto intro!: keeps_intros keeps_write split: prod.splits)

lemma keeps_service: "keeps I (service e)"
  unfolding service_def service_phases_def Let_def
  by (intro keeps_intros keeps_attempt keeps_phase keeps_deploy keeps_smoke keeps_snapshots
      keeps_operations keeps_reports keeps_reraise)

lemma keeps_pool: "keeps I (pool_at e i)"
  unfolding pool_at_def by (intro keeps_intros keeps_steps keeps_waits)

lemma keeps_samples: "keeps I (cold_sample e n)" "keeps I (warm_sample e n)"
  unfolding cold_sample_def warm_sample_def Let_def
  by (intro keeps_intros keeps_phase keeps_smoke keeps_waits;
      simp add: keeps_def wp_modify colds warms)+

lemma keeps_benchmark: "keeps I (benchmark e i)"
proof -
  have "keeps I (modify (\<lambda>w. w\<lparr>cold_paths := [], warm_paths := []\<rparr>))"
    by (simp add: keeps_def wp_modify colds warms)
  then show ?thesis
    unfolding benchmark_def benchmark_phases_def Let_def
    by (intro keeps_intros keeps_attempt keeps_phase keeps_deploy keeps_pool keeps_samples
        keeps_operations keeps_reports keeps_reraise)
qed

lemma keeps_execute: "keeps I (execute e command)"
  unfolding execute_def
  by (cases command) (simp_all add: keeps_operations keeps_cycle keeps_service keeps_benchmark)

end

text \<open>In a dry run the trace stays as it is; otherwise it grows.\<close>

interpretation dry: workflow_law "e\<lparr>dry_run := True\<rparr>" "\<lambda>w. trace w = t" for e t
  by unfold_locales simp_all

interpretation growing: workflow_law e "\<lambda>w. prefix t (trace w)" for e t
  by unfold_locales (auto simp: prefix_def)

text \<open>Only \<open>phase\<close> writes the record of the phases.\<close>

interpretation recording: lab_law e "\<lambda>w. phase_results w = ps" for e ps
  by unfold_locales simp_all


section \<open>Termination\<close>

lemma fueled_parts [fuel_intros]:
  "fueled (run_service_smoke e p b)" "fueled (snapshot_resources e)" "fueled (snapshot_service_resources e)"
  "fueled (write_file f d)" "fueled (pool_at e i)" "fueled (log_line m)"
  unfolding run_service_smoke_def snapshot_resources_def snapshot_service_resources_def write_file_def
    pool_at_def log_line_def
  by (intro fuel_intros)+

lemma fueled_test_cleanup [fuel_intros]: "fueled (cleanup_test_resources e)"
proof -
  have "fueled (case x of CalledProcessError c rc \<Rightarrow> log_line (''Cleanup failed: '' @ join_with '' '' c)
                 | _ \<Rightarrow> raising x)" if "x \<noteq> OutOfFuel" for x
    using that by (cases x) (auto intro!: fuel_intros)
  then show ?thesis
    unfolding cleanup_test_resources_def by (intro fuel_intros)
qed

lemma fueled_deploy [fuel_intros]: "fueled (deploy_phases e)"
  unfolding deploy_phases_def by (intro fuel_intros)

lemma fueledE_int_or_float [fuel_intros]: "fueledE (json_float v)"
  by (auto simp: json_float_def float_of_str_def type_error_def fueledE_def split: json.splits option.splits)

lemma fueledE_contains [fuel_intros]: "fueledE (contains v n)"
  by (auto simp: contains_def type_error_def fueledE_def split: json.splits)

lemma fueledE_mode_summary:
  assumes "\<And>t p. text_at e t p \<noteq> Inl OutOfFuel"
  shows "fueledE (mode_summary e t paths)"
proof -
  have "fueledE (text_at e t p)" for t p using assms by (simp add: fueledE_def)
  then show ?thesis
    unfolding mode_summary_def summarize_samples_def metric_names_def metric_values_def metrics_of_def
      sample_passed_def
    by (intro fuel_intros)
qed

lemma fueled_execute:
  assumes "\<And>t p. text_at e t p \<noteq> Inl OutOfFuel"
  shows "fueled (execute e command)"
proof -
  have report: "fueled (write_workflow_report e n b i)" for n b i
    unfolding write_workflow_report_def by (auto intro!: fuel_intros split: prod.splits)
  have summary: "fueled (write_benchmark_summary e i)" for i
    unfolding write_benchmark_summary_def
    by (auto intro!: fuel_intros fueledE_mode_summary assms split: prod.splits)
  have cycle: "fueled (cycle e)" unfolding cycle_def by (intro fuel_intros)
  have service: "fueled (service e)"
    unfolding service_def service_phases_def Let_def
    by (intro fuel_intros report fueled_reraise first_failure_fuel)
  have samples: "fueled (cold_sample e n)" "fueled (warm_sample e n)" for n
    unfolding cold_sample_def warm_sample_def Let_def by (intro fuel_intros)+
  have benchmark: "fueled (benchmark e i)" for i
    unfolding benchmark_def benchmark_phases_def Let_def
    by (intro fuel_intros samples report summary fueled_reraise first_failure_fuel) simp_all
  show ?thesis
    unfolding execute_def using cycle service benchmark by (cases command) (simp_all add: fueled_operations)
qed


section \<open>The record of the phases\<close>

definition all_passed :: "phase_result list \<Rightarrow> bool" where
  "all_passed ps \<longleftrightarrow> list_all (\<lambda>(name, ok, duration). ok) ps"

lemma all_passed_simps [simp]:
  "all_passed []" "all_passed [(name, ok, d)] \<longleftrightarrow> ok"
  "all_passed (ps @ qs) \<longleftrightarrow> all_passed ps \<and> all_passed qs"
  by (simp_all add: all_passed_def)

text \<open>A procedure whose phases are recorded, and which fails exactly when one of them failed.\<close>

definition phased :: "(lab, 'a) proc \<Rightarrow> bool" where
  "phased m \<longleftrightarrow>
     (\<forall>w. \<exists>ps. phase_results (snd (m w)) = phase_results w @ ps
        \<and> ((\<exists>a. fst (m w) = Inr a) \<longleftrightarrow> all_passed ps))"

lemma phased_phase:
  assumes "\<And>ps. keeps (\<lambda>w. phase_results w = ps) m"
  shows "phased (phase name m)"
proof -
  have "phase_results (snd (m w)) = phase_results w" for w
    using assms [of "phase_results w"] by (simp add: keeps_snd)
  then show ?thesis by (auto simp: phased_def phase_run failure_of_None)
qed

lemma phased_seq:
  assumes "phased m" and "\<And>a. phased (f a)"
  shows "phased (seq m f)"
  unfolding phased_def
proof
  fix w
  obtain ps where ps: "phase_results (snd (m w)) = phase_results w @ ps"
    and iff: "(\<exists>a. fst (m w) = Inr a) \<longleftrightarrow> all_passed ps"
    using assms(1) unfolding phased_def by metis
  show "\<exists>ps. phase_results (snd (seq m f w)) = phase_results w @ ps
        \<and> ((\<exists>a. fst (seq m f w) = Inr a) \<longleftrightarrow> all_passed ps)"
  proof (cases "m w")
    case (Pair r u)
    show ?thesis
    proof (cases r)
      case (Inl x)
      with Pair ps iff show ?thesis by auto
    next
      case (Inr a)
      obtain qs where "phase_results (snd (f a u)) = phase_results u @ qs"
        and "(\<exists>b. fst (f a u) = Inr b) \<longleftrightarrow> all_passed qs"
        using assms(2) [of a] unfolding phased_def by metis
      then show ?thesis using Pair Inr ps iff by (intro exI [of _ "ps @ qs"]) auto
    qed
  qed
qed

lemma phased_service: "phased (service_phases e)"
proof -
  note keeps = keeps_intros recording.keeps_command recording.keeps_operations recording.keeps_requires
  have writes: "keeps (\<lambda>w. phase_results w = ps) (write_file f d)" for ps f d
    by (simp add: keeps_snd write_file_def)
  have "phased (deploy_phases e)"
    unfolding deploy_phases_def by (intro phased_seq phased_phase keeps)
  moreover have "phased (phase n (run_service_smoke e p b))" for n p b
    unfolding run_service_smoke_def by (intro phased_phase keeps)
  moreover have "phased (phase n (snapshot_service_resources e))" for n
    unfolding snapshot_service_resources_def by (intro phased_phase keeps writes)
  ultimately show ?thesis unfolding service_phases_def by (intro phased_seq)
qed


section \<open>Properties\<close>

text \<open>C10: \<open>service\<close> stops the node after whatever happened before: the stop really runs, from the state the
  other phases left, failed or not, it is the last thing the run does, and its outcome is recorded as the
  last phase. The report, written after it, holds every phase and says \<open>passed\<close> exactly when all of them
  passed, which is exactly when \<open>service\<close> returns; otherwise it raises the first failure.\<close>

theorem service_outcome:
  "let (result, u) = service_phases e w; (stopped, v) = stop_node e u; (final, w') = service e w in
     trace w' = trace v \<and> clock w' = clock v
     \<and> phase_results w' = phase_results u @ [(''node_stop'', stopped = Inr (), clock v - clock u)]
     \<and> (\<exists>ps. phase_results u = phase_results w @ ps \<and> (all_passed ps \<longleftrightarrow> result = Inr ()))
     \<and> (\<exists>rep. written w' = written v @ [(run_directory e @ ''/workflow-report.json'', Workflow rep)]
         \<and> workflow rep = ''service'' \<and> phases rep = phase_results w' \<and> (passed rep \<longleftrightarrow> final = Inr ()))
     \<and> final = (case result of Inl x \<Rightarrow> Inl x | Inr _ \<Rightarrow> stopped)"
proof -
  define u where "u = snd (service_phases e w)"
  define v where "v = snd (phase ''node_stop'' (stop_node e) u)"
  define first where "first = failure_of (fst (service_phases e w))"
  define second where "second = failure_of (fst (stop_node e u))"
  define failure where "failure = first_failure first second"
  obtain ps where ps: "phase_results u = phase_results w @ ps"
    and passed: "first = None \<longleftrightarrow> all_passed ps"
    using phased_service [of e] unfolding phased_def u_def first_def failure_of_None by metis
  have "phase_results (snd (stop_node e u)) = phase_results u"
    using recording.keeps_operations(5) [of "phase_results u" e] by (simp add: keeps_snd)
  then have v: "phase_results v = phase_results w @ ps
      @ [(''node_stop'', second = None, clock (snd (stop_node e u)) - clock u)]"
    by (simp add: v_def phase_run ps second_def)
  have "service e w = seq (write_workflow_report e ''service'' (failure = None) (wall_clock e (trace w)))
      (\<lambda>_. reraise failure) v"
    by (simp add: service_def attempt_run u_def [symmetric] v_def Let_def first_def second_def
        failure_def phase_run)
  then have s: "service e w = reraise failure (snd (write_workflow_report e ''service'' (failure = None)
      (wall_clock e (trace w)) v))"
    by (simp add: write_workflow_report_def write_file_def)
  have r: "reraise x y = ((case x of None \<Rightarrow> Inr () | Some z \<Rightarrow> Inl z), y)" for x and y :: lab
    by (cases x) (simp_all add: reraise_def ret_def raising_def)
  have none: "failure = None \<longleftrightarrow> first = None \<and> second = None"
    by (auto simp: failure_def first_failure_def split: option.splits)
  have out: "fst (service e w) = (case fst (service_phases e w) of Inl x \<Rightarrow> Inl x
          | Inr _ \<Rightarrow> fst (stop_node e u))"
    unfolding s r failure_def first_failure_def first_def second_def failure_of_def
    by (auto split: sum.splits)
  have returns: "failure = None \<longleftrightarrow> fst (service e w) = Inr ()"
    by (simp add: s r split: option.splits)
  have same: "trace v = trace (snd (stop_node e u))" "clock v = clock (snd (stop_node e u))"
    "written v = written (snd (stop_node e u))"
    by (simp_all add: v_def phase_run)
  have "first = None \<longleftrightarrow> fst (service_phases e w) = Inr ()" "second = None \<longleftrightarrow> fst (stop_node e u) = Inr ()"
    unfolding first_def second_def by (auto simp: failure_of_def split: sum.splits)
  note outcomes = this
  let ?w' = "snd (service e w)"
  have end_state: "trace ?w' = trace v" "clock ?w' = clock v" "phase_results ?w' = phase_results v"
    "\<exists>rep. written ?w' = written v @ [(run_directory e @ ''/workflow-report.json'', Workflow rep)]
       \<and> workflow rep = ''service'' \<and> phases rep = phase_results v \<and> (passed rep \<longleftrightarrow> failure = None)"
    by (simp_all add: s r write_workflow_report_def write_file_def)
  have "phase_results v = phase_results u @ [(''node_stop'', fst (stop_node e u) = Inr (),
      clock (snd (stop_node e u)) - clock u)]"
    using v ps outcomes(2) by simp
  moreover have "\<exists>ps. phase_results u = phase_results w @ ps \<and> (all_passed ps \<longleftrightarrow> fst (service_phases e w) = Inr ())"
    using ps passed outcomes(1) by blast
  ultimately show ?thesis
    using end_state returns out same unfolding case_prod_unfold Let_def u_def [symmetric] by metis
qed


text \<open>C37: a dry run makes no call: whatever the operation, the trace stays as it was.\<close>

theorem dry_run_runs_nothing:
  "trace (snd (execute (e\<lparr>dry_run := True\<rparr>) command w)) = trace w"
  using dry.keeps_execute [of "trace w" e command] by (simp add: keeps_snd)

lemma scale_then_wait:
  assumes "\<not> dry_run e" and "succeeds e (kubeconfig_command e)"
  shows "last_scaled_to e a b c (trace (snd (seq (update_kubeconfig e)
    (\<lambda>_. seq (scale_autoscaling_group e a b c) (\<lambda>_. wait_for_nodes e n s)) w)))"
proof -
  let ?scaled = "\<lambda>w. last_scaled_to e a b c (trace w)"
  obtain out u where "run_command e (kubeconfig_command e) False w = (Inr out, u)"
    using run_command_succeeds [OF assms(2)] by blast
  then have k: "update_kubeconfig e w = (Inr (), u)" by (simp add: update_kubeconfig_def ret_run)
  obtain r v where v: "scale_autoscaling_group e a b c u = (r, v)" by fastforce
  then have "trace v = trace u @ [Run (scale_command e a b c) []]"
    using run_command_trace [OF assms(1), of _ False u]
    by (auto simp: scale_autoscaling_group_def seq_def ret_def split: prod.splits sum.splits) (metis snd_conv)+
  then have "?scaled v" unfolding last_scaled_to_def by (intro exI [of _ "trace u"] exI [of _ "[]"]) simp
  moreover have "keeps ?scaled (wait_for_nodes e n s)" by (rule keeps_scaled [OF assms(1)])
  ultimately show ?thesis using k v by (cases r) (auto simp: keeps_snd)
qed

lemma stop_node_scales:
  assumes "\<not> dry_run e" and "succeeds e (kubeconfig_command e)"
  shows "last_scaled_to e 0 0 (sandbox_max_size (config e)) (trace (snd (stop_node e w)))"
  unfolding stop_node_def by (rule scale_then_wait [OF assms])

lemma report_traces:
  "trace (snd (write_workflow_report e n b i w)) = trace w"
  "trace (snd (write_benchmark_summary e i w)) = trace w"
  by (auto simp: write_workflow_report_def write_benchmark_summary_def write_file_def seq_def liftE_def
      split: sum.splits)

lemma stop_phase_scales:
  assumes "\<not> dry_run e" and "succeeds e (kubeconfig_command e)"
    and "\<And>x v. trace (snd (f x v)) = trace v"
  shows "last_scaled_to e 0 0 (sandbox_max_size (config e))
    (trace (snd (seq (attempt (phase n (stop_node e))) f w)))"
  using stop_node_scales [OF assms(1,2), of w] assms(3) by (simp add: attempt_run phase_run)

text \<open>C9: as long as the cluster's credentials can be fetched, stopping the node, \<open>service\<close> and
  \<open>benchmark\<close> all end with the node group scaled to zero: it is the last thing they do to the group,
  whatever failed before or after, an interrupt of the user included.\<close>

theorem workflows_scale_to_zero:
  assumes "\<not> dry_run e" and "succeeds e (kubeconfig_command e)"
    and "command = Node_Stop \<or> command = Service \<or> (\<exists>n \<ge> 1. command = Run_Benchmark n)"
  shows "last_scaled_to e 0 0 (sandbox_max_size (config e)) (trace (snd (execute e command w)))"
proof -
  have raised: "trace (snd (reraise x v)) = trace v" for x and v :: lab
    by (cases x) (simp_all add: reraise_def ret_run raising_run)
  have "trace (snd (seq (write_workflow_report e n b i) (\<lambda>_. reraise x) v)) = trace v" for n b i x v
    using report_traces(1) [of e n b i v] raised by (auto simp: seq_def split: prod.splits sum.splits)
  then have tail: "trace (snd (seq (write_benchmark_summary e k) (\<lambda>_. seq (write_workflow_report e n b i)
      (\<lambda>_. reraise x)) v)) = trace v"
    and report: "trace (snd (seq (write_workflow_report e n b i) (\<lambda>_. reraise x) v)) = trace v"
    for k n b i x v
    using report_traces(2) [of e k v]
    by (auto simp: seq_def [of "write_benchmark_summary e k"] split: prod.splits sum.splits)
  note stop = stop_phase_scales [OF assms(1,2)]
  from assms(3) show ?thesis
  proof (elim disjE exE conjE)
    assume "command = Node_Stop"
    then show ?thesis using stop_node_scales [OF assms(1,2)] by (simp add: execute_def)
  next
    assume c: "command = Service"
    show ?thesis unfolding c execute_def service_def Let_def lab_command.case
      by (simp add: attempt_run [of "service_phases e"] stop report)
  next
    fix n :: int
    assume n: "1 \<le> n" and c: "command = Run_Benchmark n"
    show ?thesis using n unfolding c execute_def benchmark_def Let_def lab_command.case
      by (simp add: attempt_run [of "benchmark_phases e _"] attempt_run [of "phase ''warm_pool_cleanup'' _"]
          stop tail)
  qed
qed


text \<open>A machine whose every command prints one document: a node group without nodes.\<close>

definition demo_config :: lab_config where
  "demo_config = \<lparr>region = ''r'', cluster_name = ''c'', sandbox_autoscaling_group = ''g'',
     sandbox_node_selector = ''l'', sandbox_min_size = 0, sandbox_desired_size = 1,
     sandbox_max_size = 2, tofu_directory = ''/d'', bootstrap_manifests = [], test_manifest = ''/t'',
     ready_command = [''true''], agent_sandbox_install_script = ''/i'', service_manifests_directory = ''/m'',
     service_test_script = ''/s'', artifact_directory = ''/a'', node_ready_timeout_seconds = 0,
     node_stop_timeout_seconds = 900, warm_pool_namespace = ''n'', warm_pool_name = ''p'',
     warm_pool_ready_timeout_seconds = 300\<rparr>"

definition empty_group :: json where
  "empty_group = JObj [(''AutoScalingGroups'', JList [JObj []])]"

definition demo_env :: lab_env where
  "demo_env = \<lparr>config = demo_config, dry_run = False,
     commands = (\<lambda>t c. (Completed 0 (json_compact empty_group) [], 1)), on_path = (\<lambda>_. True),
     is_file_at = (\<lambda>_ _. True), is_dir_at = (\<lambda>_ _. True), text_at = (\<lambda>_ _. Inr ''{}''),
     wall_clock = (\<lambda>_. 0), isoformat = str_of_int, run_directory = ''/a/0''\<rparr>"

definition new_lab :: lab where
  "new_lab = \<lparr>clock = 0, trace = [], log = [], phase_results = [], written = [], cold_paths = [],
     warm_paths = []\<rparr>"

lemma demo_env_facts [simp]:
  "succeeds demo_env argv" "\<not> dry_run demo_env" "config demo_env = demo_config"
  by (simp_all add: succeeds_def demo_env_def)

theorem workflows_scale_to_zero_witness:
  "last_scaled_to demo_env 0 0 2 (trace (snd (execute demo_env Service new_lab)))"
  using workflows_scale_to_zero [of demo_env Service new_lab] by (simp add: demo_config_def)

text \<open>C38: \<open>cycle\<close> starts the node before its \<open>try\<close> block: when the start fails, by a time-out for
  one, nothing is cleaned up, and the last thing done to the node group was to scale it up.\<close>

theorem cycle_leaves_node_running:
  assumes "\<not> dry_run e" and "succeeds e (kubeconfig_command e)" and "start_node e w = (Inl x, u)"
  shows "cycle e w = (Inl x, u)
    \<and> last_scaled_to e (sandbox_min_size (config e)) (sandbox_desired_size (config e))
        (sandbox_max_size (config e)) (trace u)"
proof
  show "cycle e w = (Inl x, u)" using assms(3) by (simp add: cycle_def)
  have "last_scaled_to e (sandbox_min_size (config e)) (sandbox_desired_size (config e))
      (sandbox_max_size (config e)) (trace (snd (start_node e w)))"
    unfolding start_node_def by (rule scale_then_wait [OF assms(1,2)])
  with assms(3) show "last_scaled_to e (sandbox_min_size (config e)) (sandbox_desired_size (config e))
        (sandbox_max_size (config e)) (trace u)" by simp
qed

lemma empty_group_ok: "json_ok empty_group"
  by code_simp

lemma demo_command:
  "\<exists>v. clock v = Suc (clock w)
     \<and> run_command demo_env c b w = (Inr (if b then json_compact empty_group else []), v)"
proof -
  have "json_compact empty_group \<noteq> []" using dumps_start [OF empty_group_ok]
    unfolding json_compact_def by (metis list.simps(3))
  then show ?thesis
    by (simp add: run_command_def log_line_def demo_env_def run_process_def perform_call_def ret_run)
qed

lemma empty_group_text: "json_loads (json_compact empty_group) = Inr empty_group"
  by (rule json_loads_compact) (rule empty_group_ok)

lemma empty_group_reads:
  "group_instances b empty_group = Inr []" "get_or empty_group ''items'' (JList []) = Inr (JList [])"
  "elements (JList []) = Inr []"
  by (simp_all add: empty_group_def group_instances_def json_reads)

theorem cycle_leaves_node_running_witness:
  "(\<exists>m. fst (cycle demo_env new_lab) = Inl (TimeoutError m))
    \<and> last_scaled_to demo_env 0 1 2 (trace (snd (cycle demo_env new_lab)))"
proof -
  have timeout: "\<exists>m u. nodes_round demo_env 1 (clock w) w = (Inl (TimeoutError m), u)" for w
  proof -
    obtain v where "clock v = Suc (clock w)" and "sandbox_instance_ids demo_env True w = (Inr [], v)"
      using demo_command [of w "[''aws'', ''autoscaling'', ''describe-auto-scaling-groups'', ''--region'',
            region demo_config, ''--auto-scaling-group-names'', sandbox_autoscaling_group demo_config,
            ''--output'', ''json'']" True]
      by (auto simp: sandbox_instance_ids_def empty_group_text empty_group_reads liftE_run)
    moreover obtain u where "clock u = Suc (clock v)"
      and "run_command demo_env [''kubectl'', ''get'', ''nodes'', ''-l'', sandbox_node_selector demo_config,
             ''-o'', ''json''] True v = (Inr (json_compact empty_group), u)"
      using demo_command [of v _ True] by auto
    ultimately show ?thesis
      by (simp add: nodes_round_def empty_group_text empty_group_reads liftE_run count_ready_def
          nodes_settled_def raising_run)
  qed
  have "\<exists>m u. wait_for_nodes demo_env 1 0 w = (Inl (TimeoutError m), u)" for w
    using timeout [of w] by (auto simp: wait_for_nodes_def Let_def deadline_after_def until_deadline_def)
  moreover have "node_ready_timeout_seconds (config demo_env) = 0" by (simp add: demo_config_def)
  moreover have "\<exists>u. update_kubeconfig demo_env w = (Inr (), u)" "\<exists>u. scale_autoscaling_group demo_env a b c w = (Inr (), u)"
    for a b c w
    using demo_command [of w _ False]
    by (auto simp: update_kubeconfig_def scale_autoscaling_group_def ret_run) (metis seq_run(1) ret_run)+
  ultimately have "\<exists>m. fst (start_node demo_env new_lab) = Inl (TimeoutError m)"
    unfolding start_node_def by (metis fst_conv seq_run(1))
  then obtain m u where start: "start_node demo_env new_lab = (Inl (TimeoutError m), u)"
    by (metis prod.collapse)
  from cycle_leaves_node_running [OF _ _ start] show ?thesis by (simp add: demo_config_def)
qed

text \<open>every operation of the lab ends, in every environment: no loop runs past its deadline.\<close>

theorem lab_terminates:
  assumes "\<And>t p. text_at e t p \<noteq> Inl OutOfFuel"
  shows "fst (execute e command w) \<noteq> Inl OutOfFuel"
  using fueled_execute [OF assms] by (simp add: fueled_def fueledE_def)

theorem lab_terminates_witness:
  "fst (execute demo_env (Run_Benchmark 3) new_lab) \<noteq> Inl OutOfFuel"
  by (rule lab_terminates) (simp add: demo_env_def)


text \<open>stopping the node first fetches the cluster's credentials, which scaling the group does not
  need: when that command fails, the group is not scaled, and \<open>stop_node\<close> raises after this one call.\<close>

theorem stop_node_needs_credentials:
  assumes "\<not> dry_run e"
    and "\<forall>t. \<exists>rc out err d. rc \<noteq> 0 \<and> commands e t (Run (kubeconfig_command e) []) = (Completed rc out err, d)"
  shows "(\<exists>rc. fst (stop_node e w) = Inl (CalledProcessError (kubeconfig_command e) rc))
    \<and> trace (snd (stop_node e w)) = trace w @ [Run (kubeconfig_command e) []]"
proof -
  define v where "v = w\<lparr>log := log w @ [CHR ''$'' # CHR '' '' # join_with '' '' (kubeconfig_command e)]\<rparr>"
  obtain rc out err d where "rc \<noteq> 0" and "commands e (trace v) (Run (kubeconfig_command e) []) = (Completed rc out err, d)"
    using assms(2) by blast
  then have "\<exists>u. run_command e (kubeconfig_command e) False w = (Inl (CalledProcessError (kubeconfig_command e) rc), u)"
    using assms(1)
    by (simp add: run_command_def log_line_def v_def [symmetric] run_process_def perform_call_def ret_run raising_run)
  then obtain u where u: "run_command e (kubeconfig_command e) False w
      = (Inl (CalledProcessError (kubeconfig_command e) rc), u)" by blast
  have "trace u = trace w @ [Run (kubeconfig_command e) []]"
    using run_command_trace [OF assms(1), of "kubeconfig_command e" False w] by (simp add: u)
  then show ?thesis by (simp add: stop_node_def update_kubeconfig_def u)
qed

theorem stop_node_needs_credentials_witness:
  "trace (snd (stop_node (demo_env\<lparr>commands := \<lambda>_ _. (Completed 255 [] [], 1)\<rparr>) new_lab))
     = [Run (kubeconfig_command demo_env) []]"
  using stop_node_needs_credentials [of "demo_env\<lparr>commands := \<lambda>_ _. (Completed 255 [] [], 1)\<rparr>" new_lab]
  by (simp add: new_lab_def kubeconfig_command_def)

text \<open>What the node group and the cluster answered at some point, and that it settles the wait.\<close>

definition group_command :: "lab_env \<Rightarrow> string list" where
  "group_command e = [''aws'', ''autoscaling'', ''describe-auto-scaling-groups'', ''--region'',
     region (config e), ''--auto-scaling-group-names'', sandbox_autoscaling_group (config e),
     ''--output'', ''json'']"

definition nodes_command :: "lab_env \<Rightarrow> string list" where
  "nodes_command e =
     [''kubectl'', ''get'', ''nodes'', ''-l'', sandbox_node_selector (config e), ''-o'', ''json'']"

definition answered :: "lab_env \<Rightarrow> string list \<Rightarrow> json \<Rightarrow> bool" where
  "answered e argv v \<longleftrightarrow>
     (\<exists>t out err d. commands e t (Run argv []) = (Completed 0 out err, d) \<and> json_loads out = Inr v)"

lemma captured:
  assumes "\<not> dry_run e" and "run_command e argv True w = (Inr out, w')"
  shows "\<exists>t err d. commands e t (Run argv []) = (Completed 0 out err, d)"
  using assms
  by (auto simp: run_command_def log_line_def seq_Inr run_process_def perform_call_def ret_run raising_run
      split: prod.splits answer.splits if_splits)

text \<open>C27: waiting for the nodes ends in every environment, and when it returns the cloud had reported
  what was waited for: for a stop, no instance in the group and no node in the cluster; for a start, at
  least that many nodes that are Ready and belong to healthy instances of the group.\<close>

theorem wait_for_nodes_outcome:
  assumes "\<not> dry_run e" and "wait_for_nodes e n s w = (r, w')"
  shows "r \<noteq> Inl OutOfFuel
    \<and> (r = Inr () \<longrightarrow> (\<exists>group v nodes ids ready.
        answered e (group_command e) group \<and> group_instances (0 < n) group = Inr ids
        \<and> answered e (nodes_command e) v \<and> bindE (get_or v ''items'' (JList [])) elements = Inr nodes
        \<and> count_ready ids nodes = Inr ready
        \<and> (if n = 0 then nodes = [] \<and> ids = [] else n \<le> ready)))"
proof
  show "r \<noteq> Inl OutOfFuel"
    using fueled_waits(1) [of e n s] assms(2) by (metis fst_conv fueledE_def fueled_def)
  show "r = Inr () \<longrightarrow> (\<exists>group v nodes ids ready.
        answered e (group_command e) group \<and> group_instances (0 < n) group = Inr ids
        \<and> answered e (nodes_command e) v \<and> bindE (get_or v ''items'' (JList [])) elements = Inr nodes
        \<and> count_ready ids nodes = Inr ready
        \<and> (if n = 0 then nodes = [] \<and> ids = [] else n \<le> ready))"
  proof
    assume "r = Inr ()"
    with assms(2) obtain d v where "until_deadline d (nodes_round e n d) v = (Inr (), w')"
      by (auto simp: wait_for_nodes_def Let_def)
    from until_deadline_last [OF this] obtain a b where "nodes_round e n d a = (Inr (Some ()), b)" by auto
    with assms(1) obtain ids u nodes ready out x where
      ids: "sandbox_instance_ids e (0 < n) a = (Inr ids, u)"
      and cmd: "run_command e (nodes_command e) True u = (Inr out, x)"
      and nodes: "bindE (json_loads out) (\<lambda>v. bindE (get_or v ''items'' (JList [])) elements) = Inr nodes"
      and ready: "count_ready ids nodes = Inr ready" and settled: "nodes_settled n ids nodes ready"
      by (auto simp: nodes_round_def nodes_command_def seq_Inr liftE_run ret_run raising_run split: if_splits)
    obtain out' y where "run_command e (group_command e) True a = (Inr out', y)"
      and "bindE (json_loads out') (group_instances (0 < n)) = Inr ids"
      using ids assms(1) by (auto simp: sandbox_instance_ids_def group_command_def seq_Inr liftE_run)
    moreover from this(2) obtain group where "json_loads out' = Inr group" "group_instances (0 < n) group = Inr ids"
      by (auto simp: result_iff)
    moreover from nodes obtain v where "json_loads out = Inr v"
      "bindE (get_or v ''items'' (JList [])) elements = Inr nodes"
      by (auto simp: bindE_Inr_iff)
    ultimately show "\<exists>group v nodes ids ready.
        answered e (group_command e) group \<and> group_instances (0 < n) group = Inr ids
        \<and> answered e (nodes_command e) v \<and> bindE (get_or v ''items'' (JList [])) elements = Inr nodes
        \<and> count_ready ids nodes = Inr ready
        \<and> (if n = 0 then nodes = [] \<and> ids = [] else n \<le> ready)"
      using captured [OF assms(1)] cmd ready settled unfolding answered_def nodes_settled_def by metis
  qed
qed

theorem wait_for_nodes_outcome_witness:
  "fst (wait_for_nodes demo_env 0 900 new_lab) = Inr () \<and> answered demo_env (nodes_command demo_env) empty_group"
proof -
  obtain v where "sandbox_instance_ids demo_env False new_lab = (Inr [], v)"
    using demo_command [of new_lab "[''aws'', ''autoscaling'', ''describe-auto-scaling-groups'', ''--region'',
            region demo_config, ''--auto-scaling-group-names'', sandbox_autoscaling_group demo_config,
            ''--output'', ''json'']" True]
    by (auto simp: sandbox_instance_ids_def empty_group_text empty_group_reads liftE_run)
  moreover obtain u where "run_command demo_env [''kubectl'', ''get'', ''nodes'', ''-l'',
      sandbox_node_selector demo_config, ''-o'', ''json''] True v = (Inr (json_compact empty_group), u)"
    using demo_command [of v _ True] by auto
  ultimately have "fst (wait_for_nodes demo_env 0 900 new_lab) = Inr ()"
    by (simp add: wait_for_nodes_def Let_def until_deadline_def nodes_round_def empty_group_text
        empty_group_reads liftE_run count_ready_def nodes_settled_def ret_run)
  moreover from this obtain w' where "wait_for_nodes demo_env 0 900 new_lab = (Inr (), w')"
    by (metis prod.collapse)
  from wait_for_nodes_outcome [OF _ this] obtain x where x: "answered demo_env (nodes_command demo_env) x"
    by auto
  moreover from x have "x = empty_group" by (auto simp: answered_def demo_env_def empty_group_text)
  ultimately show ?thesis by simp
qed

end
