(* ===== verification/Lab_Config.thy ===== *)
theory Lab_Config
  imports Aws_Lab
begin

text \<open>
  What \<open>LabConfig.load\<close> of \<open>tools/xolis_aws_lab.py\<close> accepts.
\<close>

lemma missing_fields_none:
  assumes "missing_fields data = Inr []" and "key \<in> set required_fields"
  shows "\<exists>v. item_at data key = Inr v \<and> truthy v"
proof -
  obtain l where l: "mapE (\<lambda>key. bindE (get_or data key JNull) (\<lambda>v. Inr (key, truthy v))) required_fields = Inr l"
    and all: "filter (\<lambda>(key, present). \<not> present) l = []"
    using assms(1) by (auto simp: missing_fields_def result_iff)
  obtain y pre post where y: "bindE (get_or data key JNull) (\<lambda>v. Inr (key, truthy v)) = Inr y"
    and "l = pre @ y # post"
    using mapE_member [OF l assms(2)] by blast
  with all obtain v where "get_or data key JNull = Inr v" and "truthy v"
    by (auto simp: result_iff split: if_splits)
  then show ?thesis
    by (auto simp: get_or_def item_at_def truthy_def split: json.splits option.splits)
qed

text \<open>C33: a configuration is only accepted from a readable JSON document in which every required field
  is set; the scaling values are the numbers in it or their defaults and lie in order, and the ready
  command is the list in it and not empty.\<close>

theorem load_config_valid:
  assumes "load_config rep resolve base name contents = Inr c"
  shows "\<exists>str data. contents = Inr str \<and> json_loads str = Inr data
    \<and> (\<forall>key \<in> set required_fields. \<exists>v. item_at data key = Inr v \<and> truthy v)
    \<and> int_field data ''sandbox_min_size'' 0 = Inr (sandbox_min_size c)
    \<and> int_field data ''sandbox_desired_size'' 1 = Inr (sandbox_desired_size c)
    \<and> int_field data ''sandbox_max_size'' 1 = Inr (sandbox_max_size c)
    \<and> 0 \<le> sandbox_min_size c \<and> sandbox_min_size c \<le> sandbox_desired_size c
    \<and> sandbox_desired_size c \<le> sandbox_max_size c
    \<and> (\<exists>items. bindE (item_at data ''ready_command'') elements = Inr items
        \<and> ready_command c = map (json_str rep) items \<and> items \<noteq> [])"
proof -
  obtain str where str: "contents = Inr str"
    using assms by (cases contents) (auto simp: load_config_def split: exn.splits)
  then obtain data where data: "json_loads str = Inr data"
    using assms str by (cases "json_loads str") (auto simp: load_config_def)
  then have missing: "missing_fields data = Inr []" and parse: "parse_config rep resolve base data = Inr c"
    and valid: "validate c = Inr ()"
    using assms str by (auto simp: load_config_def bindE_Inr_iff split: if_splits)
  from parse have "int_field data ''sandbox_min_size'' 0 = Inr (sandbox_min_size c)
    \<and> int_field data ''sandbox_desired_size'' 1 = Inr (sandbox_desired_size c)
    \<and> int_field data ''sandbox_max_size'' 1 = Inr (sandbox_max_size c)
    \<and> (\<exists>items. bindE (item_at data ''ready_command'') elements = Inr items
        \<and> ready_command c = map (json_str rep) items)"
    unfolding parse_config_def Let_def by (auto simp: bindE_Inr_iff)
  moreover from valid have "0 \<le> sandbox_min_size c \<and> sandbox_min_size c \<le> sandbox_desired_size c
    \<and> sandbox_desired_size c \<le> sandbox_max_size c \<and> ready_command c \<noteq> []"
    by (auto simp: validate_def split: if_splits)
  ultimately show ?thesis using str data missing_fields_none [OF missing] by auto
qed

definition sample_document :: json where
  "sample_document = JObj
     [(''region'', JStr ''r''), (''cluster_name'', JStr ''c''), (''sandbox_autoscaling_group'', JStr ''g''),
      (''sandbox_node_selector'', JStr ''l''), (''tofu_directory'', JStr ''infra''),
      (''test_manifest'', JStr ''pod.yaml''), (''ready_command'', JList [JStr ''true'']),
      (''artifact_directory'', JStr ''/tmp''), (''sandbox_max_size'', JInt 3)]"

definition sample_base :: pure_path where
  "sample_base = parse_path ''/lab''"

lemma sample_loads: "json_loads (json_compact sample_document) = Inr sample_document"
  by (rule json_loads_compact) code_simp

lemma sample_parse:
  "\<exists>c. parse_config (\<lambda>_. []) (\<lambda>p. path_text (parts p)) sample_base sample_document = Inr c
     \<and> validate c = Inr ()"
  by (simp add: parse_config_def Let_def str_field_def int_field_def resolve_item_def json_reads
      sample_document_def validate_def)

theorem load_config_valid_witness:
  "\<exists>c. load_config (\<lambda>_. []) (\<lambda>p. path_text (parts p)) sample_base ''lab.json''
      (Inr (json_compact sample_document)) = Inr c \<and> sandbox_desired_size c \<le> 3"
proof -
  have "missing_fields sample_document = Inr []"
    by (simp add: missing_fields_def required_fields_def sample_document_def json_reads truthy_def)
  then obtain c where load: "load_config (\<lambda>_. []) (\<lambda>p. path_text (parts p)) sample_base ''lab.json''
      (Inr (json_compact sample_document)) = Inr c"
    using sample_parse by (auto simp: load_config_def sample_loads)
  have "int_field sample_document ''sandbox_max_size'' 1 = Inr 3"
    by (simp add: int_field_def json_reads sample_document_def)
  with load_config_valid [OF load] have "sandbox_desired_size c \<le> 3"
    by (auto simp: sample_loads)
  with load show ?thesis by blast
qed

end
