(* ===== verification/Kernel_Config.thy ===== *)
theory Kernel_Config
  imports Py_Text "HOL-Library.List_Lexorder" "HOL-Library.Char_ord"
begin

text \<open>
  \<open>image/aws/pvm/scripts/validate-kernel-config.py\<close>: how a kernel configuration is read, and the check of
  the host and guest roles. A failure is kept as the option, what it has to be and what was found; the
  sentence printed for it is \<open>failure_text\<close>.
\<close>

section \<open>Lines\<close>

text \<open>The code points at which \<open>str.splitlines\<close> ends a line; a carriage return followed by a newline
  ends it once.\<close>

definition line_break :: "string \<Rightarrow> bool" where
  "line_break cp \<longleftrightarrow>
     (case map of_char cp :: nat list of
        [a] \<Rightarrow> (10 \<le> a \<and> a \<le> 13) \<or> (28 \<le> a \<and> a \<le> 30)
      | [a, b] \<Rightarrow> a = 0xC2 \<and> b = 0x85
      | [a, b, c] \<Rightarrow> a = 0xE2 \<and> b = 0x80 \<and> (c = 0xA8 \<or> c = 0xA9)
      | _ \<Rightarrow> False)"

fun split_lines :: "string \<Rightarrow> string list \<Rightarrow> string list" where
  "split_lines acc [] = (if acc = [] then [] else [acc])"
| "split_lines acc (c # cs) =
     (if c = [CHR 0x0D] \<and> cs \<noteq> [] \<and> hd cs = [NL] then acc # split_lines [] (tl cs)
      else if line_break c then acc # split_lines [] cs
      else split_lines (acc @ c) cs)"

definition splitlines :: "string \<Rightarrow> string list" where
  "splitlines s = split_lines [] (code_points s)"


section \<open>Reading\<close>

definition setting_of :: "string \<Rightarrow> (string \<times> string) option" where
  "setting_of raw_line =
     (let line = strip raw_line in
      case partition_on (CHR ''='') line of
        (name, assigned, val) \<Rightarrow>
          if startswith line ''CONFIG_'' \<and> assigned then Some (name, strip_by (\<lambda>c. c = DQUOTE) val)
          else if startswith line ''# CONFIG_'' \<and> endswith line '' is not set''
          then Some (removesuffix (removeprefix line ''# '') '' is not set'', ''n'')
          else None)"

definition read_lines :: "string list \<Rightarrow> string \<rightharpoonup> string" where
  "read_lines lines =
     fold (\<lambda>line values. case setting_of line of None \<Rightarrow> values | Some (name, v) \<Rightarrow> values(name \<mapsto> v)) lines
       Map.empty"

definition read_config :: "string \<Rightarrow> string \<rightharpoonup> string" where
  "read_config contents = read_lines (splitlines contents)"


section \<open>Requirements\<close>

definition host_exact :: "(string \<times> string) list" where
  "host_exact =
     [(''CONFIG_KVM'', ''m''), (''CONFIG_KVM_PVM'', ''m''), (''CONFIG_MODULES'', ''y''),
      (''CONFIG_MODULE_UNLOAD'', ''y''), (''CONFIG_PCI'', ''y''), (''CONFIG_PCI_MSI'', ''y''),
      (''CONFIG_NET_VENDOR_AMAZON'', ''y''), (''CONFIG_CGROUPS'', ''y''), (''CONFIG_CGROUP_BPF'', ''y''),
      (''CONFIG_BPF_SYSCALL'', ''y''), (''CONFIG_SECURITY_SELINUX'', ''y''), (''CONFIG_SERIAL_8250'', ''y''),
      (''CONFIG_SERIAL_8250_CONSOLE'', ''y''), (''CONFIG_DEBUG_FS'', ''y''), (''CONFIG_MAGIC_SYSRQ'', ''y'')]"

definition host_builtin_or_module :: "string list" where
  "host_builtin_or_module =
     [''CONFIG_BLK_DEV_NVME'', ''CONFIG_ENA_ETHERNET'', ''CONFIG_XFS_FS'', ''CONFIG_EXT4_FS'',
      ''CONFIG_OVERLAY_FS'', ''CONFIG_NF_CONNTRACK'', ''CONFIG_VHOST_NET'', ''CONFIG_VHOST_VSOCK'',
      ''CONFIG_VIRTIO_VSOCKETS'']"

definition guest_exact :: "(string \<times> string) list" where
  "guest_exact =
     [(''CONFIG_PVM_GUEST'', ''y''), (''CONFIG_X86_PIE'', ''y''), (''CONFIG_KVM_GUEST'', ''y''),
      (''CONFIG_PARAVIRT'', ''y''), (''CONFIG_PARAVIRT_XXL'', ''y''),
      (''CONFIG_MITIGATION_PAGE_TABLE_ISOLATION'', ''y''), (''CONFIG_MODULES'', ''n''),
      (''CONFIG_KASAN'', ''n''), (''CONFIG_VSOCKETS'', ''y''), (''CONFIG_VIRTIO_VSOCKETS'', ''y''),
      (''CONFIG_VIRTIO_BLK'', ''y''), (''CONFIG_VIRTIO_NET'', ''y''), (''CONFIG_VIRTIO_CONSOLE'', ''y''),
      (''CONFIG_HW_RANDOM_VIRTIO'', ''y''), (''CONFIG_FUSE_FS'', ''y''), (''CONFIG_VIRTIO_FS'', ''y''),
      (''CONFIG_SERIAL_8250'', ''y''), (''CONFIG_SERIAL_8250_CONSOLE'', ''y''), (''CONFIG_DEBUG_FS'', ''y''),
      (''CONFIG_MAGIC_SYSRQ'', ''y'')]"

datatype config_failure =
    Must_Be string string "string option"  \<comment> \<open>option, required value, value found\<close>
  | Must_Be_Builtin_Or_Module string "string option"

definition found_text :: "string option \<Rightarrow> string" where
  "found_text found = (case found of None \<Rightarrow> ''missing'' | Some v \<Rightarrow> v)"

fun failure_text :: "config_failure \<Rightarrow> string" where
  "failure_text (Must_Be name required found) =
     name @ '' must be '' @ required @ '', found '' @ found_text found"
| "failure_text (Must_Be_Builtin_Or_Module name found) =
     name @ '' must be built in or a module, found '' @ found_text found"

definition validate_exact :: "(string \<rightharpoonup> string) \<Rightarrow> (string \<times> string) list \<Rightarrow> config_failure list" where
  "validate_exact values expected =
     map (\<lambda>(name, required). Must_Be name required (values name))
       (filter (\<lambda>(name, required). values name \<noteq> Some required) (sort_key fst expected))"

definition validate_host :: "(string \<rightharpoonup> string) \<Rightarrow> config_failure list" where
  "validate_host values =
     validate_exact values host_exact
     @ map (\<lambda>name. Must_Be_Builtin_Or_Module name (values name))
         (filter (\<lambda>name. values name \<notin> {Some ''y'', Some ''m''}) (sort host_builtin_or_module))"

datatype role = Host | Guest

text \<open>\<open>main\<close> after its arguments were parsed: what it prints and the exit status. \<open>shown\<close> is the path.\<close>

definition main :: "role \<Rightarrow> string \<Rightarrow> string \<Rightarrow> string list \<times> int" where
  "main r shown contents =
     (let values = read_config contents;
          failures = (case r of Host \<Rightarrow> validate_host values | Guest \<Rightarrow> validate_exact values guest_exact)
      in if failures \<noteq> [] then (map failure_text failures, 1)
         else ([''Validated '' @ (case r of Host \<Rightarrow> ''host'' | Guest \<Rightarrow> ''guest'') @ '' kernel config: '' @ shown], 0))"


section \<open>What is read\<close>

text \<open>The last line that sets an option decides.\<close>

lemma read_lines_is_last:
  "read_lines lines = map_of (rev (List.map_filter setting_of lines))"
proof (induction lines rule: rev_induct)
  case (snoc line lines)
  show ?case
  proof (cases "setting_of line")
    case (Some p)
    with snoc show ?thesis by (cases p) (simp add: read_lines_def List.map_filter_def)
  qed (use snoc in \<open>simp add: read_lines_def List.map_filter_def\<close>)
qed (simp add: read_lines_def List.map_filter_def)

lemma validate_exact_none:
  "validate_exact values expected = [] \<longleftrightarrow> (\<forall>(name, required) \<in> set expected. values name = Some required)"
  by (auto simp: validate_exact_def filter_empty_conv)

lemma validate_host_none:
  "validate_host values = [] \<longleftrightarrow>
     (\<forall>(name, required) \<in> set host_exact. values name = Some required)
     \<and> (\<forall>name \<in> set host_builtin_or_module. values name \<in> {Some ''y'', Some ''m''})"
  by (auto simp: validate_host_def validate_exact_none filter_empty_conv)

text \<open>C16: the check succeeds exactly when every required option has its value, and the host's drivers
  are built in or modules, where the value of an option is what the last line that sets it says.\<close>

theorem validation_accepts:
  "snd (main r shown contents) = 0 \<longleftrightarrow>
     (let last_setting = map_of (rev (List.map_filter setting_of (splitlines contents))) in
      case r of
        Host \<Rightarrow> list_all (\<lambda>(name, required). last_setting name = Some required) host_exact
          \<and> list_all (\<lambda>name. last_setting name \<in> {Some ''y'', Some ''m''}) host_builtin_or_module
      | Guest \<Rightarrow> list_all (\<lambda>(name, required). last_setting name = Some required) guest_exact)"
  by (cases r)
     (simp_all add: main_def read_config_def read_lines_is_last validate_host_none validate_exact_none Let_def
       list_all_iff)


section \<open>Writing a configuration\<close>

text \<open>The lines of a configuration as the kernel build writes it: a value as it is or as a string in quotes,
  an option that is not set, a comment, an empty line.\<close>

datatype config_entry =
    Assigned string string
  | Text string string
  | Unset string
  | Comment string
  | Empty

fun config_line :: "config_entry \<Rightarrow> string" where
  "config_line (Assigned name v) = name @ ''='' @ v"
| "config_line (Text name t) = name @ ''='' @ [DQUOTE] @ t @ [DQUOTE]"
| "config_line (Unset name) = ''# '' @ name @ '' is not set''"
| "config_line (Comment t) = ''#'' @ t"
| "config_line Empty = []"

text \<open>What an entry says.\<close>

fun entry_setting :: "config_entry \<Rightarrow> (string \<times> string) option" where
  "entry_setting (Assigned name v) = Some (name, v)"
| "entry_setting (Text name t) = Some (name, t)"
| "entry_setting (Unset name) = Some (name, ''n'')"
| "entry_setting _ = None"

definition printable :: "char \<Rightarrow> bool" where
  "printable c \<longleftrightarrow> (let n = of_char c :: nat in 32 \<le> n \<and> n \<le> 126)"

definition name_char :: "char \<Rightarrow> bool" where
  "name_char c \<longleftrightarrow> (let n = of_char c :: nat in 33 \<le> n \<and> n \<le> 126 \<and> n \<noteq> 34 \<and> n \<noteq> 35 \<and> n \<noteq> 61)"

definition option_name :: "string \<Rightarrow> bool" where
  "option_name name \<longleftrightarrow> startswith name ''CONFIG_'' \<and> list_all name_char name"

fun entry_ok :: "config_entry \<Rightarrow> bool" where
  "entry_ok (Assigned name v) \<longleftrightarrow> option_name name \<and> list_all name_char v \<and> v \<noteq> []"
| "entry_ok (Text name t) \<longleftrightarrow> option_name name \<and> list_all printable t \<and> DQUOTE \<notin> set t"
| "entry_ok (Unset name) \<longleftrightarrow> option_name name"
| "entry_ok (Comment t) \<longleftrightarrow> list_all printable t \<and> \<not> startswith t '' CONFIG_''"
| "entry_ok Empty \<longleftrightarrow> True"

definition config_text :: "config_entry list \<Rightarrow> string" where
  "config_text entries = concat (map (\<lambda>e. config_line e @ [NL]) entries)"

lemma printable_facts:
  assumes "printable c"
  shows "(of_char c :: nat) < 128" "\<not> line_break [c]" "c \<noteq> CHR 0x0D"
  using assms by (auto simp: printable_def line_break_def Let_def)

lemma printable_marks:
  "printable DQUOTE" "printable (CHR ''='')" "printable (CHR ''#'')" "list_all printable '' is not set''"
  by code_simp+

lemma name_char_printable: "name_char c \<Longrightarrow> printable c"
  by (simp add: name_char_def printable_def Let_def)

lemma strip_line:
  assumes "\<forall>c \<in> set s. (of_char c :: nat) < 128" and "s = a # m @ [z]"
    and "\<not> ascii_space a" and "\<not> ascii_space z"
  shows "strip s = s"
  using assms by (simp add: strip_ascii strip_by_def)

lemma name_char_facts:
  assumes "name_char c"
  shows "(of_char c :: nat) < 128" "\<not> ascii_space c" "c \<noteq> DQUOTE" "c \<noteq> CHR ''=''" "\<not> line_break [c]"
    "c \<noteq> CHR 0x0D" "c \<noteq> CHR ''#''"
  using assms by (auto simp: name_char_def ascii_space_def line_break_def Let_def)

lemma strip_by_id: "\<forall>c \<in> set v. \<not> P c \<Longrightarrow> strip_by P v = v"
proof -
  have drop: "dropWhile P xs = xs" if "\<forall>c \<in> set xs. \<not> P c" for xs
    using that by (cases xs) simp_all
  then show "\<forall>c \<in> set v. \<not> P c \<Longrightarrow> strip_by P v = v"
    using drop [of "rev v"] by (simp add: strip_by_def drop)
qed

lemma strip_quotes:
  assumes "DQUOTE \<notin> set t"
  shows "strip_by (\<lambda>c. c = DQUOTE) (DQUOTE # t @ [DQUOTE]) = t"
proof (cases t rule: rev_cases)
  case (snoc u z)
  have "dropWhile (\<lambda>c. c = DQUOTE) (xs @ [DQUOTE]) = xs @ [DQUOTE]" if "xs \<noteq> []" "DQUOTE \<notin> set xs" for xs
    using that by (cases xs) auto
  from this [of t] have "strip_by (\<lambda>c. c = DQUOTE) (DQUOTE # t @ [DQUOTE]) = rev (dropWhile (\<lambda>c. c = DQUOTE) (rev t))"
    using assms snoc by (simp add: strip_by_def)
  moreover have "dropWhile (\<lambda>c. c = DQUOTE) (rev t) = rev t" using assms snoc by auto
  ultimately show ?thesis by simp
qed (simp add: strip_by_def)

text \<open>A comment is read as such: trailing blanks apart, its line is the start of what was written.\<close>

lemma strip_prefix:
  assumes "\<forall>c \<in> set s. (of_char c :: nat) < 128" and "s = a # m" and "\<not> ascii_space a"
  shows "prefix (strip s) s"
proof -
  have "strip s = rev (dropWhile ascii_space (rev s))" using assms by (simp add: strip_ascii strip_by_def)
  moreover have "suffix (dropWhile ascii_space (rev s)) (rev s)" by (rule suffix_dropWhile)
  ultimately show ?thesis by (simp add: suffix_to_prefix)
qed

lemma setting_of_comment:
  assumes "list_all printable t" and "\<not> startswith t '' CONFIG_''"
  shows "setting_of (''#'' @ t) = None"
proof -
  let ?line = "strip (''#'' @ t)"
  have "prefix ?line (''#'' @ t)"
    by (rule strip_prefix [of _ "CHR ''#''" t])
       (use assms(1) printable_facts(1) in \<open>auto simp: list_all_iff ascii_space_def\<close>)
  then obtain z where z: "''#'' @ t = ?line @ z" by (auto simp: prefix_def)
  have "\<not> startswith ?line ''CONFIG_''"
  proof
    assume "startswith ?line ''CONFIG_''"
    then have "startswith (?line @ z) ''CONFIG_''" by (auto simp: prefix_def)
    then show False unfolding z [symmetric] by simp
  qed
  moreover have "\<not> startswith ?line ''# CONFIG_''"
  proof
    assume "startswith ?line ''# CONFIG_''"
    then have "startswith (?line @ z) ''# CONFIG_''" by (auto simp: prefix_def)
    then show False using assms(2) unfolding z [symmetric] by simp
  qed
  ultimately show ?thesis by (simp add: setting_of_def Let_def split: prod.splits)
qed

lemma setting_of_assignment:
  assumes "option_name name" and "v = w @ [z]" and "\<forall>c \<in> set v. (of_char c :: nat) < 128" and "\<not> ascii_space z"
  shows "setting_of (name @ ''='' @ v) = Some (name, strip_by (\<lambda>c. c = DQUOTE) v)"
proof -
  obtain nm where name: "name = ''CONFIG_'' @ nm" and chars: "\<forall>c \<in> set name. name_char c"
    using assms(1) by (auto simp: option_name_def prefix_def list_all_iff)
  let ?l = "name @ ''='' @ v"
  have "strip ?l = ?l"
    by (rule strip_line [of _ "CHR ''C''" "''ONFIG_'' @ nm @ ''='' @ w" z])
       (use chars assms name_char_facts(1) in \<open>auto simp: name ascii_space_def\<close>)
  moreover have "partition_on (CHR ''='') ?l = (name, True, v)"
    using partition_on_hit [of "CHR ''=''" name v] chars name_char_facts(4) by auto
  ultimately show ?thesis by (simp add: setting_of_def Let_def name)
qed

lemma setting_of_unset:
  assumes "option_name name"
  shows "setting_of (''# '' @ name @ '' is not set'') = Some (name, ''n'')"
proof -
  obtain nm where name: "name = ''CONFIG_'' @ nm" and chars: "\<forall>c \<in> set name. name_char c"
    using assms(1) by (auto simp: option_name_def prefix_def list_all_iff)
  let ?l = "''# '' @ name @ '' is not set''"
  have "strip ?l = ?l"
    by (rule strip_line [of _ "CHR ''#''" "'' '' @ name @ '' is not se''" "CHR ''t''"])
       (use chars name_char_facts(1) in \<open>auto simp: ascii_space_def\<close>)
  moreover have "partition_on (CHR ''='') ?l = (?l, False, [])"
    by (rule partition_on_miss) (use chars name_char_facts(4) in auto)
  moreover have "removesuffix (removeprefix ?l ''# '') '' is not set'' = name"
    using removeprefix_append [of "''# ''" "name @ '' is not set''"]
      removesuffix_append [of name "'' is not set''"] by simp
  ultimately show ?thesis by (simp add: setting_of_def Let_def name suffix_def)
qed

lemma setting_of_config_line:
  assumes "entry_ok e"
  shows "setting_of (config_line e) = entry_setting e"
proof (cases e)
  case (Assigned name v)
  then have v: "list_all name_char v" "v \<noteq> []" using assms by simp_all
  obtain w z where wz: "v = w @ [z]" using v(2) by (cases v rule: rev_cases) auto
  have "strip_by (\<lambda>c. c = DQUOTE) v = v"
    by (rule strip_by_id) (use v(1) name_char_facts(3) in \<open>auto simp: list_all_iff\<close>)
  with setting_of_assignment [of name v w z] assms v wz name_char_facts(1,2) show ?thesis
    by (auto simp: Assigned list_all_iff)
next
  case (Text name t)
  then have t: "list_all printable t" "DQUOTE \<notin> set t" "option_name name" using assms by simp_all
  have "\<forall>c \<in> set (DQUOTE # t @ [DQUOTE]). (of_char c :: nat) < 128" "\<not> ascii_space DQUOTE"
    using t(1) printable_facts(1) printable_marks(1) by (auto simp: list_all_iff ascii_space_def)
  with setting_of_assignment [of name "DQUOTE # t @ [DQUOTE]" "DQUOTE # t" DQUOTE] t(3) strip_quotes [OF t(2)]
  show ?thesis by (simp add: Text)
next
  case (Unset name)
  with assms setting_of_unset [of name] show ?thesis by simp
next
  case (Comment t)
  with assms setting_of_comment [of t] show ?thesis by simp
next
  case Empty
  have "setting_of [] = None" by code_simp
  then show ?thesis by (simp add: Empty)
qed

lemma config_line_printable:
  assumes "entry_ok e"
  shows "list_all printable (config_line e)"
proof -
  have n: "list_all printable name" if "list_all name_char name" for name
    using that name_char_printable by (auto simp: list_all_iff)
  have "list_all printable ''# ''" by code_simp
  then show ?thesis
    using assms printable_marks n by (cases e) (auto simp: option_name_def)
qed

lemma split_lines_chars:
  "\<forall>c \<in> set l. \<not> line_break [c] \<and> c \<noteq> CHR 0x0D \<Longrightarrow>
     split_lines acc (map (\<lambda>c. [c]) l @ [NL] # r) = (acc @ l) # split_lines [] r"
proof (induction l arbitrary: acc)
  case Nil
  then show ?case by (simp add: line_break_def)
next
  case (Cons c l)
  then show ?case by simp
qed

lemma splitlines_text:
  assumes "\<forall>l \<in> set ls. \<forall>c \<in> set l. (of_char c :: nat) < 128 \<and> \<not> line_break [c] \<and> c \<noteq> CHR 0x0D"
  shows "splitlines (concat (map (\<lambda>l. l @ [NL]) ls)) = ls"
proof -
  have "code_points (concat (map (\<lambda>l. l @ [NL]) ls)) = map (\<lambda>c. [c]) (concat (map (\<lambda>l. l @ [NL]) ls))"
    using assms by (intro code_points_ascii) auto
  moreover have "split_lines [] (map (\<lambda>c. [c]) (concat (map (\<lambda>l. l @ [NL]) ls))) = ls"
    using assms by (induction ls) (auto simp: split_lines_chars)
  ultimately show ?thesis by (simp add: splitlines_def)
qed

text \<open>C35: reading back a configuration as the kernel build writes it gives the settings written: values as
  they are, texts without their quotes, options that are not set as \<open>n\<close>; comments and empty lines say
  nothing, and of an option written twice the last one counts.\<close>

theorem read_config_written:
  assumes "list_all entry_ok entries"
  shows "read_config (config_text entries) = map_of (rev (List.map_filter entry_setting entries))"
proof -
  have "config_text entries = concat (map (\<lambda>l. l @ [NL]) (map config_line entries))"
    by (simp add: config_text_def comp_def)
  moreover have "splitlines \<dots> = map config_line entries"
  proof (rule splitlines_text, intro ballI)
    fix l c assume "l \<in> set (map config_line entries)" and "c \<in> set l"
    then have "printable c" using assms config_line_printable by (auto simp: list_all_iff)
    then show "(of_char c :: nat) < 128 \<and> \<not> line_break [c] \<and> c \<noteq> CHR 0x0D" using printable_facts by blast
  qed
  moreover have "List.map_filter setting_of (map config_line entries) = List.map_filter entry_setting entries"
    using assms by (induction entries) (simp_all add: List.map_filter_def setting_of_config_line)
  ultimately show ?thesis by (simp add: read_config_def read_lines_is_last)
qed

definition demo_entries :: "config_entry list" where
  "demo_entries =
     [Comment '' Automatically generated file; DO NOT EDIT.'', Empty, Comment [], Assigned ''CONFIG_KVM'' ''m'',
      Text ''CONFIG_CC_VERSION_TEXT'' ''gcc (GCC) 11.4 = 2'', Unset ''CONFIG_KASAN'', Comment '' end of it'']"

theorem read_config_written_witness:
  "read_config (config_text demo_entries) ''CONFIG_KASAN'' = Some ''n''
   \<and> read_config (config_text demo_entries) ''CONFIG_CC_VERSION_TEXT'' = Some ''gcc (GCC) 11.4 = 2''"
proof -
  have "list_all entry_ok demo_entries" by code_simp
  from read_config_written [OF this] show ?thesis
    by (simp add: demo_entries_def List.map_filter_def)
qed

end
