(* ===== verification/Hermes_Profile.thy ===== *)
theory Hermes_Profile
  imports Prelude "HOL-Library.Char_ord"
begin

text \<open>
  \<open>tools/render_hermes_profile.py\<close>: which image references are accepted, and the substitution of the four
  placeholders of the profile template.
\<close>

definition region_or_digit :: "char \<Rightarrow> bool" where
  "region_or_digit c \<longleftrightarrow> (CHR ''a'' \<le> c \<and> c \<le> CHR ''z'') \<or> is_digit c \<or> c = CHR ''-''"

definition hex_lower :: "char \<Rightarrow> bool" where
  "hex_lower c \<longleftrightarrow> is_digit c \<or> (CHR ''a'' \<le> c \<and> c \<le> CHR ''f'')"

text \<open>\<open>IMAGE_PATTERN.fullmatch\<close>. Neither repeated class has the dot that follows it.\<close>

definition image_suffix :: string where
  "image_suffix = ''.amazonaws.com/xolis/xolis-runtime-hermes@sha256:''"

definition is_image_reference :: "string \<Rightarrow> bool" where
  "is_image_reference s =
     (let account = takeWhile is_digit s;
          s1 = drop (length account) s;
          s2 = removeprefix s1 ''.dkr.ecr.'';
          area = takeWhile region_or_digit s2;
          s3 = drop (length area) s2;
          digest = removeprefix s3 image_suffix
      in account \<noteq> [] \<and> startswith s1 ''.dkr.ecr.'' \<and> area \<noteq> [] \<and> startswith s3 image_suffix
         \<and> length digest = 64 \<and> list_all hex_lower digest)"

definition hermes_modes :: "(string \<times> string \<times> string) list" where
  "hermes_modes =
     [(''oci'', ''hermes-agent-v1'', ''xolis-kata''),
      (''nydus'', ''hermes-agent-nydus-v1'', ''xolis-kata-nydus''),
      (''pvm'', ''hermes-agent-pvm-v1'', ''xolis-kata-pvm'')]"

definition fill_template :: "string \<Rightarrow> string \<Rightarrow> string \<Rightarrow> string \<Rightarrow> string \<Rightarrow> string" where
  "fill_template template image_reference profile image_mode runtime_class =
     replace_all ''__RUNTIME_CLASS__'' runtime_class
       (replace_all ''__IMAGE_MODE__'' image_mode
         (replace_all ''__HERMES_PROFILE__'' profile
           (replace_all ''__HERMES_IMAGE_REFERENCE__'' image_reference template)))"

text \<open>\<open>template\<close> is the text of the template file, or the error of reading it.\<close>

definition render :: "string result \<Rightarrow> string \<Rightarrow> string \<Rightarrow> string result" where
  "render template image_reference image_mode =
     (if \<not> is_image_reference image_reference
      then Inl (ValueError ''Hermes image must be an immutable private ECR digest reference'')
      else bindE template (\<lambda>t.
        case map_of hermes_modes image_mode of
          None \<Rightarrow> Inl (ValueError (''image mode must be '' @ [QUOTE] @ ''oci'' @ [QUOTE] @ '', '' @ [QUOTE] @ ''nydus''
                   @ [QUOTE] @ '', or '' @ [QUOTE] @ ''pvm'' @ [QUOTE]))
        | Some (profile, runtime_class) \<Rightarrow>
            Inr (fill_template t image_reference profile image_mode runtime_class)))"


section \<open>Templates\<close>

text \<open>A template as literal text and placeholders.\<close>

datatype placeholder = Reference | Profile | Mode | Runtime_Class

datatype piece = Literal string | Hole placeholder

fun hole_name :: "placeholder \<Rightarrow> string" where
  "hole_name Reference = ''HERMES_IMAGE_REFERENCE''"
| "hole_name Profile = ''HERMES_PROFILE''"
| "hole_name Mode = ''IMAGE_MODE''"
| "hole_name Runtime_Class = ''RUNTIME_CLASS''"

definition hole_text :: "placeholder \<Rightarrow> string" where
  "hole_text p = ''__'' @ hole_name p @ ''__''"

fun piece_text :: "piece \<Rightarrow> string" where
  "piece_text (Literal l) = l"
| "piece_text (Hole p) = hole_text p"

definition template_text :: "piece list \<Rightarrow> string" where
  "template_text ps = concat (map piece_text ps)"

definition fill :: "(placeholder \<Rightarrow> string) \<Rightarrow> piece list \<Rightarrow> string" where
  "fill values ps = concat (map (\<lambda>p. case p of Literal l \<Rightarrow> l | Hole h \<Rightarrow> values h) ps)"

text \<open>Text in which no placeholder can begin: no two underscores in a row and none at the end. What
  follows a placeholder begins with neither an underscore nor a capital.\<close>

fun calm :: "string \<Rightarrow> bool" where
  "calm [] \<longleftrightarrow> True"
| "calm (c # s) \<longleftrightarrow> (c = CHR ''_'' \<longrightarrow> s \<noteq> [] \<and> hd s \<noteq> CHR ''_'') \<and> calm s"

definition apart :: "string \<Rightarrow> bool" where
  "apart s \<longleftrightarrow> s \<noteq> [] \<and> hd s \<noteq> CHR ''_'' \<and> \<not> (CHR ''A'' \<le> hd s \<and> hd s \<le> CHR ''Z'')"

fun clean :: "piece list \<Rightarrow> bool" where
  "clean [] \<longleftrightarrow> True"
| "clean (Literal l # ps) \<longleftrightarrow> calm l \<and> clean ps"
| "clean (Hole p # ps) \<longleftrightarrow>
     clean ps \<and> (case ps of [] \<Rightarrow> True | Literal l # _ \<Rightarrow> apart l | Hole _ # _ \<Rightarrow> False)"

lemma hole_starts: "\<exists>c r. hole_text p = CHR ''_'' # CHR ''_'' # c # r \<and> CHR ''A'' \<le> c \<and> c \<le> CHR ''Z''"
  by (cases p) (simp_all add: less_eq_char_def hole_text_def)

lemma calm_name: "calm (hole_name p)"
  by (cases p) simp_all

lemma hole_mismatch: "p \<noteq> q \<Longrightarrow> \<not> prefix (hole_text p) (hole_text q @ s)"
  by (cases p; cases q) (simp_all add: hole_text_def)

lemma replace_calm:
  "calm l \<Longrightarrow> replace_all (hole_text p) v (l @ s) = l @ replace_all (hole_text p) v s"
proof (induction l)
  case (Cons c l)
  obtain d r where h: "hole_text p = CHR ''_'' # CHR ''_'' # d # r" using hole_starts by blast
  have "\<not> prefix (hole_text p) (c # l @ s)"
    using Cons.prems unfolding h by (cases l) auto
  with Cons show ?case by (simp add: replace_all_miss)
qed simp

lemma replace_other_hole:
  assumes "p \<noteq> q" and "s = [] \<or> apart s"
  shows "replace_all (hole_text p) v (hole_text q @ s) = hole_text q @ replace_all (hole_text p) v s"
proof -
  obtain d r where h: "hole_text p = CHR ''_'' # CHR ''_'' # d # r" and d: "CHR ''A'' \<le> d" "d \<le> CHR ''Z''"
    using hole_starts by blast
  have "\<not> prefix (hole_text p) (CHR ''_'' # CHR ''_'' # s)" "\<not> prefix (hole_text p) (CHR ''_'' # s)"
    using assms(2) d unfolding h apart_def by (cases s; auto)+
  then have tail: "replace_all (hole_text p) v (''__'' @ s) = ''__'' @ replace_all (hole_text p) v s"
    by (simp add: replace_all_miss)
  obtain e n where n: "hole_name q = e # n" "e \<noteq> CHR ''_''" by (cases q) simp_all
  have one: "\<not> prefix (hole_text p) (CHR ''_'' # hole_name q @ ''__'' @ s)" unfolding h n(1) using n(2) by simp
  have two: "\<not> prefix (hole_text p) (CHR ''_'' # CHR ''_'' # hole_name q @ ''__'' @ s)"
    using hole_mismatch [OF assms(1), of s] by (simp add: hole_text_def [of q])
  have "replace_all (hole_text p) v (hole_text q @ s)
      = ''__'' @ replace_all (hole_text p) v (hole_name q @ ''__'' @ s)"
    using replace_all_miss [OF two, of v] replace_all_miss [OF one, of v] by (simp add: hole_text_def [of q])
  also have "\<dots> = ''__'' @ hole_name q @ ''__'' @ replace_all (hole_text p) v s"
    by (simp only: replace_calm [OF calm_name] tail)
  finally show ?thesis by (simp add: hole_text_def [of q])
qed

definition put :: "placeholder \<Rightarrow> string \<Rightarrow> piece list \<Rightarrow> piece list" where
  "put p v ps = map (\<lambda>x. if x = Hole p then Literal v else x) ps"

lemma put_clean: "calm v \<Longrightarrow> clean ps \<Longrightarrow> clean (put p v ps)"
  by (induction ps rule: clean.induct) (auto simp: put_def split: list.splits piece.splits)

lemma hole_text_not_Nil [simp]: "hole_text p \<noteq> []"
  by (simp add: hole_text_def)

lemma replace_put:
  "clean ps \<Longrightarrow> replace_all (hole_text p) v (template_text ps) = template_text (put p v ps)"
proof (induction ps rule: clean.induct)
  case (2 l ps)
  then show ?case by (simp add: template_text_def put_def replace_calm)
next
  case (3 q ps)
  have s: "template_text ps = [] \<or> apart (template_text ps)"
    using "3.prems" by (cases ps) (auto simp: template_text_def apart_def split: piece.splits)
  show ?case
  proof (cases "q = p")
    case True
    then show ?thesis using 3 by (simp add: template_text_def put_def)
  next
    case False
    then show ?thesis using 3 replace_other_hole [of p q "template_text ps" v] s
      by (simp add: template_text_def put_def)
  qed
qed (simp_all add: template_text_def put_def)

lemma template_filled:
  "template_text (put Runtime_Class d (put Mode c (put Profile b (put Reference a ps))))
     = fill (\<lambda>h. case h of Reference \<Rightarrow> a | Profile \<Rightarrow> b | Mode \<Rightarrow> c | Runtime_Class \<Rightarrow> d) ps"
  by (induction ps) (auto simp: template_text_def put_def fill_def split: piece.splits placeholder.splits)


section \<open>Properties\<close>

lemma no_underscore_calm: "CHR ''_'' \<notin> set s \<Longrightarrow> calm s"
  by (induction s) auto

lemma is_image_reference_shape:
  assumes "is_image_reference s"
  obtains account area digest where "s = account @ ''.dkr.ecr.'' @ area @ image_suffix @ digest"
    and "\<forall>c \<in> set account. is_digit c" and "\<forall>c \<in> set area. region_or_digit c"
    and "list_all hex_lower digest" and "length digest = 64"
proof -
  define a where "a = takeWhile is_digit s"
  define r where "r = removeprefix (drop (length a) s) ''.dkr.ecr.''"
  define g where "g = takeWhile region_or_digit r"
  define d where "d = removeprefix (drop (length g) r) image_suffix"
  have m: "startswith (drop (length a) s) ''.dkr.ecr.''" and t: "startswith (drop (length g) r) image_suffix"
    and d: "list_all hex_lower d" "length d = 64"
    using assms unfolding is_image_reference_def Let_def a_def r_def g_def d_def by auto
  have "s = a @ drop (length a) s" unfolding a_def by (metis dropWhile_eq_drop takeWhile_dropWhile_id)
  moreover have "drop (length a) s = ''.dkr.ecr.'' @ r"
    using m unfolding r_def by (metis prefix_def removeprefix_append)
  moreover have "r = g @ drop (length g) r" unfolding g_def by (metis dropWhile_eq_drop takeWhile_dropWhile_id)
  moreover have "drop (length g) r = image_suffix @ d"
    using t unfolding d_def by (metis prefix_def removeprefix_append)
  ultimately have "s = a @ ''.dkr.ecr.'' @ g @ image_suffix @ d" by simp
  then show thesis using that d by (auto simp: a_def g_def dest: set_takeWhileD)
qed

lemma image_reference_calm:
  assumes "is_image_reference s"
  shows "calm s"
proof -
  have "\<not> is_digit (CHR ''_'')" "\<not> region_or_digit (CHR ''_'')" "\<not> hex_lower (CHR ''_'')"
    "CHR ''_'' \<notin> set ''.dkr.ecr.''" "CHR ''_'' \<notin> set image_suffix"
    by code_simp+
  note classes = this
  obtain account area digest where "s = account @ ''.dkr.ecr.'' @ area @ image_suffix @ digest"
    and "\<forall>c \<in> set account. is_digit c" and "\<forall>c \<in> set area. region_or_digit c"
    and "list_all hex_lower digest"
    using is_image_reference_shape [OF assms] by metis
  then have "CHR ''_'' \<notin> set s"
    using classes by (simp only: set_append Un_iff list_all_iff) blast
  then show ?thesis by (rule no_underscore_calm)
qed

text \<open>C29: \<open>render\<close> accepts exactly an immutable reference together with one of the three modes, and on a
  template whose underscores do not interfere with the placeholders, as in the file, its four
  replacements one after the other are the simultaneous substitution: no replacement touches a value
  put in by an earlier one.\<close>

theorem render_substitutes:
  assumes "clean ps"
  shows "render (Inr (template_text ps)) image_reference image_mode = Inr out \<longleftrightarrow>
    is_image_reference image_reference
    \<and> (\<exists>profile runtime_class. map_of hermes_modes image_mode = Some (profile, runtime_class)
        \<and> out = fill (\<lambda>h. case h of Reference \<Rightarrow> image_reference | Profile \<Rightarrow> profile
                     | Mode \<Rightarrow> image_mode | Runtime_Class \<Rightarrow> runtime_class) ps)"
proof -
  have modes: "calm profile \<and> calm image_mode \<and> calm runtime_class"
    if "map_of hermes_modes image_mode = Some (profile, runtime_class)" for profile runtime_class
    using that by (auto simp: hermes_modes_def split: if_splits)
  have filled: "fill_template (template_text ps) image_reference profile image_mode runtime_class
      = fill (\<lambda>h. case h of Reference \<Rightarrow> image_reference | Profile \<Rightarrow> profile
                     | Mode \<Rightarrow> image_mode | Runtime_Class \<Rightarrow> runtime_class) ps"
    if "is_image_reference image_reference" "map_of hermes_modes image_mode = Some (profile, runtime_class)"
    for profile runtime_class
  proof -
    note calm = image_reference_calm [OF that(1)] modes [OF that(2)]
    have texts: "hole_text Reference = ''__HERMES_IMAGE_REFERENCE__''" "hole_text Profile = ''__HERMES_PROFILE__''"
      "hole_text Mode = ''__IMAGE_MODE__''" "hole_text Runtime_Class = ''__RUNTIME_CLASS__''"
      by (simp_all add: hole_text_def)
    show ?thesis
      unfolding fill_template_def texts [symmetric]
      using calm assms by (simp add: replace_put put_clean template_filled)
  qed
  show ?thesis
    using filled by (auto simp: render_def split: option.splits)
qed

theorem render_substitutes_witness:
  "render (Inr (''image: __HERMES_IMAGE_REFERENCE__'' @ [NL] @ ''name: __HERMES_PROFILE__-pool''))
     (''1.dkr.ecr.us-east-1.amazonaws.com/xolis/xolis-runtime-hermes@sha256:'' @ replicate 64 (CHR ''a'')) ''pvm''
   = Inr (''image: '' @ (''1.dkr.ecr.us-east-1.amazonaws.com/xolis/xolis-runtime-hermes@sha256:''
       @ replicate 64 (CHR ''a'')) @ [NL] @ ''name: hermes-agent-pvm-v1-pool'')"
proof -
  let ?ps = "[Literal ''image: '', Hole Reference, Literal ([NL] @ ''name: ''), Hole Profile, Literal ''-pool'']"
  have "clean ?ps" by (simp add: apart_def less_eq_char_def)
  moreover have "is_image_reference (''1.dkr.ecr.us-east-1.amazonaws.com/xolis/xolis-runtime-hermes@sha256:''
      @ replicate 64 (CHR ''a''))"
    by code_simp
  ultimately show ?thesis
    using render_substitutes [of ?ps "''1.dkr.ecr.us-east-1.amazonaws.com/xolis/xolis-runtime-hermes@sha256:''
      @ replicate 64 (CHR ''a'')" "''pvm''"]
    by (simp add: template_text_def hole_text_def fill_def hermes_modes_def)
qed

end
