(* ===== verification/Hermes_Frames.thy ===== *)
theory Hermes_Frames
  imports Py_Effects Py_Json "HOL-Library.Word"
begin

unbundle bit_operations_syntax

text \<open>
  The WebSocket frames of \<open>tools/hermes_demo.py\<close>: how the client writes a frame and how it reads one from a
  socket, which may deliver its bytes in pieces of any size. A byte string is a \<open>string\<close>, one character
  per byte.
\<close>

section \<open>Bytes\<close>

definition byte :: "nat \<Rightarrow> char" where
  "byte n = char_of n"

lemma code_of_byte [simp]: "n < 256 \<Longrightarrow> code_of (byte n) = n"
  by (simp add: code_of_def byte_def)

lemma byte_code_of [simp]: "byte (code_of c) = c"
  by (simp add: byte_def)

text \<open>Big-endian numbers, as \<open>struct.pack("!H")\<close> and \<open>("!Q")\<close> write them.\<close>

fun be_bytes :: "nat \<Rightarrow> nat \<Rightarrow> string" where
  "be_bytes 0 n = []"
| "be_bytes (Suc k) n = be_bytes k (n div 256) @ [byte (n mod 256)]"

definition be_value :: "string \<Rightarrow> nat" where
  "be_value s = foldl (\<lambda>a c. 256 * a + code_of c) 0 s"

lemma be_bytes_length [simp]: "length (be_bytes k n) = k"
  by (induction k n rule: be_bytes.induct) simp_all

lemma be_value_bytes: "n < 256 ^ k \<Longrightarrow> be_value (be_bytes k n) = n"
proof (induction k n rule: be_bytes.induct)
  case (2 k n)
  then have "n div 256 < 256 ^ k" by (simp add: less_mult_imp_div_less mult.commute)
  with 2 show ?case by (simp add: be_value_def)
qed (simp add: be_value_def)

definition mask_with :: "string \<Rightarrow> string \<Rightarrow> string" where
  "mask_with key payload =
     map (\<lambda>(i, v). byte (code_of v XOR code_of (key ! (i mod 4)))) (enumerate 0 payload)"


section \<open>Writing and reading\<close>

text \<open>\<open>key\<close> stands for the four random bytes.\<close>

definition frame_header :: "nat \<Rightarrow> nat \<Rightarrow> string" where
  "frame_header opcode n =
     (let first = 128 OR opcode in
      if n < 126 then [byte first, byte (128 OR n)]
      else if n < 65536 then [byte first, byte (128 OR 126)] @ be_bytes 2 n
      else [byte first, byte (128 OR 127)] @ be_bytes 8 n)"

definition encode_frame :: "string \<Rightarrow> string \<Rightarrow> nat \<Rightarrow> string" where
  "encode_frame key payload opcode = frame_header opcode (length payload) @ key @ mask_with key payload"

text \<open>\<open>recv n\<close> returns at most \<open>n\<close> bytes, and none when the peer has closed the connection. A received
  chunk is never empty otherwise, so the loop ends.\<close>

definition closed_error :: exn where
  "closed_error = DemoError ''interactive session connection closed unexpectedly''"

function read_more :: "(nat \<Rightarrow> ('s, string) proc) \<Rightarrow> nat \<Rightarrow> string \<Rightarrow> ('s, string) proc" where
  "read_more recv n chunks =
     (if length chunks < n
      then seq (recv (n - length chunks)) (\<lambda>chunk.
             if chunk = [] then raising closed_error else read_more recv n (chunks @ chunk))
      else ret chunks)"
  by pat_completeness auto
termination
proof (relation "measure (\<lambda>(recv, n, chunks). n - length chunks)", goal_cases)
  case (2 recv n chunks chunk)
  then show ?case by (cases chunk) auto
qed simp

declare read_more.simps [simp del]

definition read_exact :: "(nat \<Rightarrow> ('s, string) proc) \<Rightarrow> nat \<Rightarrow> ('s, string) proc" where
  "read_exact recv n = read_more recv n []"

definition read_length :: "(nat \<Rightarrow> ('s, string) proc) \<Rightarrow> nat \<Rightarrow> ('s, nat) proc" where
  "read_length recv n =
     (if n = 126 then seq (read_exact recv 2) (\<lambda>b. ret (be_value b))
      else if n = 127 then seq (read_exact recv 8) (\<lambda>b. ret (be_value b))
      else ret n)"

definition read_frame :: "(nat \<Rightarrow> ('s, string) proc) \<Rightarrow> ('s, nat \<times> string) proc" where
  "read_frame recv =
     seq (read_exact recv 2) (\<lambda>h.
       let first = code_of (h ! 0); second = code_of (h ! 1) in
       if first AND 128 = 0 then raising (DemoError ''fragmented WebSocket frames are not supported'')
       else
         seq (read_length recv (second AND 127)) (\<lambda>n.
         seq (if second AND 128 \<noteq> 0 then read_exact recv 4 else ret []) (\<lambda>key.
         seq (read_exact recv n) (\<lambda>payload.
           ret (first AND 15, if key \<noteq> [] then mask_with key payload else payload)))))"


section \<open>Bits\<close>

lemma code_of_xor_less: "code_of a XOR code_of b < 256"
proof -
  have "take_bit 8 (code_of a XOR code_of b) = code_of a XOR code_of b"
    using code_of_less [of a] code_of_less [of b] by (simp add: take_bit_nat_eq_self)
  moreover have "take_bit 8 (code_of a XOR code_of b) < 2 ^ 8" by (rule take_bit_nat_less_exp)
  ultimately show ?thesis by simp
qed

lemma mask_with_length [simp]: "length (mask_with key payload) = length payload"
  by (simp add: mask_with_def)

lemma mask_with_nth:
  "i < length payload \<Longrightarrow>
     mask_with key payload ! i = byte (code_of (payload ! i) XOR code_of (key ! (i mod 4)))"
  by (simp add: mask_with_def nth_enumerate_eq)

text \<open>Masking twice with the same key gives the payload back.\<close>

lemma mask_with_twice: "mask_with key (mask_with key payload) = payload"
  by (rule nth_equalityI) (simp_all add: mask_with_nth code_of_xor_less xor.assoc)

lemma or_128:
  assumes "n < 128"
  shows "128 OR n = 128 + (n :: nat)"
proof -
  have "\<not> bit n 7"
    using assms by (simp add: bit_nat_iff bit_iff_odd)
  then have "n AND 128 = 0" using and_exp_eq_0_iff_not_bit [of n 7] by simp
  then have "128 AND n = 0" by (simp add: and.commute)
  then show ?thesis by (simp add: disjunctive_add_eq_or)
qed

lemma and_127: "(n :: nat) AND 127 = n mod 128"
  using take_bit_eq_mask [of 7 n] by (simp add: take_bit_eq_mod mask_eq_exp_minus_1)

lemma and_15: "(n :: nat) AND 15 = n mod 16"
  using take_bit_eq_mask [of 4 n] by (simp add: take_bit_eq_mod mask_eq_exp_minus_1)

lemma and_128:
  assumes "(n :: nat) < 256"
  shows "n AND 128 = 0 \<longleftrightarrow> n < 128"
proof -
  have "n div 128 = (if n < 128 then 0 else 1)" using assms by (auto intro: div_nat_eqI)
  then show ?thesis using and_exp_eq_0_iff_not_bit [of n 7] by (simp add: bit_iff_odd)
qed


section \<open>A socket\<close>

text \<open>What the reader relies on: while bytes are to come, \<open>recv\<close> delivers some of them, in order and not
  more than were asked for.\<close>

locale byte_stream =
  fixes recv :: "nat \<Rightarrow> ('s, string) proc"
    and coming :: "'s \<Rightarrow> string"
  assumes delivers: "0 < n \<Longrightarrow> coming s \<noteq> [] \<Longrightarrow>
    \<exists>chunk t. recv n s = (Inr chunk, t) \<and> chunk \<noteq> [] \<and> length chunk \<le> n \<and> coming s = chunk @ coming t"
begin

lemma read_more_delivers:
  "coming s = a @ b \<Longrightarrow> n = length chunks + length a \<Longrightarrow>
     \<exists>t. read_more recv n chunks s = (Inr (chunks @ a), t) \<and> coming t = b"
proof (induction "length a" arbitrary: a chunks s rule: less_induct)
  case less
  show ?case
  proof (cases "a = []")
    case True
    then show ?thesis using less.prems by (subst read_more.simps) (simp add: ret_run)
  next
    case False
    then have n: "length chunks < n" "n - length chunks = length a" using less.prems(2) by auto
    obtain chunk t where r: "recv (length a) s = (Inr chunk, t)" and chunk: "chunk \<noteq> []" "length chunk \<le> length a"
      and split: "coming s = chunk @ coming t"
      using delivers [of "length a" s] False less.prems(1) by auto
    obtain c where a: "a = chunk @ c" and t: "coming t = c @ b"
      using split less.prems(1) chunk(2) by (auto simp: append_eq_append_conv2)
    have "\<exists>u. read_more recv n (chunks @ chunk) t = (Inr ((chunks @ chunk) @ c), u) \<and> coming u = b"
      using less.hyps [of c t "chunks @ chunk"] t chunk(1) less.prems(2) by (simp add: a)
    then show ?thesis
      using n r chunk(1) by (subst read_more.simps) (simp add: a)
  qed
qed

lemma read_exact_delivers:
  "coming s = a @ b \<Longrightarrow> n = length a \<Longrightarrow> \<exists>t. read_exact recv n s = (Inr a, t) \<and> coming t = b"
  using read_more_delivers [of s a b n "[]"] by (simp add: read_exact_def)

lemma read_header:
  assumes "coming s = frame_header opcode n @ rest" and "opcode < 16" and "n < 2 ^ 64"
  shows "\<exists>h t u. read_exact recv 2 s = (Inr h, t) \<and> code_of (h ! 0) = 128 + opcode
    \<and> 128 \<le> code_of (h ! 1) \<and> code_of (h ! 1) < 256
    \<and> read_length recv (code_of (h ! 1) AND 127) t = (Inr n, u) \<and> coming u = rest"
proof -
  define small where "small = (if n < 126 then n else if n < 65536 then 126 else 127)"
  define wide where "wide = (if n < 126 then [] else if n < 65536 then be_bytes 2 n else be_bytes 8 n)"
  have header: "frame_header opcode n = [byte (128 + opcode), byte (128 + small)] @ wide"
    using assms(2) by (simp add: frame_header_def Let_def small_def wide_def or_128)
  obtain t where t: "read_exact recv 2 s = (Inr [byte (128 + opcode), byte (128 + small)], t)"
    "coming t = wide @ rest"
    using read_exact_delivers [of s "[byte (128 + opcode), byte (128 + small)]" "wide @ rest" 2] assms(1)
    by (auto simp: header)
  have small: "small < 128" by (simp add: small_def)
  have "\<exists>u. read_length recv small t = (Inr n, u) \<and> coming u = rest"
  proof (cases "n < 126")
    case True
    then show ?thesis using t(2) by (simp add: read_length_def small_def wide_def ret_run)
  next
    case False
    obtain u where u: "read_exact recv (length wide) t = (Inr wide, u)" "coming u = rest"
      using read_exact_delivers [OF t(2)] by blast
    have "n < 65536 \<Longrightarrow> be_value (be_bytes 2 n) = n" "be_value (be_bytes 8 n) = n"
      using assms(3) by (simp_all add: be_value_bytes)
    then show ?thesis
      using u False by (cases "n < 65536") (auto simp: read_length_def small_def wide_def ret_run)
  qed
  then show ?thesis using t(1) small assms(2) by (auto simp: and_127)
qed

lemma read_frame_delivers:
  assumes "coming s = encode_frame key payload opcode @ rest"
    and "length key = 4" and "opcode < 16" and "length payload < 2 ^ 64"
  shows "\<exists>t. read_frame recv s = (Inr (opcode, payload), t) \<and> coming t = rest"
proof -
  have "coming s = frame_header opcode (length payload) @ (key @ mask_with key payload @ rest)"
    using assms(1) by (simp add: encode_frame_def)
  from read_header [OF this assms(3,4)] obtain h t u where h: "read_exact recv 2 s = (Inr h, t)"
    and first: "code_of (h ! 0) = 128 + opcode" and second: "128 \<le> code_of (h ! 1)" "code_of (h ! 1) < 256"
    and len: "read_length recv (code_of (h ! 1) AND 127) t = (Inr (length payload), u)"
    and u: "coming u = key @ mask_with key payload @ rest" by blast
  obtain v where v: "read_exact recv 4 u = (Inr key, v)" "coming v = mask_with key payload @ rest"
    using read_exact_delivers [OF u] assms(2) by metis
  obtain x where x: "read_exact recv (length payload) v = (Inr (mask_with key payload), x)" "coming x = rest"
    using read_exact_delivers [OF v(2)] by (metis mask_with_length)
  have "key \<noteq> []" using assms(2) by auto
  moreover have "(128 + opcode) AND 128 \<noteq> 0" "code_of (h ! 1) AND 128 \<noteq> 0"
    using assms(3) second by (simp_all add: and_128)
  moreover have "(128 + opcode) AND 15 = opcode"
    using assms(3) mod_add_self1 [of 16 "112 + opcode"] mod_mult_self3 [of 8 16 opcode] by (simp add: and_15)
  ultimately show ?thesis
    using h len v(1) x first by (simp add: read_frame_def Let_def ret_run mask_with_twice)
qed

end


text \<open>A socket as the segments that have yet to be received; a segment longer than what is asked for is
  taken in parts, and an empty one is passed over.\<close>

fun recv_segment :: "nat \<Rightarrow> (string list, string) proc" where
  "recv_segment n [] = (Inr [], [])"
| "recv_segment n (s # ss) =
     (if s = [] then recv_segment n ss
      else if length s \<le> n then (Inr s, ss) else (Inr (take n s), drop n s # ss))"

lemma recv_segment_delivers:
  "0 < n \<Longrightarrow> concat ss \<noteq> [] \<Longrightarrow> \<exists>chunk t. recv_segment n ss = (Inr chunk, t) \<and> chunk \<noteq> []
     \<and> length chunk \<le> n \<and> concat ss = chunk @ concat t"
  by (induction n ss rule: recv_segment.induct) (auto simp flip: append_assoc)

interpretation segments: byte_stream recv_segment concat
  by unfold_locales (rule recv_segment_delivers)

text \<open>C15: whatever the key, the payload and the way the network cuts up the bytes, the reader gives back
  the opcode and the payload the writer was given, and stops at the end of the frame.\<close>

theorem frame_round_trip:
  assumes "concat segments = encode_frame key payload opcode @ rest"
    and "length key = 4" and "opcode < 16" and "length payload < 2 ^ 64"
  shows "\<exists>left. read_frame recv_segment segments = (Inr (opcode, payload), left) \<and> concat left = rest"
  using segments.read_frame_delivers [OF assms] .

theorem frame_round_trip_witness:
  "\<exists>left. read_frame recv_segment [take 3 (encode_frame ''abcd'' ''hello'' 1), [],
      drop 3 (encode_frame ''abcd'' ''hello'' 1) @ ''xy''] = (Inr (1, ''hello''), left) \<and> concat left = ''xy''"
  by (rule frame_round_trip [of _ "''abcd''"]) (simp_all flip: append_assoc)

end
