(* ===== verification/Py_Base64.thy ===== *)
theory Py_Base64
  imports Py_Json
begin

text \<open>
  Python's \<open>base64.b64encode\<close> and \<open>b64decode\<close>, with and without \<open>validate\<close>, on byte strings (one
  character per byte). The decoder follows \<open>binascii.a2b_base64\<close>: the position in the group of four, the
  bits left over and the padding seen.
\<close>

definition b64_char :: "nat \<Rightarrow> char" where
  "b64_char n =
     char_of (if n < 26 then 65 + n else if n < 52 then 71 + n else if n < 62 then n - 4
              else if n = 62 then 43 else 47)"

definition b64_value :: "char \<Rightarrow> nat option" where
  "b64_value c =
     (let n = code_of c in
      if 65 \<le> n \<and> n \<le> 90 then Some (n - 65)
      else if 97 \<le> n \<and> n \<le> 122 then Some (n - 71)
      else if 48 \<le> n \<and> n \<le> 57 then Some (n + 4)
      else if n = 43 then Some 62
      else if n = 47 then Some 63
      else None)"

abbreviation PAD :: char where "PAD \<equiv> CHR ''=''"

fun b64_bits :: "nat list \<Rightarrow> string" where
  "b64_bits [] = []"
| "b64_bits [a] = [b64_char (a div 4), b64_char (a mod 4 * 16), PAD, PAD]"
| "b64_bits [a, b] = [b64_char (a div 4), b64_char (a mod 4 * 16 + b div 16), b64_char (b mod 16 * 4), PAD]"
| "b64_bits (a # b # c # s) =
     [b64_char (a div 4), b64_char (a mod 4 * 16 + b div 16), b64_char (b mod 16 * 4 + c div 64),
      b64_char (c mod 64)] @ b64_bits s"

definition b64encode :: "string \<Rightarrow> string" where
  "b64encode s = b64_bits (map code_of s)"

definition binascii_error :: exn where
  "binascii_error = ValueError ''invalid base64''"

text \<open>\<open>quad\<close> is the position in the group, \<open>left\<close> the bits not yet written, \<open>pads\<close> the padding characters
  in a row, \<open>started\<close> whether there was padding.\<close>

fun b64_scan :: "bool \<Rightarrow> nat \<Rightarrow> nat \<Rightarrow> nat \<Rightarrow> bool \<Rightarrow> string \<Rightarrow> nat list result" where
  "b64_scan strict quad left pads started [] = (if quad = 0 then Inr [] else Inl binascii_error)"
| "b64_scan strict quad left pads started (c # s) =
     (if c = PAD
      then if 2 \<le> quad \<and> 4 \<le> quad + Suc pads
           then if strict \<and> s \<noteq> [] then Inl binascii_error else Inr []
           else if strict \<and> quad = 0 then Inl binascii_error
           else b64_scan strict quad left (if 2 \<le> quad then Suc pads else pads) True s
      else (case b64_value c of
              None \<Rightarrow> if strict then Inl binascii_error else b64_scan strict quad left pads started s
            | Some v \<Rightarrow>
                if strict \<and> started then Inl binascii_error
                else if quad = 0 then b64_scan strict 1 v 0 started s
                else if quad = 1
                then bindE (b64_scan strict 2 (v mod 16) 0 started s) (\<lambda>r. Inr ((left * 4 + v div 16) # r))
                else if quad = 2
                then bindE (b64_scan strict 3 (v mod 4) 0 started s) (\<lambda>r. Inr ((left * 16 + v div 4) # r))
                else bindE (b64_scan strict 0 0 0 started s) (\<lambda>r. Inr ((left * 64 + v) # r))))"

definition b64decode :: "bool \<Rightarrow> string \<Rightarrow> string result" where
  "b64decode strict s =
     (if \<not> list_all ascii_char s then Inl (ValueError ''string argument should contain only ASCII characters'')
      else bindE (b64_scan strict 0 0 0 False s) (\<lambda>bs. Inr (map char_of bs)))"


section \<open>Round trip\<close>

lemma b64_char_facts:
  assumes "n < 64"
  shows "b64_value (b64_char n) = Some n" "b64_char n \<noteq> PAD" "ascii_char (b64_char n)"
proof -
  have c: "code_of (b64_char n) = (if n < 26 then 65 + n else if n < 52 then 71 + n else if n < 62 then n - 4
      else if n = 62 then 43 else 47)"
    using assms by (simp add: b64_char_def code_of_def)
  show "b64_value (b64_char n) = Some n" using assms by (auto simp: b64_value_def c Let_def)
  have "code_of PAD = 61" by (simp add: code_of_def)
  moreover have "code_of (b64_char n) \<noteq> 61" using assms by (auto simp: c)
  ultimately show "b64_char n \<noteq> PAD" by metis
  show "ascii_char (b64_char n)" using assms c by (auto simp: ascii_char_def code_of_def)
qed

lemma b64_scan_bits: "\<forall>b \<in> set bs. b < 256 \<Longrightarrow> b64_scan strict 0 0 0 False (b64_bits bs) = Inr bs"
proof (induction bs rule: b64_bits.induct)
  case (2 a)
  then have "a div 4 < 64" "a mod 4 * 16 < 64" by auto
  then show ?case by (simp add: b64_char_facts)
next
  case (3 a b)
  then have "a div 4 < 64" "a mod 4 * 16 + b div 16 < 64" "b mod 16 * 4 < 64" "b div 16 < 16" by auto
  then show ?case by (simp add: b64_char_facts)
next
  case (4 a b c s)
  then have "a div 4 < 64" "a mod 4 * 16 + b div 16 < 64" "b mod 16 * 4 + c div 64 < 64" "c mod 64 < 64"
    "b div 16 < 16" "c div 64 < 4" by auto
  with 4 show ?case by (simp add: b64_char_facts)
qed simp

lemma b64_bits_ascii: "\<forall>b \<in> set bs. b < 256 \<Longrightarrow> list_all ascii_char (b64_bits bs)"
proof (induction bs rule: b64_bits.induct)
  case (2 a)
  then have "a div 4 < 64" "a mod 4 * 16 < 64" by auto
  moreover have "ascii_char PAD" by (simp add: ascii_char_def)
  ultimately show ?case by (simp add: b64_char_facts)
next
  case (3 a b)
  then have "a div 4 < 64" "a mod 4 * 16 + b div 16 < 64" "b mod 16 * 4 < 64" by auto
  moreover have "ascii_char PAD" by (simp add: ascii_char_def)
  ultimately show ?case by (simp add: b64_char_facts)
next
  case (4 a b c s)
  then have "a div 4 < 64" "a mod 4 * 16 + b div 16 < 64" "b mod 16 * 4 + c div 64 < 64" "c mod 64 < 64" by auto
  with 4 show ?case by (simp add: b64_char_facts)
qed simp

lemma b64_round_trip: "b64decode strict (b64encode s) = Inr s"
proof -
  have "\<forall>b \<in> set (map code_of s). b < 256" by (auto simp: code_of_less)
  from b64_scan_bits [OF this] b64_bits_ascii [OF this] show ?thesis
    by (simp add: b64decode_def b64encode_def comp_def)
qed

end
