(* ===== verification/Hermes_Demo.thy ===== *)
theory Hermes_Demo
  imports World Hermes_Frames Hermes_Profile Py_Base64 Py_Shlex
begin

text \<open>
  \<open>tools/hermes_demo.py\<close>: preparing the cluster for a Hermes sandbox, the port forward, the API client, the
  interactive session over a WebSocket and \<open>main\<close> with its clean-up. What is printed is not modelled.
\<close>

section \<open>Surroundings\<close>

abbreviation system_namespace :: string where "system_namespace \<equiv> ''xolis-system''"
abbreviation sandbox_namespace :: string where "sandbox_namespace \<equiv> ''xolis-sandboxes''"
abbreviation tenant_header :: string where "tenant_header \<equiv> ''x-xolis-tenant''"

definition default_images :: "(string \<times> string) list" where
  "default_images =
     (let repository = ''479874045111.dkr.ecr.ap-northeast-1.amazonaws.com/xolis/xolis-runtime-hermes@sha256:'' in
      [(''oci'', repository @ ''768be3793bc15cd06500890be65beccc76371e12ea03ba5e4e805b3f507accb9''),
       (''nydus'', repository @ ''3171982074bed7c91830958318d5ed41066b7f7b44aeeb1d584a6ae01d676353''),
       (''pvm'', repository @ ''768be3793bc15cd06500890be65beccc76371e12ea03ba5e4e805b3f507accb9'')])"

definition modes :: "(string \<times> string \<times> string \<times> string) list" where
  "modes =
     [(''oci'', ''hermes-agent-v1'', ''hermes-agent-v1-pool'', ''xolis-kata''),
      (''nydus'', ''hermes-agent-nydus-v1'', ''hermes-agent-nydus-v1-pool'', ''xolis-kata-nydus''),
      (''pvm'', ''hermes-agent-pvm-v1'', ''hermes-agent-pvm-v1-pool'', ''xolis-kata-pvm'')]"

definition api_env_names :: "string list" where
  "api_env_names = [''XOLIS_PROFILE'', ''XOLIS_WARM_POOL'', ''XOLIS_MAXIMUM_COMMAND_TIMEOUT_SECONDS'']"

text \<open>What a run finds: the outside, the template, random choices (the identifier of the request, the
  local port, the key of the WebSocket handshake and the masks of the frames), whether the input is a
  terminal, and the two functions of the library that are not spelled out (the accept value of a
  handshake key, and \<open>repr\<close>).\<close>

record demo_env =
  outside :: environment
  on_path :: "string \<Rightarrow> bool"
  template :: "string result"
  repository_root :: string
  request_key :: string
  local_port :: nat
  handshake_key :: string
  accept_of :: "string \<Rightarrow> string"
  mask_of :: "call list \<Rightarrow> string"
  is_tty :: bool
  repr :: "json \<Rightarrow> string"

record demo_args =
  image_mode :: string
  image_reference :: string  \<comment> \<open>empty when not given\<close>
  tenant :: string
  session_ttl :: int
  sandbox_ready_timeout :: int
  warm_pool_timeout :: int
  hermes_model :: "string option"
  hermes_provider :: "string option"
  egress_manifest :: "string option"
  keep_prepared :: bool
  use_prepared :: bool

text \<open>The variables of \<open>main\<close> that its clean-up reads, the child process of the port forward and the
  flag of the signal handler.\<close>

record demo = world +
  original_api :: "(string \<times> json) list option"
  sandbox_id :: "string option"
  client :: bool
  forwarding :: bool
  child :: bool
  resize_requested :: bool


section \<open>kubectl\<close>

definition run_kubectl :: "demo_env \<Rightarrow> string list \<Rightarrow> string \<Rightarrow> ('z world_scheme, string) proc" where
  "run_kubectl env arguments input_text =
     seq (run_process (outside env) (''kubectl'' # arguments) input_text) (\<lambda>(rc, out, err).
       if rc \<noteq> 0
       then raising (DemoError (''kubectl '' @ join_with '' '' arguments @ '' failed: '' @ failure_detail out err))
       else ret out)"

definition kubectl_json :: "demo_env \<Rightarrow> string list \<Rightarrow> ('z world_scheme, json) proc" where
  "kubectl_json env arguments =
     seq (run_kubectl env (arguments @ [''-o'', ''json'']) []) (\<lambda>out.
     seq (liftE (json_loads out)) (\<lambda>v.
       case v of JObj _ \<Rightarrow> ret v
       | _ \<Rightarrow> raising (DemoError (''kubectl '' @ join_with '' '' arguments @ '' did not return a JSON object''))))"

definition kubectl :: "demo_env \<Rightarrow> string list \<Rightarrow> ('z world_scheme, unit) proc" where
  "kubectl env arguments = seq (run_kubectl env arguments []) (\<lambda>_. ret ())"

text \<open>\<open>any(...)\<close> and a filter over decoded values.\<close>

fun any_element :: "('a \<Rightarrow> bool result) \<Rightarrow> 'a list \<Rightarrow> bool result" where
  "any_element f [] = Inr False"
| "any_element f (x # xs) = bindE (f x) (\<lambda>b. if b then Inr True else any_element f xs)"

definition ready_condition :: "json \<Rightarrow> bool result" where
  "ready_condition condition =
     bindE (get_or condition ''type'' JNull) (\<lambda>t.
       if \<not> is_str t ''Ready'' then Inr False
       else bindE (get_or condition ''status'' JNull) (\<lambda>s. Inr (is_str s ''True'')))"

definition ready_node :: "json \<Rightarrow> bool result" where
  "ready_node node =
     bindE (get_or node ''status'' (JObj [])) (\<lambda>status.
     bindE (get_or status ''conditions'' (JList [])) (\<lambda>conditions.
     bindE (elements conditions) (any_element ready_condition)))"

text \<open>Every node is looked at, also after a ready one.\<close>

definition ready_nodes :: "json \<Rightarrow> json list result" where
  "ready_nodes answer =
     bindE (bindE (get_or answer ''items'' (JList [])) elements) (\<lambda>nodes.
     bindE (mapE (\<lambda>n. bindE (ready_node n) (\<lambda>b. Inr (n, b))) nodes) (\<lambda>l.
       Inr (map fst (filter snd l))))"

definition ensure_prerequisites :: "demo_env \<Rightarrow> string \<Rightarrow> ('z world_scheme, unit) proc" where
  "ensure_prerequisites env runtime_class =
     (if \<not> on_path env ''kubectl'' then raising (DemoError ''kubectl is not installed or is not on PATH'')
      else
        seq (kubectl env [''version'', ''--request-timeout=10s'']) (\<lambda>_.
        seq (kubectl env [''-n'', system_namespace, ''get'', ''deployment/xolis-api'']) (\<lambda>_.
        seq (kubectl env [''get'', ''runtimeclass/'' @ runtime_class]) (\<lambda>_.
        seq (kubectl env [''-n'', sandbox_namespace, ''get'', ''secret/hermes-agent-credentials'']) (\<lambda>_.
        seq (kubectl_json env [''get'', ''nodes'', ''-l'', ''xolis.io/kata-ready=true'']) (\<lambda>answer.
        seq (liftE (ready_nodes answer)) (\<lambda>ready.
          whenP (ready = [])
            (raising (DemoError ''no Ready node has the label xolis.io/kata-ready=true'')))))))))"

definition apply_manifest :: "demo_env \<Rightarrow> string \<Rightarrow> ('z world_scheme, unit) proc" where
  "apply_manifest env contents = seq (run_kubectl env [''apply'', ''-f'', ''-''] contents) (\<lambda>_. ret ())"

definition prepare_runtime_class :: "demo_env \<Rightarrow> string \<Rightarrow> ('z world_scheme, unit) proc" where
  "prepare_runtime_class env mode =
     whenP (mode = ''nydus'')
       (kubectl env [''apply'', ''-f'', repository_root env @ ''/deploy/bootstrap/xolis-runtime-nydus.yaml''])"

definition prepare_profile :: "demo_env \<Rightarrow> string \<Rightarrow> string \<Rightarrow> ('z world_scheme, unit) proc" where
  "prepare_profile env mode reference =
     seq (liftE (render (template env) reference mode)) (apply_manifest env)"


section \<open>The API's configuration\<close>

text \<open>\<open>next(container for container in containers if container["name"] == "api")\<close>\<close>

fun api_container :: "json list \<Rightarrow> json result" where
  "api_container [] = Inl StopIteration"
| "api_container (c # cs) =
     bindE (item_at c ''name'') (\<lambda>name. if is_str name ''api'' then Inr c else api_container cs)"

definition env_entry :: "json \<Rightarrow> (string \<times> json) list result" where
  "env_entry item =
     bindE (contains item ''value'') (\<lambda>present.
       if \<not> present then Inr []
       else bindE (bindE (item_at item ''name'') as_str) (\<lambda>name.
            bindE (get_or item ''value'' (JStr [])) (\<lambda>v. Inr [(name, v)])))"

definition environment_values :: "json \<Rightarrow> (string \<times> json) list result" where
  "environment_values deployment =
     bindE (item_at deployment ''spec'') (\<lambda>s.
     bindE (item_at s ''template'') (\<lambda>t.
     bindE (item_at t ''spec'') (\<lambda>p.
     bindE (bindE (item_at p ''containers'') elements) (\<lambda>containers.
     bindE (api_container containers) (\<lambda>api.
     bindE (bindE (get_or api ''env'' (JList [])) elements) (\<lambda>items.
     bindE (mapE env_entry items) (\<lambda>entries. Inr (dict_of (concat entries)))))))))"

definition deployment_environment :: "demo_env \<Rightarrow> ('z world_scheme, (string \<times> json) list) proc" where
  "deployment_environment env =
     seq (kubectl_json env [''-n'', system_namespace, ''get'', ''deployment/xolis-api'']) (\<lambda>d.
       liftE (environment_values d))"

definition lookup_env :: "(string \<times> json) list \<Rightarrow> string \<Rightarrow> json" where
  "lookup_env current name = (case map_of current name of None \<Rightarrow> JNull | Some v \<Rightarrow> v)"

definition set_env_arguments :: "string list \<Rightarrow> string list" where
  "set_env_arguments assignments =
     [''-n'', system_namespace, ''set'', ''env'', ''deployment/xolis-api''] @ assignments"

definition rollout_arguments :: "string list" where
  "rollout_arguments =
     [''-n'', system_namespace, ''rollout'', ''status'', ''deployment/xolis-api'', ''--timeout=180s'']"

definition configure_api ::
  "demo_env \<Rightarrow> string \<Rightarrow> string \<Rightarrow> ('z world_scheme, (string \<times> json) list) proc" where
  "configure_api env profile warm_pool =
     seq (deployment_environment env) (\<lambda>current.
       let original = map (\<lambda>name. (name, lookup_env current name)) api_env_names in
       seq (kubectl env (set_env_arguments
              [''XOLIS_PROFILE='' @ profile, ''XOLIS_WARM_POOL='' @ warm_pool,
               ''XOLIS_MAXIMUM_COMMAND_TIMEOUT_SECONDS=900''])) (\<lambda>_.
       seq (kubectl env rollout_arguments) (\<lambda>_.
         ret original)))"

definition restore_api :: "demo_env \<Rightarrow> (string \<times> json) list \<Rightarrow> ('z world_scheme, unit) proc" where
  "restore_api env original =
     seq (kubectl env (set_env_arguments
            (map (\<lambda>(name, v). if v \<noteq> JNull then name @ ''='' @ json_str (repr env) v else name @ ''-'') original)))
       (\<lambda>_. kubectl env rollout_arguments)"


section \<open>The warm pool\<close>

definition patch_arguments :: "string \<Rightarrow> int \<Rightarrow> string list" where
  "patch_arguments name replicas =
     [''-n'', sandbox_namespace, ''patch'', ''sandboxwarmpool'', name, ''--type=merge'', ''--patch'',
      json_compact (JObj [(''spec'', JObj [(''replicas'', JInt replicas)])])]"

definition set_warm_pool :: "demo_env \<Rightarrow> string \<Rightarrow> int \<Rightarrow> ('z world_scheme, unit) proc" where
  "set_warm_pool env name replicas = kubectl env (patch_arguments name replicas)"

definition pool_state :: "json \<Rightarrow> (int \<times> int) result" where
  "pool_state pool =
     bindE (bindE (get_or pool ''spec'' (JObj [])) (\<lambda>s. bindE (get_or s ''replicas'' (JInt 0)) json_int)) (\<lambda>desired.
     bindE (bindE (get_or pool ''status'' (JObj [])) (\<lambda>s. bindE (get_or s ''readyReplicas'' (JInt 0)) json_int)) (\<lambda>ready.
       Inr (desired, ready)))"

definition warm_pool_round ::
  "demo_env \<Rightarrow> string \<Rightarrow> int \<Rightarrow> nat \<Rightarrow> ('z world_scheme, unit option) proc" where
  "warm_pool_round env name replicas deadline =
     seq (gets clock) (\<lambda>t.
       if deadline \<le> t
       then raising (DemoError (''timed out waiting for warm pool '' @ name @ '' to have '' @ str_of_int replicas
              @ '' Ready replica(s)''))
       else
         seq (kubectl_json env [''-n'', sandbox_namespace, ''get'', ''sandboxwarmpool/'' @ name]) (\<lambda>pool.
         seq (liftE (pool_state pool)) (\<lambda>state.
           if state = (replicas, replicas) then ret (Some ())
           else seq (sleep (outside env) 2000) (\<lambda>_. ret None))))"

definition deadline_from :: "nat \<Rightarrow> int \<Rightarrow> nat" where
  "deadline_from t seconds = nat (int t + 1000 * seconds)"

definition wait_for_warm_pool :: "demo_env \<Rightarrow> string \<Rightarrow> int \<Rightarrow> int \<Rightarrow> ('z world_scheme, unit) proc" where
  "wait_for_warm_pool env name replicas timeout_seconds =
     seq (gets clock) (\<lambda>t.
       let deadline = deadline_from t timeout_seconds in
       until_deadline deadline (warm_pool_round env name replicas deadline))"

definition mismatch :: "demo_env \<Rightarrow> (string \<times> json) list \<Rightarrow> string \<times> string \<Rightarrow> string list" where
  "mismatch env current = (\<lambda>(name, expected).
     if lookup_env current name = JStr expected then []
     else [name @ ''='' @ (case map_of current name of None \<Rightarrow> ''<unset>'' | Some v \<Rightarrow> json_str (repr env) v)
           @ '' (expected '' @ expected @ '')''])"

definition verify_prepared_environment ::
  "demo_env \<Rightarrow> string \<Rightarrow> string \<Rightarrow> int \<Rightarrow> ('z world_scheme, unit) proc" where
  "verify_prepared_environment env profile warm_pool timeout_seconds =
     seq (deployment_environment env) (\<lambda>current.
       let mismatches = concat (map (mismatch env current)
             [(''XOLIS_PROFILE'', profile), (''XOLIS_WARM_POOL'', warm_pool)]) in
       seq (whenP (mismatches \<noteq> [])
              (raising (DemoError (''xolis-api is not configured for the prepared Hermes service: ''
                 @ join_with ''; '' mismatches)))) (\<lambda>_.
         wait_for_warm_pool env warm_pool 1 timeout_seconds))"


section \<open>The port forward\<close>

definition is_os_error :: "exn \<Rightarrow> bool" where
  "is_os_error x \<longleftrightarrow>
     (case x of OSError _ \<Rightarrow> True | FileNotFoundError _ \<Rightarrow> True | FileExistsError _ \<Rightarrow> True
      | NotADirectoryError _ \<Rightarrow> True | IsADirectoryError _ \<Rightarrow> True | TimeoutError _ \<Rightarrow> True | _ \<Rightarrow> False)"

definition base_url :: "demo_env \<Rightarrow> string" where
  "base_url env = ''http://127.0.0.1:'' @ str_of_nat (local_port env)"

text \<open>One try of \<open>/healthz\<close>: the status, unless \<open>urlopen\<close> raised, which it also does for a status
  that is not a success.\<close>

definition health_status :: "demo_env \<Rightarrow> (demo, nat option) proc" where
  "health_status env =
     try_except
       (seq (ask (outside env) (Http ''GET'' (base_url env @ ''/healthz'') [] None)) (\<lambda>a.
          case a of Responded st body \<Rightarrow> if 200 \<le> st \<and> st < 300 then ret (Some st) else raising (OSError ''HTTP error'')
          | _ \<Rightarrow> raising type_error))
       (\<lambda>x. if is_os_error x then seq (sleep (outside env) 200) (\<lambda>_. ret None) else raising x)"

definition forward_round :: "demo_env \<Rightarrow> nat \<Rightarrow> (demo, unit option) proc" where
  "forward_round env deadline =
     seq (gets clock) (\<lambda>t.
       if deadline \<le> t then raising (DemoError ''timed out waiting for the xolis-api port-forward'')
       else
         seq (ask (outside env) (Process Poll)) (\<lambda>a.
           if a \<noteq> Running then raising (DemoError ''xolis-api port-forward exited before becoming ready'')
           else seq (health_status env) (\<lambda>st. ret (if st = Some 200 then Some () else None))))"

definition start_forward :: "demo_env \<Rightarrow> (demo, unit) proc" where
  "start_forward env =
     seq (ask (outside env) (Spawn [''kubectl'', ''-n'', system_namespace, ''port-forward'', ''service/xolis-api'',
            str_of_nat (local_port env) @ '':8080''])) (\<lambda>_.
     seq (modify (\<lambda>w. w\<lparr>child := True\<rparr>)) (\<lambda>_.
     seq (gets clock) (\<lambda>t.
       let deadline = t + 20000 in until_deadline deadline (forward_round env deadline))))"

definition stop_forward :: "demo_env \<Rightarrow> (demo, unit) proc" where
  "stop_forward env =
     seq (gets child) (\<lambda>started.
       if \<not> started then ret ()
       else
         seq (ask (outside env) (Process Terminate)) (\<lambda>_.
         seq (ask (outside env) (Process (Await 5000))) (\<lambda>a.
           if a \<noteq> Running then ret ()
           else
             seq (ask (outside env) (Process Kill)) (\<lambda>_.
             seq (ask (outside env) (Process (Await 5000))) (\<lambda>b.
               if b \<noteq> Running then ret () else raising TimeoutExpired)))))"


section \<open>The API client\<close>

definition api_request ::
  "demo_env \<Rightarrow> string \<Rightarrow> string \<Rightarrow> string \<Rightarrow> json option \<Rightarrow> nat list \<Rightarrow> (string \<times> string) list \<Rightarrow> (demo, string) proc"
where
  "api_request env who meth path payload expected headers =
     seq (ask (outside env) (Http meth (base_url env @ path)
            ((tenant_header, who) # headers @ (if payload = None then [] else [(''content-type'', ''application/json'')]))
            (map_option json_dumps payload))) (\<lambda>a.
       case a of
         Responded st body \<Rightarrow>
           if st \<in> set expected then ret body
           else raising (DemoError (''Xolis API returned HTTP '' @ str_of_nat st @ '': '' @ decode_replace (encode body)))
       | _ \<Rightarrow> raising type_error)"

definition create_sandbox :: "demo_env \<Rightarrow> string \<Rightarrow> string \<Rightarrow> int \<Rightarrow> (demo, string) proc" where
  "create_sandbox env who profile ttl_seconds =
     seq (api_request env who ''POST'' ''/v1/sandboxes''
            (Some (JObj [(''profile'', JStr profile), (''ttlSeconds'', JInt ttl_seconds),
                         (''metadata'', JObj [(''purpose'', JStr ''hermes-interactive-demo'')])]))
            [202] [(''idempotency-key'', request_key env)]) (\<lambda>body.
       liftE (bindE (json_loads body) (\<lambda>v. bindE (item_at v ''id'') (\<lambda>i. Inr (json_str (repr env) i)))))"

definition running_round :: "demo_env \<Rightarrow> string \<Rightarrow> string \<Rightarrow> nat \<Rightarrow> (demo, unit option) proc" where
  "running_round env who sandbox deadline =
     seq (gets clock) (\<lambda>t.
       if deadline \<le> t
       then raising (DemoError (''timed out waiting for sandbox '' @ sandbox @ '' to become Running''))
       else
         seq (api_request env who ''GET'' (''/v1/sandboxes/'' @ sandbox) None [200] []) (\<lambda>body.
         seq (liftE (json_loads body)) (\<lambda>v.
         seq (liftE (get_or v ''state'' JNull)) (\<lambda>state.
           if is_str state ''Running'' then ret (Some ())
           else if is_str state ''Failed''
           then seq (liftE (get_or v ''reason'' (JStr ''no reason reported''))) (\<lambda>reason.
                  raising (DemoError (''sandbox failed: '' @ json_str (repr env) reason)))
           else seq (sleep (outside env) 1000) (\<lambda>_. ret None)))))"

definition wait_running :: "demo_env \<Rightarrow> string \<Rightarrow> string \<Rightarrow> int \<Rightarrow> (demo, unit) proc" where
  "wait_running env who sandbox timeout_seconds =
     seq (gets clock) (\<lambda>t.
       let deadline = deadline_from t timeout_seconds in
       until_deadline deadline (running_round env who sandbox deadline))"

definition delete_sandbox :: "demo_env \<Rightarrow> string \<Rightarrow> string \<Rightarrow> (demo, unit) proc" where
  "delete_sandbox env who sandbox =
     seq (api_request env who ''DELETE'' (''/v1/sandboxes/'' @ sandbox) None [204, 404] []) (\<lambda>_. ret ())"

end
