(* ===== verification/Hermes_Session.thy ===== *)
theory Hermes_Session
  imports Hermes_Demo
begin

text \<open>
  \<open>tools/hermes_demo.py\<close>, second part: the WebSocket handshake, the interactive session and \<open>main\<close> with
  its clean-up. The session may last as long as its user wants, so its loop has fuel, the number of
  rounds, as a parameter.
\<close>

section \<open>The handshake\<close>

definition recv :: "demo_env \<Rightarrow> nat \<Rightarrow> (demo, string) proc" where
  "recv env n =
     seq (ask (outside env) (Socket (Recv n))) (\<lambda>a. case a of Data s \<Rightarrow> ret s | _ \<Rightarrow> raising type_error)"

definition send :: "demo_env \<Rightarrow> string \<Rightarrow> (demo, unit) proc" where
  "send env bytes = seq (ask (outside env) (Socket (Send bytes))) (\<lambda>_. ret ())"

definition CRLF :: string where "CRLF = [CHR 0x0D, NL]"

definition upgrade_request :: "demo_env \<Rightarrow> string \<Rightarrow> string \<Rightarrow> string" where
  "upgrade_request env who sandbox =
     ''GET /v1/sandboxes/'' @ sandbox @ ''/sessions HTTP/1.1'' @ CRLF
     @ ''Host: 127.0.0.1:'' @ str_of_nat (local_port env) @ CRLF
     @ ''Upgrade: websocket'' @ CRLF
     @ ''Connection: Upgrade'' @ CRLF
     @ ''Sec-WebSocket-Key: '' @ handshake_key env @ CRLF
     @ ''Sec-WebSocket-Version: 13'' @ CRLF
     @ tenant_header @ '': '' @ who @ CRLF @ CRLF"

definition lower :: "string \<Rightarrow> string" where
  "lower s = map (\<lambda>c. if 65 \<le> code_of c \<and> code_of c \<le> 90 then byte (code_of c + 32) else c) s"

text \<open>The response is read byte by byte up to the empty line, and at most 16385 bytes of it: that is the
  fuel.\<close>

fun read_response :: "demo_env \<Rightarrow> nat \<Rightarrow> string \<Rightarrow> (demo, string) proc" where
  "read_response env fuel response =
     (if sublist (CRLF @ CRLF) response then ret response
      else (case fuel of
              0 \<Rightarrow> raising OutOfFuel
            | Suc n \<Rightarrow>
                seq (read_exact (recv env) 1) (\<lambda>b.
                  let longer = response @ b in
                  if 16384 < length longer then raising (DemoError ''WebSocket upgrade response was too large'')
                  else read_response env n longer)))"

declare read_response.simps [simp del]

definition accepted :: "demo_env \<Rightarrow> string \<Rightarrow> bool" where
  "accepted env header \<longleftrightarrow>
     startswith header ''HTTP/1.1 101 ''
     \<and> sublist (lower (''Sec-WebSocket-Accept: '' @ accept_of env (handshake_key env))) (lower header)"

definition websocket_connect :: "demo_env \<Rightarrow> string \<Rightarrow> string \<Rightarrow> (demo, unit) proc" where
  "websocket_connect env who sandbox =
     seq (ask (outside env) (Socket (Connect (local_port env)))) (\<lambda>_.
     seq (send env (upgrade_request env who sandbox)) (\<lambda>_.
     seq (read_response env 16385 []) (\<lambda>header.
       if accepted env header then ret ()
       else
         seq (ask (outside env) (Socket Hang_Up)) (\<lambda>_.
           raising (DemoError (''WebSocket upgrade failed: '' @ takeWhile (\<lambda>c. c \<notin> set CRLF) header))))))"


section \<open>The session\<close>

definition send_json :: "demo_env \<Rightarrow> json \<Rightarrow> (demo, unit) proc" where
  "send_json env v =
     seq (gets trace) (\<lambda>t. send env (encode_frame (mask_of env t) (json_compact v) 1))"

definition terminal_size :: "demo_env \<Rightarrow> (demo, nat \<times> nat) proc" where
  "terminal_size env =
     seq (ask (outside env) (Device Get_Size)) (\<lambda>a. case a of Size r c \<Rightarrow> ret (r, c) | _ \<Rightarrow> raising type_error)"

definition hermes_command :: "demo_args \<Rightarrow> string list" where
  "hermes_command args =
     [''hermes''] @
     (case (hermes_model args, hermes_provider args) of
        (Some model, Some provider) \<Rightarrow> [''--model'', model, ''--provider'', provider]
      | _ \<Rightarrow> [])"

definition start_message :: "demo_args \<Rightarrow> nat \<times> nat \<Rightarrow> json" where
  "start_message args area =
     JObj [(''type'', JStr ''start''), (''command'', JStr (shlex_join (hermes_command args))),
           (''ttl_seconds'', JInt (session_ttl args)), (''rows'', JInt (int (fst area))),
           (''columns'', JInt (int (snd area)))]"

definition resize_message :: "nat \<times> nat \<Rightarrow> json" where
  "resize_message area =
     JObj [(''type'', JStr ''resize''), (''rows'', JInt (int (fst area))), (''columns'', JInt (int (snd area)))]"

definition input_message :: "string \<Rightarrow> json" where
  "input_message bytes = JObj [(''type'', JStr ''input''), (''data'', JStr (b64encode bytes))]"

definition plain_message :: "string \<Rightarrow> json" where
  "plain_message kind = JObj [(''type'', JStr kind)]"

definition send_resize :: "demo_env \<Rightarrow> (demo, unit) proc" where
  "send_resize env =
     seq (terminal_size env) (\<lambda>area.
     seq (send_json env (resize_message area)) (\<lambda>_.
       modify (\<lambda>w. w\<lparr>resize_requested := False\<rparr>)))"

definition forward_input :: "demo_env \<Rightarrow> (demo, unit) proc" where
  "forward_input env =
     seq (ask (outside env) (Device (Read_Input 4096))) (\<lambda>a.
       case a of
         Data bytes \<Rightarrow> send_json env (if bytes = [] then plain_message ''close'' else input_message bytes)
       | _ \<Rightarrow> raising type_error)"

text \<open>A text frame of the server. \<open>message_type in {"error", "timeout"}\<close> needs a hashable value.\<close>

definition handle_message :: "demo_env \<Rightarrow> json \<Rightarrow> (demo, int option) proc" where
  "handle_message env message =
     seq (liftE (get_or message ''type'' JNull)) (\<lambda>kind.
       if is_str kind ''output''
       then seq (liftE (bindE (item_at message ''data'') (\<lambda>d. bindE (as_str d) (b64decode False)))) (\<lambda>bytes.
            seq (ask (outside env) (Device (Write_Output bytes))) (\<lambda>_. ret None))
       else if is_str kind ''exit''
       then seq (liftE (bindE (get_or message ''exit_code'' (JInt 0)) json_int)) (\<lambda>code. ret (Some code))
       else (case kind of
               JList _ \<Rightarrow> raising type_error
             | JObj _ \<Rightarrow> raising type_error
             | _ \<Rightarrow>
                 if is_str kind ''error'' \<or> is_str kind ''timeout''
                 then seq (liftE (get_or message ''message'' (JStr ''interactive Hermes session timed out''))) (\<lambda>m.
                        raising (DemoError (json_str (repr env) m)))
                 else ret None))"

definition handle_frame :: "demo_env \<Rightarrow> nat \<times> string \<Rightarrow> (demo, int option) proc" where
  "handle_frame env = (\<lambda>(opcode, payload).
     if opcode = 8 then ret (Some 0)
     else if opcode = 9
     then seq (gets trace) (\<lambda>t. seq (send env (encode_frame (mask_of env t) payload 10)) (\<lambda>_. ret None))
     else if opcode \<noteq> 1 then ret None
     else seq (liftE (json_loads payload)) (handle_message env))"

definition session_round :: "demo_env \<Rightarrow> (demo, int option) proc" where
  "session_round env =
     seq (gets resize_requested) (\<lambda>resize.
     seq (whenP resize (send_resize env)) (\<lambda>_.
     seq (ask (outside env) (Device Select)) (\<lambda>a.
       case a of
         Selected from_server from_user resized \<Rightarrow>
           seq (whenP resized (modify (\<lambda>w. w\<lparr>resize_requested := True\<rparr>))) (\<lambda>_.
           seq (whenP from_user (forward_input env)) (\<lambda>_.
             if from_server then seq (read_frame (recv env)) (handle_frame env) else ret None))
       | _ \<Rightarrow> raising type_error)))"

definition interrupted :: "demo_env \<Rightarrow> exn \<Rightarrow> (demo, int) proc" where
  "interrupted env x =
     (if x = KeyboardInterrupt
      then seq (try_except (send_json env (plain_message ''cancel''))
                  (\<lambda>y. if is_os_error y then ret () else raising y)) (\<lambda>_. ret 130)
      else raising x)"

definition leave_session :: "demo_env \<Rightarrow> (demo, unit) proc" where
  "leave_session env =
     seq (ask (outside env) (Device Release_Resize)) (\<lambda>_.
     seq (whenP (is_tty env) (seq (ask (outside env) (Device Restore_Mode)) (\<lambda>_. ret ()))) (\<lambda>_.
     seq (ask (outside env) (Socket Hang_Up)) (\<lambda>_. ret ())))"

definition session_loop :: "demo_env \<Rightarrow> nat \<Rightarrow> (demo, int) proc" where
  "session_loop env rounds =
     seq (whenP (is_tty env) (seq (ask (outside env) (Device Raw_Mode)) (\<lambda>_. ret ()))) (\<lambda>_.
       iterate rounds (session_round env))"

definition interactive_session :: "demo_env \<Rightarrow> nat \<Rightarrow> demo_args \<Rightarrow> string \<Rightarrow> (demo, int) proc" where
  "interactive_session env rounds args sandbox =
     seq (websocket_connect env (tenant args) sandbox) (\<lambda>_.
     seq (terminal_size env) (\<lambda>area.
     seq (send_json env (start_message args area)) (\<lambda>_.
     seq (modify (\<lambda>w. w\<lparr>resize_requested := True\<rparr>)) (\<lambda>_.
     seq (ask (outside env) (Device Catch_Resize)) (\<lambda>_.
       try_finally (try_except (session_loop env rounds) (interrupted env)) (leave_session env))))))"


section \<open>main\<close>

definition start_sandbox :: "demo_env \<Rightarrow> nat \<Rightarrow> demo_args \<Rightarrow> string \<Rightarrow> (demo, int) proc" where
  "start_sandbox env rounds args profile =
     seq (modify (\<lambda>w. w\<lparr>forwarding := True\<rparr>)) (\<lambda>_.
     seq (start_forward env) (\<lambda>_.
     seq (modify (\<lambda>w. w\<lparr>client := True\<rparr>)) (\<lambda>_.
     seq (create_sandbox env (tenant args) profile (session_ttl args)) (\<lambda>sandbox.
     seq (modify (\<lambda>w. w\<lparr>sandbox_id := Some sandbox\<rparr>)) (\<lambda>_.
     seq (wait_running env (tenant args) sandbox (sandbox_ready_timeout args)) (\<lambda>_.
       interactive_session env rounds args sandbox))))))"

definition prepare :: "demo_env \<Rightarrow> demo_args \<Rightarrow> string \<Rightarrow> string \<Rightarrow> string \<Rightarrow> (demo, unit) proc" where
  "prepare env args profile warm_pool runtime_class =
     seq (whenP (\<not> on_path env ''kubectl'')
            (raising (DemoError ''kubectl is not installed or is not on PATH''))) (\<lambda>_.
     seq (whenP (\<not> use_prepared args) (prepare_runtime_class env (image_mode args))) (\<lambda>_.
     seq (ensure_prerequisites env runtime_class) (\<lambda>_.
     seq (if use_prepared args
          then verify_prepared_environment env profile warm_pool (warm_pool_timeout args)
          else prepare_profile env (image_mode args)
                 (if image_reference args \<noteq> [] then image_reference args
                  else the (map_of default_images (image_mode args)))) (\<lambda>_.
     seq (case egress_manifest args of None \<Rightarrow> ret () | Some f \<Rightarrow> kubectl env [''apply'', ''-f'', f]) (\<lambda>_.
     whenP (\<not> use_prepared args)
       (seq (configure_api env profile warm_pool) (\<lambda>original.
        seq (modify (\<lambda>w. w\<lparr>original_api := Some original\<rparr>)) (\<lambda>_.
        seq (set_warm_pool env warm_pool 1) (\<lambda>_.
          wait_for_warm_pool env warm_pool 1 (warm_pool_timeout args))))))))))"

text \<open>\<open>try: ... except Exception\<close>: the interrupt of the user is no \<open>Exception\<close>.\<close>

definition best_effort :: "('s, unit) proc \<Rightarrow> ('s, unit) proc" where
  "best_effort m = try_except m (\<lambda>x. if x = KeyboardInterrupt then raising x else ret ())"

definition clean_up :: "demo_env \<Rightarrow> demo_args \<Rightarrow> string \<Rightarrow> (demo, unit) proc" where
  "clean_up env args warm_pool =
     seq (gets (\<lambda>w. (client w, sandbox_id w, forwarding w, original_api w)))
       (\<lambda>(has_client, sandbox, forwards, original).
     seq (case sandbox of
            Some s \<Rightarrow> whenP has_client (best_effort (delete_sandbox env (tenant args) s))
          | None \<Rightarrow> ret ()) (\<lambda>_.
     seq (whenP forwards (stop_forward env)) (\<lambda>_.
     whenP (\<not> keep_prepared args \<and> \<not> use_prepared args)
       (seq (best_effort (set_warm_pool env warm_pool 0)) (\<lambda>_.
          case original of Some values \<Rightarrow> best_effort (restore_api env values) | None \<Rightarrow> ret ())))))"

definition demo_body :: "demo_env \<Rightarrow> nat \<Rightarrow> demo_args \<Rightarrow> string \<Rightarrow> string \<Rightarrow> string \<Rightarrow> (demo, int) proc" where
  "demo_body env rounds args profile warm_pool runtime_class =
     seq (prepare env args profile warm_pool runtime_class) (\<lambda>_. start_sandbox env rounds args profile)"

definition supplied :: "string option \<Rightarrow> bool" where
  "supplied v \<longleftrightarrow> v \<noteq> None \<and> v \<noteq> Some []"

definition demo_main :: "demo_env \<Rightarrow> nat \<Rightarrow> demo_args \<Rightarrow> (demo, int) proc" where
  "demo_main env rounds args =
     (if \<not> (1 \<le> session_ttl args \<and> session_ttl args \<le> 7200)
      then raising (DemoError ''--session-ttl must be between 1 and 7200 seconds'')
      else if supplied (hermes_model args) \<noteq> supplied (hermes_provider args)
      then raising (DemoError ''--hermes-model and --hermes-provider must be supplied together'')
      else (case map_of modes (image_mode args) of
              None \<Rightarrow> raising (KeyError (image_mode args))
            | Some (profile, warm_pool, runtime_class) \<Rightarrow>
                try_finally (demo_body env rounds args profile warm_pool runtime_class)
                  (clean_up env args warm_pool)))"


section \<open>The waiting loops\<close>

lemma fueled_kubectl [fuel_intros]:
  "fueled (run_kubectl env a s)" "fueled (kubectl env a)" "fueled (kubectl_json env a)"
  unfolding run_kubectl_def kubectl_def kubectl_json_def
  by (auto intro!: fuel_intros split: prod.splits json.splits)

lemma fueledE_pool_state [fuel_intros]: "fueledE (pool_state v)"
  unfolding pool_state_def by (auto intro!: fuel_intros)

lemma fueled_warm_pool_round: "fueled (warm_pool_round env n i d)"
  unfolding warm_pool_round_def by (auto intro!: fuel_intros)

lemma kubectl_json_clock: "kubectl_json env a w = (r, w') \<Longrightarrow> clock w \<le> clock w'"
proof -
  have "keeps (\<lambda>v. clock w \<le> clock v) (kubectl_json env a)"
    unfolding kubectl_json_def run_kubectl_def
    by (auto intro!: keeps_intros split: prod.splits json.splits)
  from keeps_run [OF this, of w] show "kubectl_json env a w = (r, w') \<Longrightarrow> clock w \<le> clock w'" by simp
qed

lemma warm_pool_goes_on:
  "warm_pool_round env n i d w = (Inr None, w') \<Longrightarrow> clock w < d \<and> clock w < clock w'"
  by (fastforce simp: warm_pool_round_def seq_Inr liftE_run ret_run raising_run
      dest!: kubectl_json_clock sleep_clock split: if_splits)

interpretation pool_loop: deadline_loop deadline "warm_pool_round env name replicas deadline"
  for env name replicas deadline
  by unfold_locales (rule warm_pool_goes_on, assumption, rule fueled_warm_pool_round)

lemma fueled_request [fuel_intros]: "fueled (api_request env who m p b e h)"
  unfolding api_request_def by (auto intro!: fuel_intros simp: type_error_def split: answer.splits)

lemma fueled_running_round: "fueled (running_round env who s d)"
  unfolding running_round_def by (auto intro!: fuel_intros)

lemma request_clock: "api_request env who m p b e h w = (r, w') \<Longrightarrow> clock w \<le> clock w'"
proof -
  have "keeps (\<lambda>v. clock w \<le> clock v) (api_request env who m p b e h)"
    unfolding api_request_def by (auto intro!: keeps_intros split: answer.splits)
  from keeps_run [OF this, of w] show "api_request env who m p b e h w = (r, w') \<Longrightarrow> clock w \<le> clock w'" by simp
qed

lemma running_goes_on:
  "running_round env who s d w = (Inr None, w') \<Longrightarrow> clock w < d \<and> clock w < clock w'"
  by (fastforce simp: running_round_def seq_Inr liftE_run ret_run raising_run
      dest!: request_clock sleep_clock split: if_splits)

interpretation running_loop: deadline_loop deadline "running_round env who sandbox deadline"
  for env who sandbox deadline
  by unfold_locales (rule running_goes_on, assumption, rule fueled_running_round)

lemma fueled_demo_waits [fuel_intros]:
  "fueled (Hermes_Demo.wait_for_warm_pool env n i s)" "fueled (wait_running env who sandbox s)"
  unfolding Hermes_Demo.wait_for_warm_pool_def wait_running_def Let_def
  by (intro fuel_intros pool_loop.loop_returns running_loop.loop_returns)+


section \<open>The clean-up\<close>

text \<open>From history \<open>t\<close> on the user does not interrupt.\<close>

definition uninterrupted :: "demo_env \<Rightarrow> call list \<Rightarrow> bool" where
  "uninterrupted env t \<longleftrightarrow> (\<forall>s c d. outside env (t @ s) c \<noteq> (Failed Interrupted, d))"

text \<open>A procedure that, from \<open>t\<close> on, only adds to the history and is not stopped by an interrupt.\<close>

definition quiet :: "call list \<Rightarrow> ('z world_scheme, 'a) proc \<Rightarrow> bool" where
  "quiet t m \<longleftrightarrow> (\<forall>w. extends t w \<longrightarrow> extends t (snd (m w)) \<and> fst (m w) \<noteq> Inl KeyboardInterrupt)"

lemma quiet_seq: "quiet t m \<Longrightarrow> (\<And>a. quiet t (f a)) \<Longrightarrow> quiet t (seq m f)"
  unfolding quiet_def by (auto simp: seq_def split: prod.splits sum.splits)

lemma quiet_ret: "quiet t (ret a)"
  by (simp add: quiet_def ret_def)

lemma quiet_raising: "x \<noteq> KeyboardInterrupt \<Longrightarrow> quiet t (raising x)"
  by (simp add: quiet_def raising_def)

lemma extended: "extends t w \<longleftrightarrow> (\<exists>s. trace w = t @ s)"
  by (auto simp: extends_def prefix_def)

lemma quiet_ask: "uninterrupted env t \<Longrightarrow> quiet t (ask (outside env) c)"
proof -
  assume calm: "uninterrupted env t"
  have "exn_of f = KeyboardInterrupt \<longleftrightarrow> f = Interrupted" for f by (cases f) simp_all
  then show ?thesis
    using calm unfolding quiet_def uninterrupted_def extended
    by (auto simp: ask_def perform_call_def seq_def ret_def raising_def split: prod.splits answer.splits)
qed

lemma quiet_kubectl:
  assumes "uninterrupted env t"
  shows "quiet t (kubectl env a)"
proof -
  have "exn_of f = KeyboardInterrupt \<longleftrightarrow> f = Interrupted" for f by (cases f) simp_all
  then have "quiet t (run_process (outside env) argv s)" for argv s
    using assms unfolding quiet_def uninterrupted_def extended
    by (auto simp: run_process_def perform_call_def seq_def ret_def raising_def type_error_def
        split: prod.splits answer.splits)
  then show ?thesis
    unfolding kubectl_def run_kubectl_def
    by (intro quiet_seq) (auto intro!: quiet_ret quiet_raising split: prod.splits)
qed

lemma quiet_steps:
  assumes "uninterrupted env t"
  shows "quiet t (Hermes_Demo.set_warm_pool env n i)" "quiet t (restore_api env v)" "quiet t (delete_sandbox env who s)"
  unfolding Hermes_Demo.set_warm_pool_def restore_api_def delete_sandbox_def api_request_def
  by (auto intro!: quiet_seq quiet_kubectl quiet_ask quiet_ret quiet_raising assms
      simp: type_error_def split: answer.splits)

lemma best_effort_quiet:
  assumes "quiet t m" and "extends t w"
  shows "\<exists>v. best_effort m w = (Inr (), v) \<and> v = snd (m w) \<and> extends t v"
  using assms by (cases "m w"; cases "fst (m w)") (auto simp: best_effort_def try_except_def quiet_def ret_def)

lemma kubectl_trace: "trace (snd (kubectl env a w)) = trace w @ [Run (''kubectl'' # a) []]"
  using run_process_trace [of "outside env" "''kubectl'' # a" "[]" w]
  by (auto simp: kubectl_def run_kubectl_def seq_def ret_def raising_def split: prod.splits sum.splits)

text \<open>Stopping a port forward that was started tells it to end, whatever comes of that.\<close>

lemma stop_forward_tells:
  assumes "child w"
  shows "ran (Process Terminate) (snd (stop_forward env w))"
proof -
  obtain r v where v: "ask (outside env) (Process Terminate) w = (r, v)" by fastforce
  have told: "extends (trace w @ [Process Terminate]) v"
    using ask_trace [of "outside env" "Process Terminate" w] by (simp add: v extends_def)
  define rest :: "(demo, unit) proc" where "rest = seq (ask (outside env) (Process (Await 5000))) (\<lambda>a.
           if a \<noteq> Running then ret ()
           else
             seq (ask (outside env) (Process Kill)) (\<lambda>_.
             seq (ask (outside env) (Process (Await 5000))) (\<lambda>b.
               if b \<noteq> Running then ret () else raising TimeoutExpired)))"
  have "keeps (extends (trace w @ [Process Terminate])) rest"
    unfolding rest_def by (auto intro!: keeps_intros)
  from keeps_run [OF this told] have "extends (trace w @ [Process Terminate]) (snd (rest v))" .
  then have "extends (trace w @ [Process Terminate]) (snd (stop_forward env w))"
    using assms v told by (cases r) (simp_all add: stop_forward_def rest_def [symmetric])
  then show ?thesis by (rule extends_ran [rotated]) simp
qed

lemma keeps_stop_forward: "keeps (extends t) (stop_forward env)"
  unfolding stop_forward_def by (auto intro!: keeps_intros)

lemma delete_keeps_child: "child (snd (best_effort (delete_sandbox env who s) w)) = child w"
proof -
  have "keeps (\<lambda>v. child v = child w) (best_effort (delete_sandbox env who s))"
    unfolding best_effort_def delete_sandbox_def api_request_def
    by (auto intro!: keeps_intros keeps_ask split: answer.splits)
  from keeps_run [OF this, of w] show ?thesis by simp
qed

definition delete_call :: "demo_env \<Rightarrow> string \<Rightarrow> string \<Rightarrow> call" where
  "delete_call env who sandbox =
     Http ''DELETE'' (base_url env @ ''/v1/sandboxes/'' @ sandbox) [(tenant_header, who)] None"

definition scale_down_call :: "string \<Rightarrow> call" where
  "scale_down_call warm_pool = Run (''kubectl'' # patch_arguments warm_pool 0) []"

definition set_env_call :: "string list \<Rightarrow> call" where
  "set_env_call assignments = Run (''kubectl'' # set_env_arguments assignments) []"

definition restoring :: "demo_env \<Rightarrow> (string \<times> json) list \<Rightarrow> string list" where
  "restoring env original =
     map (\<lambda>(name, v). if v \<noteq> JNull then name @ ''='' @ json_str (repr env) v else name @ ''-'') original"

lemma delete_trace: "prefix (trace w @ [delete_call env who s]) (trace (snd (delete_sandbox env who s w)))"
proof -
  have "trace (snd (api_request env who m p None e [] w)) = trace w @ [Http m (base_url env @ p) [(tenant_header, who)] None]"
    for m p e
    using ask_trace [of "outside env" "Http m (base_url env @ p) [(tenant_header, who)] None" w]
    by (auto simp: api_request_def seq_def ret_def raising_def split: prod.splits sum.splits answer.splits)
  then show ?thesis
    by (auto simp: delete_sandbox_def delete_call_def seq_def ret_def split: prod.splits sum.splits)
       (metis prefix_order.refl snd_conv)+
qed

lemma restore_trace: "set_env_call (restoring env v) \<in> set (trace (snd (restore_api env v w)))"
proof (cases "kubectl env (set_env_arguments (restoring env v)) w")
  case (Pair r u)
  have u: "set_env_call (restoring env v) \<in> set (trace u)"
    using kubectl_trace [of env "set_env_arguments (restoring env v)" w] by (simp add: Pair set_env_call_def)
  then have "set_env_call (restoring env v) \<in> set (trace (snd (kubectl env rollout_arguments u)))"
    by (simp add: kubectl_trace)
  with u Pair show ?thesis
    by (cases r) (simp_all add: restore_api_def restoring_def [symmetric])
qed

text \<open>What the clean-up does: it deletes the sandbox and stops the port forward; only if that succeeds it
  goes on to the warm pool and the API.\<close>

lemma clean_up_does:
  assumes "uninterrupted env (trace w)" and "\<not> keep_prepared args" and "\<not> use_prepared args"
  shows "\<exists>a. extends (trace w) a \<and> child a = child w
    \<and> (\<forall>s. client w \<and> sandbox_id w = Some s \<longrightarrow> ran (delete_call env (tenant args) s) a)
    \<and> (case whenP (forwarding w) (stop_forward env) a of
         (Inl x, b) \<Rightarrow> clean_up env args warm_pool w = (Inl x, b)
       | (Inr _, b) \<Rightarrow> \<exists>w'. clean_up env args warm_pool w = (Inr (), w') \<and> extends (trace b) w'
           \<and> ran (scale_down_call warm_pool) w'
           \<and> (\<forall>v. original_api w = Some v \<longrightarrow> ran (set_env_call (restoring env v)) w'))"
proof -
  let ?t = "trace w"
  define del :: "(demo, unit) proc" where "del = (case sandbox_id w of Some s \<Rightarrow> whenP (client w) (best_effort (delete_sandbox env (tenant args) s))
          | None \<Rightarrow> ret ())"
  have w: "extends ?t w" by (simp add: extends_def)
  note steps = quiet_steps [OF assms(1)]
  obtain a where a: "del w = (Inr (), a)" "extends ?t a" "child a = child w"
    and deleted: "client w \<Longrightarrow> sandbox_id w = Some s \<Longrightarrow> ran (delete_call env (tenant args) s) a" for s
  proof (cases "\<exists>s. client w \<and> sandbox_id w = Some s")
    case True
    then obtain s where s: "client w" "sandbox_id w = Some s" by blast
    obtain v where v: "best_effort (delete_sandbox env (tenant args) s) w = (Inr (), v)"
      "v = snd (delete_sandbox env (tenant args) s w)" "extends ?t v"
      using best_effort_quiet [OF steps(3) w] by blast
    have "ran (delete_call env (tenant args) s) v"
      using delete_trace [of w env "tenant args" s] v(2) by (auto simp: prefix_def)
    then show thesis
      using that [of v] v s delete_keeps_child [of env "tenant args" s w] by (simp add: del_def)
  next
    case False
    then have "del w = (Inr (), w)" by (auto simp: del_def ret_run whenP_def split: option.splits)
    then show thesis using that [of w] w False by auto
  qed
  obtain r b where b: "whenP (forwarding w) (stop_forward env) a = (r, b)" by fastforce
  have "keeps (extends ?t) (whenP (forwarding w) (stop_forward env))"
    by (intro keeps_intros keeps_stop_forward)
  from keeps_run [OF this a(2)] have b_ext: "extends ?t b" by (simp add: b)
  define res :: "(demo, unit) proc" where "res = (case original_api w of Some v \<Rightarrow> best_effort (restore_api env v) | None \<Rightarrow> ret ())"
  have run: "clean_up env args warm_pool w = (case r of Inl x \<Rightarrow> (Inl x, b)
      | Inr _ \<Rightarrow> seq (best_effort (Hermes_Demo.set_warm_pool env warm_pool 0)) (\<lambda>_. res) b)"
    using a(1) b assms(2,3) by (cases r) (simp_all add: clean_up_def del_def res_def seq_def ret_def)
  have rest: "\<exists>w'. seq (best_effort (Hermes_Demo.set_warm_pool env warm_pool 0)) (\<lambda>_. res) b = (Inr (), w')
      \<and> extends (trace b) w' \<and> ran (scale_down_call warm_pool) w'
      \<and> (\<forall>v. original_api w = Some v \<longrightarrow> ran (set_env_call (restoring env v)) w')"
  proof -
    obtain c where c: "best_effort (Hermes_Demo.set_warm_pool env warm_pool 0) b = (Inr (), c)"
      "c = snd (Hermes_Demo.set_warm_pool env warm_pool 0 b)" "extends ?t c"
      using best_effort_quiet [OF steps(1) b_ext] by blast
    have c_trace: "trace c = trace b @ [scale_down_call warm_pool]"
      by (simp add: c(2) Hermes_Demo.set_warm_pool_def kubectl_trace scale_down_call_def)
    show ?thesis
    proof (cases "original_api w")
      case None
      then show ?thesis using c(1) by (simp add: res_def ret_run c_trace extends_def)
    next
      case (Some v)
      obtain d where d: "best_effort (restore_api env v) c = (Inr (), d)" "d = snd (restore_api env v c)"
        using best_effort_quiet [OF steps(2) c(3)] by blast
      have "keeps (extends (trace c)) (restore_api env v)"
        unfolding restore_api_def kubectl_def run_kubectl_def by (auto intro!: keeps_intros split: prod.splits)
      from keeps_run [OF this, of c] have "extends (trace c) d" by (simp add: extends_def d(2))
      then have "extends (trace b) d" "ran (scale_down_call warm_pool) d"
        by (auto simp: extends_def c_trace prefix_def)
      moreover have "ran (set_env_call (restoring env v)) d" using restore_trace d(2) by simp
      ultimately show ?thesis using c(1) d(1) Some by (simp add: res_def)
    qed
  qed
  have "case whenP (forwarding w) (stop_forward env) a of
         (Inl x, b) \<Rightarrow> clean_up env args warm_pool w = (Inl x, b)
       | (Inr _, b) \<Rightarrow> \<exists>w'. clean_up env args warm_pool w = (Inr (), w') \<and> extends (trace b) w'
           \<and> ran (scale_down_call warm_pool) w'
           \<and> (\<forall>v. original_api w = Some v \<longrightarrow> ran (set_env_call (restoring env v)) w')"
  proof (cases r)
    case (Inl x)
    then show ?thesis using run b by simp
  next
    case (Inr y)
    then show ?thesis using run b rest by simp
  qed
  with a(2,3) deleted show ?thesis by (intro exI [of _ a] conjI allI impI) simp_all
qed

text \<open>C8: whatever the demo ran into, a failed preparation, a dead port forward, an error of the session,
  an interrupt, it deletes the sandbox it created and tells the port forward it started to end, provided the
  user does not interrupt the clean-up itself. If the port forward ends, the warm pool is scaled to zero, the
  API's previous configuration is put back if the demo had recorded it (it does so only once the roll-out of
  its own configuration has succeeded), and the run ends with the result of its body. If it does not end, not
  even after it was killed, or cannot be told to, that error is the result and the rest is skipped.\<close>

theorem demo_cleans_up:
  assumes "map_of modes (image_mode args) = Some (profile, warm_pool, runtime_class)"
    and "1 \<le> session_ttl args \<and> session_ttl args \<le> 7200"
    and "supplied (hermes_model args) = supplied (hermes_provider args)"
    and "\<not> keep_prepared args" and "\<not> use_prepared args"
    and "demo_body env rounds args profile warm_pool runtime_class w = (r, u)"
    and "uninterrupted env (trace u)"
  shows "\<exists>a result w'. demo_main env rounds args w = (result, w') \<and> extends (trace u) a
    \<and> (\<forall>s. client u \<and> sandbox_id u = Some s \<longrightarrow> ran (delete_call env (tenant args) s) w')
    \<and> (forwarding u \<and> child u \<longrightarrow> ran (Process Terminate) w')
    \<and> (case whenP (forwarding u) (stop_forward env) a of
         (Inl x, b) \<Rightarrow> result = Inl x \<and> w' = b
       | (Inr _, b) \<Rightarrow> result = r \<and> ran (scale_down_call warm_pool) w'
           \<and> (\<forall>v. original_api u = Some v \<longrightarrow> ran (set_env_call (restoring env v)) w'))"
proof -
  obtain a where a: "extends (trace u) a" "child a = child u"
    and deleted: "\<forall>s. client u \<and> sandbox_id u = Some s \<longrightarrow> ran (delete_call env (tenant args) s) a"
    and rest: "case whenP (forwarding u) (stop_forward env) a of
         (Inl x, b) \<Rightarrow> clean_up env args warm_pool u = (Inl x, b)
       | (Inr _, b) \<Rightarrow> \<exists>w'. clean_up env args warm_pool u = (Inr (), w') \<and> extends (trace b) w'
           \<and> ran (scale_down_call warm_pool) w'
           \<and> (\<forall>v. original_api u = Some v \<longrightarrow> ran (set_env_call (restoring env v)) w')"
    using clean_up_does [OF assms(7,4,5), of warm_pool] by (elim exE conjE)
  obtain f b where b: "whenP (forwarding u) (stop_forward env) a = (f, b)" by fastforce
  have main: "demo_main env rounds args w = (case clean_up env args warm_pool u of (Inl x, v) \<Rightarrow> (Inl x, v) | (Inr _, v) \<Rightarrow> (r, v))"
    using assms(1-3,6) by (simp add: demo_main_def try_finally_def)
  have "keeps (extends (trace a)) (whenP (forwarding u) (stop_forward env))"
    by (intro keeps_intros keeps_stop_forward)
  from keeps_run [OF this, of a] have ab: "extends (trace a) b" by (simp add: extends_def b)
  have told: "forwarding u \<and> child u \<longrightarrow> ran (Process Terminate) b"
    using stop_forward_tells [of a env] a(2) b by auto
  have deleted_b: "\<forall>s. client u \<and> sandbox_id u = Some s \<longrightarrow> ran (delete_call env (tenant args) s) b"
    using deleted extends_ran [OF _ ab] by blast
  show ?thesis
  proof (cases f)
    case (Inl x)
    then have "demo_main env rounds args w = (Inl x, b)" using rest b main by simp
    with Inl show ?thesis
      using b a(1) told deleted_b by (intro exI [of _ a] exI [of _ "Inl x"] exI [of _ b]) simp
  next
    case (Inr y)
    then obtain w' where w': "clean_up env args warm_pool u = (Inr (), w')" "extends (trace b) w'"
      "ran (scale_down_call warm_pool) w'"
      "\<forall>v. original_api u = Some v \<longrightarrow> ran (set_env_call (restoring env v)) w'"
      using rest b by auto
    have "ran c w'" if "ran c b" for c using extends_ran [OF that w'(2)] .
    then show ?thesis
      using w' b Inr main a(1) told deleted_b by (intro exI [of _ a] exI [of _ r] exI [of _ w']) simp
  qed
qed

text \<open>A cluster in which every command fails.\<close>

definition broken_env :: demo_env where
  "broken_env = \<lparr>outside = (\<lambda>t c. case c of Process k \<Rightarrow> (Done, 1) | _ \<Rightarrow> (Completed 1 [] ''refused'', 1)),
     on_path = (\<lambda>_. True), template = Inr [], repository_root = ''/r'', request_key = ''k'', local_port = 1,
     handshake_key = ''h'', accept_of = (\<lambda>k. k), mask_of = (\<lambda>_. ''abcd''), is_tty = True, repr = (\<lambda>_. [])\<rparr>"

definition demo_arguments :: demo_args where
  "demo_arguments = \<lparr>image_mode = ''oci'', image_reference = [], tenant = ''t'', session_ttl = 900,
     sandbox_ready_timeout = 180, warm_pool_timeout = 300, hermes_model = None, hermes_provider = None,
     egress_manifest = None, keep_prepared = False, use_prepared = False\<rparr>"

definition fresh :: demo where
  "fresh = \<lparr>clock = 0, trace = [], original_api = None, sandbox_id = None, client = False,
     forwarding = False, child = False, resize_requested = False\<rparr>"

theorem demo_cleans_up_witness:
  "\<exists>r w'. demo_main broken_env 5 demo_arguments fresh = (r, w')
     \<and> ran (scale_down_call ''hermes-agent-v1-pool'') w'"
proof -
  obtain r u where body: "demo_body broken_env 5 demo_arguments ''hermes-agent-v1'' ''hermes-agent-v1-pool'' ''xolis-kata'' fresh
      = (r, u)" by fastforce
  have arguments: "map_of modes (image_mode demo_arguments) = Some (''hermes-agent-v1'', ''hermes-agent-v1-pool'', ''xolis-kata'')"
    "1 \<le> session_ttl demo_arguments \<and> session_ttl demo_arguments \<le> 7200"
    "supplied (hermes_model demo_arguments) = supplied (hermes_provider demo_arguments)"
    "\<not> keep_prepared demo_arguments" "\<not> use_prepared demo_arguments"
    by (simp_all add: demo_arguments_def modes_def)
  have calm: "uninterrupted broken_env t" for t
    by (auto simp: uninterrupted_def broken_env_def split: call.splits)
  have "fst (whenP f (stop_forward broken_env) a) = Inr ()" for f and a :: demo
    by (cases f) (simp_all add: stop_forward_def ret_run ask_def perform_call_def broken_env_def)
  then have stops: "\<exists>b. whenP f (stop_forward broken_env) a = (Inr (), b)" for f and a :: demo
    by (metis prod.collapse)
  obtain a result w' where "demo_main broken_env 5 demo_arguments fresh = (result, w')"
    and "case whenP (forwarding u) (stop_forward broken_env) a of
         (Inl x, b) \<Rightarrow> result = Inl x \<and> w' = b
       | (Inr _, b) \<Rightarrow> result = r \<and> ran (scale_down_call ''hermes-agent-v1-pool'') w'
           \<and> (\<forall>v. original_api u = Some v \<longrightarrow> ran (set_env_call (restoring broken_env v)) w')"
    using demo_cleans_up [OF arguments body calm] by (elim exE conjE)
  with stops [of "forwarding u" a] show ?thesis by auto
qed

end
