(* ===== verification/Hermes_Safety.thy ===== *)
theory Hermes_Safety
  imports Hermes_Session
begin

text \<open>
  More about the runs of \<open>tools/hermes_demo.py\<close>: the terminal's mode, the configuration of the API when
  its roll-out fails, and the end of every preparation.
\<close>

section \<open>The terminal\<close>

lemma keeps_read_more: "(\<And>n. keeps I (rcv n)) \<Longrightarrow> keeps I (read_more rcv n chunks)"
proof (induction "n - length chunks" arbitrary: chunks rule: less_induct)
  case less
  show ?case
  proof (cases "length chunks < n")
    case True
    have "keeps I (read_more rcv n (chunks @ chunk))" if "chunk \<noteq> []" for chunk
      using less.hyps [of "chunks @ chunk"] less.prems that True by (cases chunk) auto
    then show ?thesis using less.prems True by (subst read_more.simps) (auto intro!: keeps_intros)
  qed (simp add: read_more.simps keeps_ret)
qed

lemma keeps_read_exact [keeps_intros]: "(\<And>n. keeps I (rcv n)) \<Longrightarrow> keeps I (read_exact rcv n)"
  unfolding read_exact_def by (rule keeps_read_more)

lemma keeps_socket:
  assumes "\<And>k. keeps I (ask (outside env) (Socket k))"
  shows "keeps I (recv env n)" "keeps I (send env s)"
  unfolding recv_def send_def by (auto intro!: keeps_intros assms split: answer.splits)

lemma keeps_response:
  assumes "\<And>k. keeps I (ask (outside env) (Socket k))"
  shows "keeps I (read_response env fuel s)"
proof (induction fuel arbitrary: s)
  case 0
  then show ?case by (subst read_response.simps) (auto intro!: keeps_intros)
next
  case (Suc n)
  then show ?case
    by (subst read_response.simps) (auto intro!: keeps_intros keeps_socket assms simp: Let_def)
qed

lemma keeps_connect:
  assumes "\<And>k. keeps I (ask (outside env) (Socket k))"
  shows "keeps I (websocket_connect env who s)"
  unfolding websocket_connect_def
  by (intro keeps_intros keeps_socket keeps_response assms)

lemma keeps_send_json:
  assumes "\<And>k. keeps I (ask (outside env) (Socket k))"
  shows "keeps I (send_json env v)"
  unfolding send_json_def by (intro keeps_intros keeps_socket assms)

text \<open>After history \<open>t\<close> the terminal has not been made raw.\<close>

definition not_raw_since :: "call list \<Rightarrow> demo \<Rightarrow> bool" where
  "not_raw_since t w \<longleftrightarrow> (\<exists>s. trace w = t @ s \<and> Device Raw_Mode \<notin> set s)"

lemma not_raw_ask: "c \<noteq> Device Raw_Mode \<Longrightarrow> keeps (not_raw_since t) (ask env c)"
  by (rule keeps_ask) (auto simp: not_raw_since_def)

lemma leave_session_restores:
  assumes "is_tty env" and "\<And>t f d. outside env t (Device Release_Resize) \<noteq> (Failed f, d)"
  shows "\<exists>before after. trace (snd (leave_session env w)) = before @ Device Restore_Mode # after
    \<and> Device Raw_Mode \<notin> set after"
proof -
  obtain a u where u: "ask (outside env) (Device Release_Resize) w = (Inr a, u)"
    using assms(2) [of "trace w"]
    by (cases "outside env (trace w) (Device Release_Resize)"; cases "fst (outside env (trace w) (Device Release_Resize))")
       (auto simp: ask_def perform_call_def ret_run)
  define v where "v = snd (ask (outside env) (Device Restore_Mode) u)"
  have v: "trace v = trace u @ [Device Restore_Mode]" unfolding v_def by (rule ask_trace)
  have tail: "trace (snd (seq (ask (outside env) (Socket Hang_Up)) (\<lambda>_. ret ()) x)) = trace x @ [Socket Hang_Up]" for x
    using ask_trace [of "outside env" "Socket Hang_Up" x] by (auto simp: seq_def ret_def split: prod.splits sum.splits)
  show ?thesis
  proof (cases "fst (ask (outside env) (Device Restore_Mode) u)")
    case (Inl x)
    then have "ask (outside env) (Device Restore_Mode) u = (Inl x, v)" by (simp add: v_def prod_eq_iff)
    then have "trace (snd (leave_session env w)) = trace u @ Device Restore_Mode # []"
      using u v by (simp add: leave_session_def assms(1) seq_assoc)
    then show ?thesis by (metis empty_iff list.set(1))
  next
    case (Inr b)
    then have "ask (outside env) (Device Restore_Mode) u = (Inr b, v)" by (simp add: v_def prod_eq_iff)
    then have "trace (snd (leave_session env w)) = trace u @ Device Restore_Mode # [Socket Hang_Up]"
      using u v tail [of v] by (simp add: leave_session_def assms(1) seq_assoc)
    then show ?thesis by (intro exI [of _ "trace u"] exI [of _ "[Socket Hang_Up]"]) simp
  qed
qed

text \<open>C34: on a terminal, however the session ends, by the server's exit message, its error, a broken
  connection, a malformed frame, the user's interrupt or a failing write, the terminal is not left in
  raw mode: either it never was made raw, or the last mode set is the old one.\<close>

theorem session_restores_terminal:
  assumes "is_tty env" and "\<And>t f d. outside env t (Device Release_Resize) \<noteq> (Failed f, d)"
    and "interactive_session env rounds args sandbox w = (r, w')"
  shows "not_raw_since (trace w) w'
    \<or> (\<exists>before after. trace w' = before @ Device Restore_Mode # after \<and> Device Raw_Mode \<notin> set after)"
proof -
  let ?I = "not_raw_since (trace w)"
  have sockets: "keeps ?I (ask (outside env) (Socket k))" for k by (rule not_raw_ask) simp
  have size: "keeps ?I (terminal_size env)"
    unfolding terminal_size_def by (auto intro!: keeps_intros not_raw_ask split: answer.splits)
  have flag: "keeps ?I (modify (\<lambda>w. w\<lparr>resize_requested := True\<rparr>))"
    by (simp add: keeps_snd not_raw_since_def)
  define rest where "rest = try_finally (try_except (session_loop env rounds) (interrupted env)) (leave_session env)"
  define settled where "settled v = (\<exists>before after. trace v = before @ Device Restore_Mode # after
      \<and> Device Raw_Mode \<notin> set after)" for v :: demo
  have restored: "settled (snd (rest v))" for v
    using leave_session_restores [OF assms(1,2)]
    by (auto simp: settled_def rest_def try_finally_def split: prod.splits sum.splits) (metis snd_conv)+
  have start: "?I w" by (simp add: not_raw_since_def)
  have either: "?I (snd (seq m f x)) \<or> settled (snd (seq m f x))"
    if "keeps ?I m" "?I x" "\<And>a y. ?I y \<Longrightarrow> ?I (snd (f a y)) \<or> settled (snd (f a y))" for m f x
  proof (cases "m x")
    case (Pair q y)
    then have "?I y" using that(1,2) by (metis keeps_run snd_conv)
    with Pair that(3) show ?thesis by (cases q) auto
  qed
  have "?I (snd (interactive_session env rounds args sandbox w))
    \<or> settled (snd (interactive_session env rounds args sandbox w))"
    unfolding interactive_session_def rest_def [symmetric]
    by (intro either keeps_connect keeps_send_json sockets size flag not_raw_ask start disjI2 restored) simp_all
  with assms(3) show ?thesis by (simp add: settled_def)
qed


theorem session_restores_terminal_witness:
  "\<exists>r w'. interactive_session broken_env 3 demo_arguments ''s'' fresh = (r, w')
    \<and> (not_raw_since [] w'
       \<or> (\<exists>before after. trace w' = before @ Device Restore_Mode # after \<and> Device Raw_Mode \<notin> set after))"
proof -
  obtain r w' where run: "interactive_session broken_env 3 demo_arguments ''s'' fresh = (r, w')" by fastforce
  have "is_tty broken_env" "outside broken_env t (Device Release_Resize) \<noteq> (Failed f, d)" for t f d
    by (simp_all add: broken_env_def)
  from session_restores_terminal [OF this run] run show ?thesis by (auto simp: fresh_def)
qed


section \<open>A roll-out that fails\<close>

text \<open>What is kept by every step but the two that configure the API.\<close>

locale api_law =
  fixes env :: demo_env and I :: "demo \<Rightarrow> bool"
  assumes grows: "(\<And>a. c \<noteq> set_env_call a) \<Longrightarrow> I w \<Longrightarrow> I (w\<lparr>clock := n, trace := trace w @ [c]\<rparr>)"
begin

lemma keeps_other_kubectl:
  assumes "\<And>a. Run (''kubectl'' # args) s \<noteq> set_env_call a"
  shows "keeps I (run_kubectl env args s)"
  unfolding run_kubectl_def
  by (auto intro!: keeps_intros keeps_run_process grows assms split: prod.splits)

lemma keeps_kubectl:
  "(\<And>a. args \<noteq> set_env_arguments a) \<Longrightarrow> keeps I (kubectl env args)"
  "(\<And>a. args @ [''-o'', ''json''] \<noteq> set_env_arguments a) \<Longrightarrow> keeps I (kubectl_json env args)"
  unfolding kubectl_def kubectl_json_def
  by (auto intro!: keeps_intros keeps_other_kubectl simp: set_env_call_def split: json.splits)

lemma keeps_preparation:
  "keeps I (prepare_runtime_class env mode)" "keeps I (ensure_prerequisites env rc)"
  "keeps I (prepare_profile env mode reference)" "keeps I (deployment_environment env)"
  unfolding prepare_runtime_class_def ensure_prerequisites_def prepare_profile_def apply_manifest_def
    deployment_environment_def
  by (auto intro!: keeps_intros keeps_kubectl keeps_other_kubectl simp: set_env_arguments_def set_env_call_def)

lemma keeps_calls: "(\<And>a. c \<noteq> set_env_call a) \<Longrightarrow> keeps I (ask (outside env) c)"
  by (rule keeps_ask) (simp add: grows)

lemma keeps_best_effort: "keeps I m \<Longrightarrow> keeps I (best_effort m)"
  unfolding best_effort_def by (auto intro!: keeps_intros)

lemma keeps_clean_up_steps:
  "keeps I (delete_sandbox env who s)" "keeps I (stop_forward env)" "keeps I (Hermes_Demo.set_warm_pool env n i)"
  unfolding delete_sandbox_def api_request_def stop_forward_def Hermes_Demo.set_warm_pool_def
  by (auto intro!: keeps_intros keeps_calls keeps_kubectl
      simp: set_env_call_def set_env_arguments_def patch_arguments_def split: answer.splits)

end

definition configuring :: "string \<Rightarrow> string \<Rightarrow> string list" where
  "configuring profile warm_pool =
     [''XOLIS_PROFILE='' @ profile, ''XOLIS_WARM_POOL='' @ warm_pool,
      ''XOLIS_MAXIMUM_COMMAND_TIMEOUT_SECONDS=900'']"

text \<open>No original configuration is kept, and the API has only been given the new one.\<close>

definition only_configured :: "string list \<Rightarrow> demo \<Rightarrow> bool" where
  "only_configured new w \<longleftrightarrow> original_api w = None \<and> (\<forall>a. ran (set_env_call a) w \<longrightarrow> a = new)"

interpretation api: api_law env "only_configured new" for env new
  by unfold_locales (auto simp: only_configured_def)

lemma configure_api_steps:
  "configure_api env profile warm_pool =
     seq (deployment_environment env) (\<lambda>current.
     seq (kubectl env (set_env_arguments (configuring profile warm_pool))) (\<lambda>_.
     seq (kubectl env rollout_arguments) (\<lambda>_. ret (map (\<lambda>name. (name, lookup_env current name)) api_env_names))))"
  by (simp only: configure_api_def Let_def configuring_def)

lemma configure_fails:
  assumes "\<And>t. \<exists>rc out err d. rc \<noteq> 0 \<and> outside env t (Run (''kubectl'' # rollout_arguments) []) = (Completed rc out err, d)"
    and "only_configured (configuring profile warm_pool) w"
  shows "wp (configure_api env profile warm_pool) (\<lambda>_ _. False)
    (\<lambda>_. only_configured (configuring profile warm_pool)) w"
proof -
  let ?I = "only_configured (configuring profile warm_pool)"
  have set: "keeps ?I (kubectl env (set_env_arguments (configuring profile warm_pool)))"
    unfolding kubectl_def run_kubectl_def
    by (auto intro!: keeps_intros keeps_run_process simp: only_configured_def set_env_call_def set_env_arguments_def
        split: prod.splits)
  have roll: "keeps ?I (kubectl env rollout_arguments)"
    by (rule api.keeps_kubectl) (simp add: rollout_arguments_def set_env_arguments_def)
  have fails: "\<exists>x. fst (kubectl env rollout_arguments v) = Inl x" for v :: demo
  proof -
    obtain rc out err d where "rc \<noteq> 0" "outside env (trace v) (Run (''kubectl'' # rollout_arguments) []) = (Completed rc out err, d)"
      using assms(1) by blast
    then show ?thesis
      by (simp add: kubectl_def run_kubectl_def run_process_def perform_call_def ret_run raising_run)
  qed
  have last: "wp (kubectl env rollout_arguments) (\<lambda>_ _. False) (\<lambda>_. ?I) v" if "?I v" for v
    using fails [of v] keeps_run [OF roll that] by (cases "kubectl env rollout_arguments v") (auto simp: wp_def)
  have tail: "wp (seq (kubectl env rollout_arguments) f) (\<lambda>_ _. False) (\<lambda>_. ?I) v" if "?I v" for f :: "unit \<Rightarrow> (demo, (string \<times> json) list) proc" and v
    unfolding wp_seq by (rule wp_mono [OF last [OF that]]) auto
  have middle: "wp (seq (kubectl env (set_env_arguments (configuring profile warm_pool)))
      (\<lambda>_. seq (kubectl env rollout_arguments) f)) (\<lambda>_ _. False) (\<lambda>_. ?I) v"
    if "?I v" for f :: "unit \<Rightarrow> (demo, (string \<times> json) list) proc" and v
    unfolding wp_seq [of "kubectl env (set_env_arguments _)"]
    by (rule wp_mono [OF keepsD [OF set that]]) (auto intro: tail)
  show ?thesis
    unfolding configure_api_steps wp_seq [of "deployment_environment env"]
    by (rule wp_mono [OF keepsD [OF api.keeps_preparation(4) assms(2)]]) (auto intro: middle)
qed

text \<open>C39: when the new configuration of the API is set but its roll-out fails, the configuration is never
  put back: the previous one is only remembered after the roll-out, so the clean-up does not know it, and
  the API is left with the demo's configuration.\<close>

theorem rollout_failure_keeps_configuration:
  assumes "map_of modes (image_mode args) = Some (profile, warm_pool, runtime_class)" and "\<not> use_prepared args"
    and "\<And>t. \<exists>rc out err d. rc \<noteq> 0 \<and> outside env t (Run (''kubectl'' # rollout_arguments) []) = (Completed rc out err, d)"
    and "original_api w = None" and "trace w = []"
    and "ran (set_env_call a) (snd (demo_main env rounds args w))"
  shows "a = configuring profile warm_pool"
proof -
  let ?I = "only_configured (configuring profile warm_pool)"
  have w: "?I w" using assms(4,5) by (simp add: only_configured_def)
  note keep = keeps_intros api.keeps_preparation api.keeps_kubectl api.keeps_other_kubectl
  have configure: "wp (seq (configure_api env profile warm_pool) f) (\<lambda>_ _. False) (\<lambda>_. ?I) v" if "?I v"
    for f :: "(string \<times> json) list \<Rightarrow> (demo, unit) proc" and v
    unfolding wp_seq by (rule wp_mono [OF configure_fails [OF assms(3) that]]) auto
  have egress: "keeps ?I (case egress_manifest args of None \<Rightarrow> ret () | Some f \<Rightarrow> kubectl env [''apply'', ''-f'', f])"
    by (auto intro!: keep simp: set_env_arguments_def split: option.splits)
  have step: "wp (seq m f) (\<lambda>_ _. False) (\<lambda>_. ?I) v"
    if "keeps ?I m" "?I v" "\<And>a u. ?I u \<Longrightarrow> wp (f a) (\<lambda>_ _. False) (\<lambda>_. ?I) u"
    for m :: "(demo, unit) proc" and f :: "unit \<Rightarrow> (demo, unit) proc" and v
    unfolding wp_seq by (rule wp_mono [OF keepsD [OF that(1,2)]]) (auto intro: that(3))
  have prepare: "wp (prepare env args profile warm_pool runtime_class) (\<lambda>_ _. False) (\<lambda>_. ?I) w"
    unfolding prepare_def
    by (intro step egress w keep) (use assms(2) in \<open>auto intro: keep configure\<close>)
  obtain x u where body: "demo_body env rounds args profile warm_pool runtime_class w = (Inl x, u)" and u: "?I u"
    using prepare by (cases "prepare env args profile warm_pool runtime_class w")
      (auto simp: demo_body_def wp_def split: sum.splits)
  have "?I (snd (clean_up env args warm_pool u))"
  proof -
    have "original_api u = None" using u by (simp add: only_configured_def)
    then have clean: "clean_up env args warm_pool u =
      seq (case sandbox_id u of
            Some s \<Rightarrow> whenP (client u) (best_effort (delete_sandbox env (tenant args) s))
          | None \<Rightarrow> ret ()) (\<lambda>_.
      seq (whenP (forwarding u) (stop_forward env)) (\<lambda>_.
      whenP (\<not> keep_prepared args \<and> \<not> use_prepared args)
        (seq (best_effort (Hermes_Demo.set_warm_pool env warm_pool 0)) (\<lambda>_. ret ())))) u"
      by (simp add: clean_up_def)
    show ?thesis unfolding clean
      by (rule keeps_run [where I = ?I, OF _ u])
        (auto intro!: keeps_intros api.keeps_best_effort api.keeps_clean_up_steps split: option.splits)
  qed
  then have "?I (snd (demo_main env rounds args w))"
    using w body assms(1) by (auto simp: demo_main_def try_finally_def raising_def split: prod.splits sum.splits)
  with assms(6) show ?thesis by (simp add: only_configured_def)
qed


text \<open>A cluster in which everything works but the roll-out.\<close>

definition cluster_document :: json where
  "cluster_document = JObj
     [(''items'', JList [JObj [(''status'', JObj [(''conditions'',
         JList [JObj [(''type'', JStr ''Ready''), (''status'', JStr ''True'')]])])]]),
      (''spec'', JObj [(''template'', JObj [(''spec'', JObj [(''containers'',
         JList [JObj [(''name'', JStr ''api'')]])])])])]"

definition stuck_env :: demo_env where
  "stuck_env = broken_env\<lparr>outside := \<lambda>t c. case c of
       Run argv s \<Rightarrow> (if argv = ''kubectl'' # rollout_arguments then (Completed 1 [] ''late'', 1)
                    else (Completed 0 (json_compact cluster_document) [], 1))
     | Process k \<Rightarrow> (Done, 1) | _ \<Rightarrow> (Completed 0 [] [], 1)\<rparr>"

lemma cluster_loads: "json_loads (json_compact cluster_document) = Inr cluster_document"
  by (rule json_loads_compact) code_simp

lemma stuck_runs:
  "args \<noteq> rollout_arguments \<Longrightarrow> \<exists>v. run_kubectl stuck_env args s w = (Inr (json_compact cluster_document), v)"
  by (simp add: run_kubectl_def run_process_def perform_call_def stuck_env_def ret_run)

lemma stuck_kubectl:
  "args \<noteq> rollout_arguments \<Longrightarrow> \<exists>v. kubectl stuck_env args w = (Inr (), v)"
  "args @ [''-o'', ''json''] \<noteq> rollout_arguments \<Longrightarrow>
     \<exists>v. kubectl_json stuck_env args w = (Inr cluster_document, v)"
proof -
  show "args \<noteq> rollout_arguments \<Longrightarrow> \<exists>v. kubectl stuck_env args w = (Inr (), v)"
    using stuck_runs [of args "[]" w] by (auto simp: kubectl_def ret_run)
  show "args @ [''-o'', ''json''] \<noteq> rollout_arguments \<Longrightarrow>
     \<exists>v. kubectl_json stuck_env args w = (Inr cluster_document, v)"
  proof -
    assume "args @ [''-o'', ''json''] \<noteq> rollout_arguments"
    then obtain v where v: "run_kubectl stuck_env (args @ [''-o'', ''json'']) [] w
        = (Inr (json_compact cluster_document), v)" using stuck_runs by blast
    have "(case cluster_document of JObj _ \<Rightarrow> ret cluster_document | _ \<Rightarrow> raising x) v = (Inr cluster_document, v)"
      for x by (simp add: cluster_document_def ret_run)
    with v cluster_loads show ?thesis by (simp add: kubectl_json_def liftE_run ret_run)
  qed
qed

lemma seq_reaches:
  "(\<And>v. \<exists>u. m v = (Inr a, u)) \<Longrightarrow> (\<And>v. \<exists>u. f a v = (Inr b, u)) \<Longrightarrow> \<exists>u. seq m f w = (Inr b, u)"
  by (metis seq_run(1))

lemma after_step:
  "(\<And>v. \<exists>u. m v = (Inr a, u)) \<Longrightarrow> (\<And>v. P (snd (f a v))) \<Longrightarrow> P (snd (seq m f w))"
  by (metis seq_run(1))

lemma keeps_clean_up: "keeps (extends t) (clean_up env args p)"
proof -
  have "keeps (extends t) (delete_sandbox env who s)" "keeps (extends t) (stop_forward env)"
    "keeps (extends t) (Hermes_Demo.set_warm_pool env n i)" "keeps (extends t) (restore_api env v)" for who s n i v
    unfolding delete_sandbox_def api_request_def stop_forward_def Hermes_Demo.set_warm_pool_def
      restore_api_def kubectl_def run_kubectl_def
    by (auto intro!: keeps_intros split: answer.splits prod.splits)
  then show ?thesis
    unfolding clean_up_def best_effort_def
    by (auto intro!: keeps_intros split: option.splits prod.splits)
qed

abbreviation stuck_call :: call where
  "stuck_call \<equiv> set_env_call (configuring ''hermes-agent-v1'' ''hermes-agent-v1-pool'')"

lemma stuck_configures:
  fixes w :: demo
  shows "\<exists>x u. configure_api stuck_env ''hermes-agent-v1'' ''hermes-agent-v1-pool'' w = (Inl x, u) \<and> ran stuck_call u"
proof -
  have differ: "set_env_arguments a \<noteq> rollout_arguments" for a
    by (simp add: set_env_arguments_def rollout_arguments_def)
  obtain v where v: "deployment_environment stuck_env w = (Inr [], v)"
    using stuck_kubectl(2) [of "[''-n'', system_namespace, ''get'', ''deployment/xolis-api'']" w]
    by (auto simp: deployment_environment_def environment_values_def cluster_document_def json_reads is_str_def
        liftE_run rollout_arguments_def dict_of_def)
  obtain u where u: "kubectl stuck_env (set_env_arguments (configuring ''hermes-agent-v1'' ''hermes-agent-v1-pool'')) v
      = (Inr (), u)"
    using stuck_kubectl(1) [OF differ] by blast
  have "ran stuck_call u"
    using kubectl_trace [of stuck_env "set_env_arguments (configuring ''hermes-agent-v1'' ''hermes-agent-v1-pool'')" v]
    by (simp add: u set_env_call_def)
  moreover obtain x y where "kubectl stuck_env rollout_arguments u = (Inl x, y)"
    by (simp add: kubectl_def run_kubectl_def run_process_def perform_call_def stuck_env_def ret_run raising_run)
  moreover from this have "trace y = trace u @ [Run (''kubectl'' # rollout_arguments) []]"
    using kubectl_trace [of stuck_env rollout_arguments u] by simp
  ultimately show ?thesis using v u by (simp add: configure_api_steps)
qed

lemma stuck_body_configures:
  "ran stuck_call (snd (demo_body stuck_env 5 demo_arguments ''hermes-agent-v1'' ''hermes-agent-v1-pool'' ''xolis-kata'' fresh))"
proof -
  have nodes: "ready_nodes cluster_document \<noteq> Inr []" "\<exists>l. ready_nodes cluster_document = Inr l"
    by (simp_all add: ready_nodes_def cluster_document_def ready_node_def ready_condition_def json_reads)
  have prerequisites: "\<exists>v. ensure_prerequisites stuck_env rc w = (Inr (), v)" for rc and w :: demo
  proof -
    obtain l where l: "ready_nodes cluster_document = Inr l" "l \<noteq> []" using nodes by auto
    have path: "on_path stuck_env ''kubectl''" by (simp add: stuck_env_def broken_env_def)
    show ?thesis
      unfolding ensure_prerequisites_def if_not_P [OF iffD2 [OF not_not path]]
      by (intro seq_reaches [where a = "()"] seq_reaches [where a = cluster_document] seq_reaches [where a = l]
          stuck_kubectl) (simp_all add: rollout_arguments_def liftE_run l ret_run)
  qed
  have path: "on_path stuck_env ''kubectl''" by (simp add: stuck_env_def broken_env_def)
  have reference: "is_image_reference (the (map_of default_images ''oci''))" by code_simp
  have profile: "\<exists>v. prepare_profile stuck_env ''oci'' (the (map_of default_images ''oci'')) w = (Inr (), v)"
    for w :: demo
    using stuck_runs [of "[''apply'', ''-f'', ''-'']" "[]" w] reference
    by (auto simp: prepare_profile_def apply_manifest_def render_def hermes_modes_def fill_template_def
        liftE_run ret_run rollout_arguments_def stuck_env_def broken_env_def)
  have first: "ran stuck_call (snd (seq (configure_api stuck_env ''hermes-agent-v1'' ''hermes-agent-v1-pool'') f w))"
    for f :: "(string \<times> json) list \<Rightarrow> (demo, int) proc" and w
    using stuck_configures [of w] by auto
  note step = after_step [where a = "()" and P = "ran stuck_call"]
  note facts = path demo_arguments_def prepare_runtime_class_def ret_run prerequisites profile
  show ?thesis
    unfolding demo_body_def prepare_def seq_assoc
    by (rule step, simp add: facts, rule step, simp add: facts, rule step, simp add: facts,
        rule step, simp add: facts, rule step, simp add: facts, simp add: facts first seq_assoc)
qed

theorem rollout_failure_keeps_configuration_witness:
  "{a. ran (set_env_call a) (snd (demo_main stuck_env 5 demo_arguments fresh))}
   = {configuring ''hermes-agent-v1'' ''hermes-agent-v1-pool''}"
proof -
  let ?body = "demo_body stuck_env 5 demo_arguments ''hermes-agent-v1'' ''hermes-agent-v1-pool'' ''xolis-kata''"
  have "ran stuck_call (snd (demo_main stuck_env 5 demo_arguments fresh))"
  proof (cases "?body fresh")
    case (Pair r u)
    have "extends (trace u) (snd (clean_up stuck_env demo_arguments ''hermes-agent-v1-pool'' u))"
      by (rule keeps_run [OF keeps_clean_up]) (simp add: extends_def)
    with stuck_body_configures Pair have "ran stuck_call (snd (clean_up stuck_env demo_arguments ''hermes-agent-v1-pool'' u))"
      by (auto intro: extends_ran)
    moreover have "demo_main stuck_env 5 demo_arguments
        = try_finally ?body (clean_up stuck_env demo_arguments ''hermes-agent-v1-pool'')"
      by (simp add: demo_main_def demo_arguments_def modes_def supplied_def)
    ultimately show ?thesis using Pair by (auto simp: try_finally_def split: prod.splits sum.splits)
  qed
  note called = this
  have fails: "\<exists>rc out err d. rc \<noteq> 0 \<and> outside stuck_env t (Run (''kubectl'' # rollout_arguments) []) = (Completed rc out err, d)"
    for t by (simp add: stuck_env_def)
  have "map_of modes (image_mode demo_arguments) = Some (''hermes-agent-v1'', ''hermes-agent-v1-pool'', ''xolis-kata'')"
    "\<not> use_prepared demo_arguments" "original_api fresh = None" "trace fresh = []"
    by (simp_all add: demo_arguments_def modes_def fresh_def)
  from rollout_failure_keeps_configuration [OF this(1,2) fails this(3,4)] called
  show ?thesis by blast
qed

end
