(* ===== verification/Runtime_Interactive.thy ===== *)
theory Runtime_Interactive
  imports Runtime_Core Py_Base64
begin

text \<open>
  \<open>services/xolis-runtime-python/src/xolis_runtime/interactive.py\<close>: a WebSocket session around a process
  on a pseudo terminal. Four coroutines share the session: \<open>run_interactive_session\<close> itself, the task
  that sends the output, the task that receives the input, and the task that waits for the process. Each
  runs from one \<open>await\<close> to the next without a break, so a move below is what one of them does when what
  it awaits is there; the client, the process, the worker thread and the clock move on their own.

  What the code calls outside is a parameter: whether the workspace and the terminal can be made, how a
  send ends, what the process prints and when it exits. Not modelled: a failing \<open>ioctl\<close>, and what the
  thread that reads the terminal does after its task was cancelled.
\<close>

section \<open>What is exchanged\<close>

text \<open>An exception of the session: an ordinary one, \<open>WebSocketDisconnect\<close> or \<open>CancelledError\<close>.\<close>

datatype raised = Error exn | Disconnect | Cancelled

text \<open>What \<open>websocket.receive_json()\<close> gives: a value, a message that is not JSON, or the client is gone.\<close>

datatype incoming = Message json | Undecodable | Disconnected

definition received :: "incoming \<Rightarrow> raised + json" where
  "received i =
     (case i of Message m \<Rightarrow> Inr m | Undecodable \<Rightarrow> Inl (Error json_error) | Disconnected \<Rightarrow> Inl Disconnect)"

datatype server_message =
    SStart int
  | SOutput string
  | SError string
  | STimeout int
  | SExit int

text \<open>What \<open>websocket.send_json\<close> is called with.\<close>

definition message_json :: "server_message \<Rightarrow> json" where
  "message_json m =
     (case m of
        SStart p \<Rightarrow> JObj [(''type'', JStr ''start''), (''pid'', JInt p)]
      | SOutput data \<Rightarrow> JObj [(''type'', JStr ''output''), (''data'', JStr data)]
      | SError message \<Rightarrow> JObj [(''type'', JStr ''error''), (''message'', JStr message)]
      | STimeout t \<Rightarrow> JObj [(''type'', JStr ''timeout''), (''ttl_seconds'', JInt t)]
      | SExit code \<Rightarrow> JObj [(''type'', JStr ''exit''), (''exit_code'', JInt code)])"

definition resize_refused :: string where
  "resize_refused = ''terminal rows and columns must be between 1 and 500''"

definition limit_exceeded :: string where
  "limit_exceeded = ''session output limit exceeded''"

definition unsupported :: string where
  "unsupported = ''unsupported session message''"


section \<open>The state\<close>

datatype child = NoChild | Alive | Exited int

text \<open>A task: not created yet, running, returned, failed or cancelled.\<close>

datatype task = Absent | Pending | Returned string | Failed raised | Stopped

text \<open>The \<open>await\<close> at which \<open>run_interactive_session\<close> stands.\<close>

datatype main_pc =
    AtReceive
  | AtSpawn "string list"
  | AtSendStart int
  | AtWait
  | AtReap
  | AtDrain
  | AtSendTimeout
  | AtSendExit int
  | AtSendError string
  | AtFinalWait "raised option"
  | AtGather "raised option"
  | Ended "raised option"

record session_config =
  runtime :: settings
  repr_of :: "json \<Rightarrow> string"  \<comment> \<open>\<open>repr\<close> of a container or a float\<close>
  workspace_made :: "unit result"
  terminal_made :: "unit result"

text \<open>\<open>typed\<close> is what was written to the terminal, \<open>worker\<close> what the input task is having written,
  \<open>sending\<close> the message the output task is sending and what it returns after it. \<open>delivered\<close> and \<open>cut\<close>
  are not in the code, and no move reads them: the chunks the terminal gave, and whether a cancellation
  came while the clean-up was waiting.\<close>

record session =
  now :: nat
  expires :: nat
  main :: main_pc
  child :: child
  killed :: bool
  master_open :: bool
  slave_open :: bool
  window :: "(int \<times> int) option"
  ttl :: int
  out_task :: task
  in_task :: task
  wait_task :: task
  emitted :: nat
  sending :: "(server_message \<times> string option) option"
  worker :: "string option"
  replying :: bool
  timed_out :: bool
  input_result :: "string option"
  output_result :: "string option"
  sent :: "server_message list"
  typed :: string
  delivered :: "bytes list"
  cut :: bool

definition session_init :: "nat \<Rightarrow> session" where
  "session_init t =
     \<lparr>now = t, expires = t + 10000, main = AtReceive, child = NoChild, killed = False,
      master_open = False, slave_open = False, window = None, ttl = 0,
      out_task = Absent, in_task = Absent, wait_task = Absent, emitted = 0, sending = None,
      worker = None, replying = False, timed_out = False, input_result = None, output_result = None,
      sent = [], typed = [], delivered = [], cut = False\<rparr>"


section \<open>Opening the session\<close>

definition valid_size :: "int \<Rightarrow> int \<Rightarrow> bool" where
  "valid_size rows columns \<longleftrightarrow> 1 \<le> rows \<and> rows \<le> 500 \<and> 1 \<le> columns \<and> columns \<le> 500"

definition resize_terminal :: "int \<Rightarrow> int \<Rightarrow> session \<Rightarrow> unit result \<times> session" where
  "resize_terminal rows columns s =
     (if \<not> valid_size rows columns then (Inl (InvalidCommand resize_refused), s)
      else (Inr (), s\<lparr>window := Some (rows, columns)\<rparr>))"

text \<open>The fields of the start message, in the order of the code: the life time, the arguments of the
  command, the rows and the columns.\<close>

definition start_fields ::
  "(json \<Rightarrow> string) \<Rightarrow> settings \<Rightarrow> json \<Rightarrow> (int \<times> string list \<times> int \<times> int) result" where
  "start_fields rep st start =
     bindE (get_or start ''type'' JNull) (\<lambda>kind.
     if \<not> is_str kind ''start''
     then Inl (InvalidCommand (''the first message must have type '' @ [QUOTE] @ ''start'' @ [QUOTE]))
     else
     bindE (get_or start ''ttl_seconds'' (JInt 300)) (\<lambda>t.
     bindE (json_int t) (\<lambda>ttl_seconds.
     bindE (get_or start ''command'' (JStr [])) (\<lambda>c.
     bindE (parse_command st (json_str rep c) ttl_seconds) (\<lambda>arguments.
     bindE (get_or start ''rows'' (JInt 24)) (\<lambda>r.
     bindE (json_int r) (\<lambda>rows.
     bindE (get_or start ''columns'' (JInt 80)) (\<lambda>k.
     bindE (json_int k) (\<lambda>columns.
       Inr (ttl_seconds, arguments, rows, columns))))))))))"

definition field_error :: "exn \<Rightarrow> exn" where
  "field_error e =
     (case e of TypeError _ \<Rightarrow> InvalidCommand ''session fields have invalid types''
      | ValueError _ \<Rightarrow> InvalidCommand ''session fields have invalid types'' | _ \<Rightarrow> e)"


section \<open>Closing the session\<close>

text \<open>The \<open>finally\<close> block: \<open>None\<close> is a return, \<open>Some r\<close> the exception in flight.\<close>

definition close_master :: "raised option \<Rightarrow> session \<Rightarrow> session" where
  "close_master r s = s\<lparr>master_open := False, main := Ended r\<rparr>"

definition stop_task :: "task \<Rightarrow> task" where
  "stop_task t = (case t of Pending \<Rightarrow> Stopped | _ \<Rightarrow> t)"

definition stop_tasks :: "raised option \<Rightarrow> session \<Rightarrow> session" where
  "stop_tasks r s =
     (if wait_task s = Absent then close_master r s
      else s\<lparr>out_task := stop_task (out_task s), in_task := stop_task (in_task s),
             wait_task := stop_task (wait_task s), main := AtGather r\<rparr>)"

definition enter_finally :: "raised option \<Rightarrow> session \<Rightarrow> session" where
  "enter_finally r s =
     (if child s = Alive then s\<lparr>killed := True, main := AtFinalWait r\<rparr> else stop_tasks r s)"

text \<open>An exception in the body: an ordinary one is reported first, the others only pass through.\<close>

definition fail_main :: "raised \<Rightarrow> session \<Rightarrow> session" where
  "fail_main r s =
     (case r of Error e \<Rightarrow> s\<lparr>main := AtSendError (error_text e)\<rparr> | _ \<Rightarrow> enter_finally (Some r) s)"


section \<open>The body of the session\<close>

definition open_terminal :: "session_config \<Rightarrow> int \<Rightarrow> int \<Rightarrow> session \<Rightarrow> unit result \<times> session" where
  "open_terminal cfg rows columns s =
     (case workspace_made cfg of Inl e \<Rightarrow> (Inl e, s) | Inr _ \<Rightarrow>
     (case terminal_made cfg of Inl e \<Rightarrow> (Inl e, s) | Inr _ \<Rightarrow>
        resize_terminal rows columns (s\<lparr>master_open := True, slave_open := True\<rparr>)))"

definition start_received :: "session_config \<Rightarrow> incoming \<Rightarrow> session \<Rightarrow> session" where
  "start_received cfg i s =
     (case received i of
        Inl (Error e) \<Rightarrow> fail_main (Error (field_error e)) s
      | Inl r \<Rightarrow> fail_main r s
      | Inr start \<Rightarrow>
          (case start_fields (repr_of cfg) (runtime cfg) start of
             Inl e \<Rightarrow> fail_main (Error (field_error e)) s
           | Inr (ttl_seconds, arguments, rows, columns) \<Rightarrow>
               (case open_terminal cfg rows columns (s\<lparr>ttl := ttl_seconds\<rparr>) of
                  (Inl e, s') \<Rightarrow> fail_main (Error e) s'
                | (Inr _, s') \<Rightarrow> s'\<lparr>main := AtSpawn arguments\<rparr>)))"

text \<open>The process, or why there is none; the slave side of the terminal is closed either way.\<close>

definition spawn_done :: "exn + int \<Rightarrow> session \<Rightarrow> session" where
  "spawn_done r s =
     (let s' = s\<lparr>slave_open := False\<rparr> in
      case r of Inl e \<Rightarrow> fail_main (Error e) s'
      | Inr child_id \<Rightarrow> s'\<lparr>child := Alive, main := AtSendStart child_id\<rparr>)"

definition start_tasks :: "session \<Rightarrow> session" where
  "start_tasks s =
     s\<lparr>out_task := Pending, in_task := Pending, wait_task := Pending,
       expires := now s + nat (1000 * ttl s), main := AtWait\<rparr>"

definition exit_status :: "session \<Rightarrow> int" where
  "exit_status s =
     (if timed_out s then 124
      else if input_result s \<in> {Some ''cancel'', Some ''close''} then 130
      else if output_result s = Some ''output_limit'' then 125
      else case child s of Exited c \<Rightarrow> c | _ \<Rightarrow> 0)"

definition report_end :: "session \<Rightarrow> session" where
  "report_end s =
     (if timed_out s then s\<lparr>main := AtSendTimeout\<rparr> else s\<lparr>main := AtSendExit (exit_status s)\<rparr>)"

text \<open>Once the process has exited, the output has a second to come to its end.\<close>

definition after_exit :: "session \<Rightarrow> session" where
  "after_exit s =
     (if out_task s = Pending then s\<lparr>main := AtDrain, expires := now s + 1000\<rparr> else report_end s)"

definition is_done :: "task \<Rightarrow> bool" where
  "is_done t \<longleftrightarrow> t \<noteq> Absent \<and> t \<noteq> Pending"

text \<open>\<open>task.result() if task in done else None\<close>\<close>

definition result_of :: "task \<Rightarrow> raised + string option" where
  "result_of t =
     (case t of Returned x \<Rightarrow> Inr (Some x) | Failed r \<Rightarrow> Inl r | Stopped \<Rightarrow> Inl Cancelled | _ \<Rightarrow> Inr None)"

definition kill_child :: "session \<Rightarrow> session" where
  "kill_child s = s\<lparr>killed := (killed s \<or> child s = Alive)\<rparr>"

definition wake :: "session \<Rightarrow> session" where
  "wake s =
     (let s1 = s\<lparr>timed_out := \<not> (is_done (out_task s) \<or> is_done (in_task s) \<or> is_done (wait_task s))\<rparr> in
      case result_of (in_task s) of Inl r \<Rightarrow> fail_main r s1
      | Inr i \<Rightarrow>
        (case result_of (out_task s) of Inl r \<Rightarrow> fail_main r (s1\<lparr>input_result := i\<rparr>)
         | Inr out \<Rightarrow>
           (let s2 = s1\<lparr>input_result := i, output_result := out\<rparr> in
            if is_done (wait_task s) then after_exit s2 else (kill_child s2)\<lparr>main := AtReap\<rparr>)))"

text \<open>\<open>suppress(asyncio.TimeoutError)\<close> around the drain also swallows one that the output task raised itself.\<close>

definition timeout_raised :: "raised \<Rightarrow> bool" where
  "timeout_raised r \<longleftrightarrow> (case r of Error (TimeoutError _) \<Rightarrow> True | _ \<Rightarrow> False)"

text \<open>The main coroutine goes on when what it awaits, other than a message or a send, is there.\<close>

definition proceed :: "session \<Rightarrow> session option" where
  "proceed s =
     (case main s of
        AtReceive \<Rightarrow> if expires s \<le> now s then Some (fail_main (Error (TimeoutError [])) s) else None
      | AtWait \<Rightarrow>
          if is_done (out_task s) \<or> is_done (in_task s) \<or> is_done (wait_task s) \<or> expires s \<le> now s
          then Some (wake s) else None
      | AtReap \<Rightarrow> (case child s of Exited _ \<Rightarrow> Some (after_exit s) | _ \<Rightarrow> None)
      | AtDrain \<Rightarrow>
          (case out_task s of
             Failed r \<Rightarrow> Some (if timeout_raised r then report_end s else fail_main r s)
           | Pending \<Rightarrow> if expires s \<le> now s then Some (report_end (s\<lparr>out_task := Stopped\<rparr>)) else None
           | _ \<Rightarrow> Some (report_end s))
      | AtFinalWait r \<Rightarrow> (case child s of Exited _ \<Rightarrow> Some (stop_tasks r s) | _ \<Rightarrow> None)
      | AtGather r \<Rightarrow> Some (close_master r s)
      | _ \<Rightarrow> None)"

text \<open>A send of the main coroutine: the message, and what follows when it went through.\<close>

definition main_message :: "session \<Rightarrow> server_message option" where
  "main_message s =
     (case main s of
        AtSendStart child_id \<Rightarrow> Some (SStart child_id)
      | AtSendTimeout \<Rightarrow> Some (STimeout (ttl s))
      | AtSendExit c \<Rightarrow> Some (SExit c)
      | AtSendError m \<Rightarrow> Some (SError m)
      | _ \<Rightarrow> None)"

definition main_sent :: "session \<Rightarrow> session" where
  "main_sent s =
     (case main s of
        AtSendStart child_id \<Rightarrow> start_tasks s
      | AtSendTimeout \<Rightarrow> s\<lparr>main := AtSendExit (exit_status s)\<rparr>
      | _ \<Rightarrow> enter_finally None s)"

definition main_send_fails :: "raised \<Rightarrow> session \<Rightarrow> session" where
  "main_send_fails r s =
     (case main s of AtSendError _ \<Rightarrow> enter_finally (Some r) s | _ \<Rightarrow> fail_main r s)"

text \<open>\<open>CancelledError\<close> at the \<open>await\<close>: in the body and in the handlers it enters the \<open>finally\<close> block, in
  the \<open>finally\<close> block it leaves it.\<close>

definition cancel_main :: "session \<Rightarrow> session option" where
  "cancel_main s =
     (case main s of
        Ended _ \<Rightarrow> None
      | AtFinalWait _ \<Rightarrow> Some (s\<lparr>main := Ended (Some Cancelled), cut := True\<rparr>)
      | AtGather _ \<Rightarrow> Some (s\<lparr>main := Ended (Some Cancelled), cut := True\<rparr>)
      | AtSpawn _ \<Rightarrow> Some (enter_finally (Some Cancelled) (s\<lparr>slave_open := False\<rparr>))
      | AtDrain \<Rightarrow> Some (enter_finally (Some Cancelled) (s\<lparr>out_task := stop_task (out_task s)\<rparr>))
      | _ \<Rightarrow> Some (enter_finally (Some Cancelled) s))"


section \<open>The output task\<close>

definition session_keep :: "int \<Rightarrow> nat \<Rightarrow> bytes \<Rightarrow> bytes" where
  "session_keep maximum emitted_bytes chunk =
     (let allowed = maximum - int emitted_bytes in if allowed \<le> 0 then [] else take (nat allowed) chunk)"

definition output_message :: "bytes \<Rightarrow> server_message" where
  "output_message chunk = SOutput (b64encode (map char_of_byte chunk))"

definition terminal_read :: "session_config \<Rightarrow> bytes option \<Rightarrow> session \<Rightarrow> session" where
  "terminal_read cfg chunk s =
     (case chunk of None \<Rightarrow> s\<lparr>out_task := Returned ''eof''\<rparr>
      | Some c \<Rightarrow>
          (let s' = s\<lparr>delivered := delivered s @ [c]\<rparr>; maximum = maximum_output_bytes (runtime cfg) in
           if maximum - int (emitted s) \<le> 0
           then s'\<lparr>sending := Some (SError limit_exceeded, Some ''output_limit'')\<rparr>
           else let kept = session_keep maximum (emitted s) c in
                s'\<lparr>emitted := emitted s + length kept, sending := Some (output_message kept, None)\<rparr>))"

definition output_sent :: "server_message \<Rightarrow> string option \<Rightarrow> session \<Rightarrow> session" where
  "output_sent m r s =
     (let s' = s\<lparr>sent := sent s @ [m], sending := None\<rparr> in
      case r of None \<Rightarrow> s' | Some x \<Rightarrow> s'\<lparr>out_task := Returned x\<rparr>)"


section \<open>The input task\<close>

datatype input_action = Type string | Resize int int | Leave string | Reply

definition read_input :: "json \<Rightarrow> input_action result" where
  "read_input message =
     bindE (get_or message ''type'' JNull) (\<lambda>kind.
     if is_str kind ''input''
     then bindE (get_or message ''data'' (JStr [])) (\<lambda>d.
          bindE (as_str d) (\<lambda>text. bindE (b64decode True text) (\<lambda>data. Inr (Type data))))
     else if is_str kind ''resize''
     then bindE (item_at message ''rows'') (\<lambda>r. bindE (json_int r) (\<lambda>rows.
          bindE (item_at message ''columns'') (\<lambda>k. bindE (json_int k) (\<lambda>columns.
            Inr (Resize rows columns)))))
     else bindE (hashable kind) (\<lambda>_.
       if is_str kind ''cancel'' then Inr (Leave ''cancel'')
       else if is_str kind ''close'' then Inr (Leave ''close'')
       else Inr Reply))"

definition input_received :: "incoming \<Rightarrow> session \<Rightarrow> session" where
  "input_received i s =
     (case received i of Inl r \<Rightarrow> s\<lparr>in_task := Failed r\<rparr>
      | Inr message \<Rightarrow>
          (case read_input message of
             Inl e \<Rightarrow> s\<lparr>in_task := Failed (Error e)\<rparr>
           | Inr (Type data) \<Rightarrow> s\<lparr>worker := Some data\<rparr>
           | Inr (Resize rows columns) \<Rightarrow>
               (case resize_terminal rows columns s of
                  (Inl e, s') \<Rightarrow> s'\<lparr>in_task := Failed (Error e)\<rparr> | (Inr _, s') \<Rightarrow> s')
           | Inr (Leave t) \<Rightarrow> s\<lparr>in_task := Returned t\<rparr>
           | Inr Reply \<Rightarrow> s\<lparr>replying := True\<rparr>))"


section \<open>The moves\<close>

datatype session_move =
    Receive incoming
  | SpawnDone "exn + int"
  | MainSent
  | MainSendFails raised
  | Proceed
  | CancelMain
  | ReadTerminal "bytes option"
  | OutputSent
  | OutputSendFails raised
  | InputSent
  | InputSendFails raised
  | WriteDone
  | WriteFails
  | ChildExits int
  | Waited
  | Tick nat

fun session_act :: "session_config \<Rightarrow> session_move \<Rightarrow> session \<Rightarrow> session option" where
  "session_act cfg (Receive i) s =
     (if main s = AtReceive then Some (start_received cfg i s)
      else if in_task s = Pending \<and> worker s = None \<and> \<not> replying s then Some (input_received i s)
      else None)"
| "session_act cfg (SpawnDone r) s =
     (case main s of AtSpawn _ \<Rightarrow> Some (spawn_done r s) | _ \<Rightarrow> None)"
| "session_act cfg MainSent s =
     (case main_message s of None \<Rightarrow> None | Some m \<Rightarrow> Some (main_sent (s\<lparr>sent := sent s @ [m]\<rparr>)))"
| "session_act cfg (MainSendFails r) s =
     (case main_message s of None \<Rightarrow> None | Some m \<Rightarrow> Some (main_send_fails r s))"
| "session_act cfg Proceed s = proceed s"
| "session_act cfg CancelMain s = cancel_main s"
| "session_act cfg (ReadTerminal c) s =
     (if out_task s = Pending \<and> sending s = None \<and> c \<noteq> Some [] then Some (terminal_read cfg c s) else None)"
| "session_act cfg OutputSent s =
     (case sending s of Some (m, r) \<Rightarrow> if out_task s = Pending then Some (output_sent m r s) else None
      | None \<Rightarrow> None)"
| "session_act cfg (OutputSendFails r) s =
     (if out_task s = Pending \<and> sending s \<noteq> None
      then Some (s\<lparr>out_task := Failed r, sending := None\<rparr>) else None)"
| "session_act cfg InputSent s =
     (if in_task s = Pending \<and> replying s
      then Some (s\<lparr>sent := sent s @ [SError unsupported], replying := False\<rparr>) else None)"
| "session_act cfg (InputSendFails r) s =
     (if in_task s = Pending \<and> replying s
      then Some (s\<lparr>in_task := Failed r, replying := False\<rparr>) else None)"
| "session_act cfg WriteDone s =
     (case worker s of None \<Rightarrow> None | Some d \<Rightarrow> Some (s\<lparr>typed := typed s @ d, worker := None\<rparr>))"
| "session_act cfg WriteFails s =
     (case worker s of None \<Rightarrow> None
      | Some d \<Rightarrow> Some (s\<lparr>worker := None,
          in_task := (if in_task s = Pending then Failed (Error (OSError ''Input/output error''))
                      else in_task s)\<rparr>))"
| "session_act cfg (ChildExits c) s = (if child s = Alive then Some (s\<lparr>child := Exited c\<rparr>) else None)"
| "session_act cfg Waited s =
     (case child s of Exited c \<Rightarrow> if wait_task s = Pending then Some (s\<lparr>wait_task := Returned (str_of_int c)\<rparr>) else None
      | _ \<Rightarrow> None)"
| "session_act cfg (Tick d) s = Some (s\<lparr>now := now s + d\<rparr>)"

inductive session_reachable :: "session_config \<Rightarrow> session \<Rightarrow> bool" for cfg where
  initial: "session_reachable cfg (session_init t)"
| step: "session_reachable cfg s \<Longrightarrow> session_act cfg m s = Some s' \<Longrightarrow> session_reachable cfg s'"

fun session_moves :: "session_config \<Rightarrow> session_move list \<Rightarrow> session \<Rightarrow> session option" where
  "session_moves cfg [] s = Some s"
| "session_moves cfg (m # ms) s =
     (case session_act cfg m s of None \<Rightarrow> None | Some s' \<Rightarrow> session_moves cfg ms s')"

lemma session_invariant:
  assumes "session_reachable cfg s" and "\<And>t. I (session_init t)"
    and "\<And>s m s'. session_reachable cfg s \<Longrightarrow> I s \<Longrightarrow> session_act cfg m s = Some s' \<Longrightarrow> I s'"
  shows "I s"
  using assms(1) by (induction rule: session_reachable.induct) (use assms(2,3) in blast)+

lemma session_moves_reachable:
  "session_moves cfg ms s = Some s' \<Longrightarrow> session_reachable cfg s \<Longrightarrow> session_reachable cfg s'"
  by (induction ms arbitrary: s) (auto split: option.splits intro: session_reachable.step)

lemma session_moves_append:
  "session_moves cfg (ms @ ns) s =
     (case session_moves cfg ms s of None \<Rightarrow> None | Some t \<Rightarrow> session_moves cfg ns t)"
  by (induction ms arbitrary: s) (auto split: option.splits)


section \<open>What the clean-up leaves\<close>

text \<open>What is there at each \<open>await\<close>: the process, the tasks and the two sides of the terminal.\<close>

definition working :: "session \<Rightarrow> bool" where
  "working s \<longleftrightarrow> wait_task s \<noteq> Absent \<and> child s \<noteq> NoChild \<and> \<not> slave_open s"

definition tasks_stopped :: "session \<Rightarrow> bool" where
  "tasks_stopped s \<longleftrightarrow> out_task s \<noteq> Pending \<and> in_task s \<noteq> Pending \<and> wait_task s \<noteq> Pending"

definition nothing_yet :: "session \<Rightarrow> bool" where
  "nothing_yet s \<longleftrightarrow> child s = NoChild \<and> wait_task s = Absent"

definition stage_ok :: "session \<Rightarrow> bool" where
  "stage_ok s =
     (case main s of
        AtReceive \<Rightarrow> nothing_yet s \<and> \<not> slave_open s
      | AtSpawn _ \<Rightarrow> nothing_yet s
      | AtSendStart _ \<Rightarrow> wait_task s = Absent \<and> child s \<noteq> NoChild \<and> \<not> slave_open s
      | AtWait \<Rightarrow> working s
      | AtReap \<Rightarrow> working s
      | AtDrain \<Rightarrow> working s \<and> child s \<noteq> Alive
      | AtSendTimeout \<Rightarrow> working s \<and> child s \<noteq> Alive
      | AtSendExit _ \<Rightarrow> working s \<and> child s \<noteq> Alive
      | AtSendError m \<Rightarrow> (slave_open s \<longrightarrow> nothing_yet s \<and> m = resize_refused)
      | AtFinalWait _ \<Rightarrow> child s \<noteq> NoChild \<and> \<not> slave_open s
      | AtGather _ \<Rightarrow> child s \<noteq> Alive \<and> tasks_stopped s \<and> \<not> slave_open s
      | Ended _ \<Rightarrow> (slave_open s \<longrightarrow> nothing_yet s)
          \<and> (\<not> cut s \<longrightarrow> child s \<noteq> Alive \<and> tasks_stopped s \<and> \<not> master_open s))"

definition clean_inv :: "session \<Rightarrow> bool" where
  "clean_inv s \<longleftrightarrow>
     (wait_task s = Absent \<longleftrightarrow> out_task s = Absent) \<and> (wait_task s = Absent \<longleftrightarrow> in_task s = Absent)
     \<and> (is_done (wait_task s) \<longrightarrow> child s \<noteq> Alive) \<and> stage_ok s"

lemmas clean_defs = clean_inv_def stage_ok_def working_def tasks_stopped_def nothing_yet_def

text \<open>The part of the invariant that holds between two moves.\<close>

definition clean_parts :: "session \<Rightarrow> bool" where
  "clean_parts s \<longleftrightarrow>
     (wait_task s = Absent \<longleftrightarrow> out_task s = Absent) \<and> (wait_task s = Absent \<longleftrightarrow> in_task s = Absent)
     \<and> (is_done (wait_task s) \<longrightarrow> child s \<noteq> Alive)
     \<and> (slave_open s \<longrightarrow> nothing_yet s)"

lemma stop_task_simps [simp]:
  "stop_task t = Pending \<longleftrightarrow> False" "stop_task t = Absent \<longleftrightarrow> t = Absent"
  by (cases t; simp add: stop_task_def)+

lemma clean_enter_finally: "clean_parts s \<Longrightarrow> clean_inv (enter_finally r s)"
  by (auto simp: enter_finally_def stop_tasks_def close_master_def clean_defs clean_parts_def is_done_def)

lemma clean_fail_main:
  "clean_parts s \<Longrightarrow> (slave_open s \<Longrightarrow> \<exists>e. r = Error e \<and> error_text e = resize_refused)
     \<Longrightarrow> clean_inv (fail_main r s)"
  using clean_enter_finally [of s "Some r"]
  by (cases r) (auto simp: fail_main_def clean_defs clean_parts_def)

lemma clean_report_end:
  "clean_parts s \<Longrightarrow> working s \<Longrightarrow> child s \<noteq> Alive \<Longrightarrow> clean_inv (report_end s)"
  by (auto simp: report_end_def clean_defs clean_parts_def)

lemma clean_after_exit:
  "clean_parts s \<Longrightarrow> working s \<Longrightarrow> child s \<noteq> Alive \<Longrightarrow> clean_inv (after_exit s)"
  using clean_report_end [of s] by (auto simp: after_exit_def clean_defs clean_parts_def)

lemma clean_parts_update [simp]:
  "clean_parts (s\<lparr>timed_out := b\<rparr>) = clean_parts s"
  "clean_parts (s\<lparr>input_result := x\<rparr>) = clean_parts s"
  "clean_parts (s\<lparr>output_result := x\<rparr>) = clean_parts s"
  "clean_parts (s\<lparr>sent := ms\<rparr>) = clean_parts s"
  "clean_parts (s\<lparr>ttl := n\<rparr>) = clean_parts s"
  "working (s\<lparr>timed_out := b\<rparr>) = working s"
  "working (s\<lparr>input_result := x\<rparr>) = working s"
  "working (s\<lparr>output_result := x\<rparr>) = working s"
  by (simp_all add: clean_parts_def working_def nothing_yet_def)

lemma clean_kill: "clean_parts s \<Longrightarrow> working s \<Longrightarrow> clean_inv ((kill_child s)\<lparr>main := AtReap\<rparr>)"
  by (auto simp: kill_child_def clean_defs clean_parts_def)

lemma working_facts: "working s \<Longrightarrow> \<not> slave_open s"
  by (simp add: working_def)

lemma clean_wake: "clean_parts s \<Longrightarrow> working s \<Longrightarrow> clean_inv (wake s)"
  unfolding wake_def Let_def
  using working_facts [of s]
  by (auto split: sum.splits intro!: clean_fail_main clean_after_exit clean_kill) (simp_all add: clean_parts_def)

lemma clean_inv_parts: "clean_inv s \<Longrightarrow> clean_parts s"
  by (auto simp: clean_defs clean_parts_def split: main_pc.splits)

lemma clean_stage:
  "clean_inv s \<Longrightarrow> main s = AtReceive \<Longrightarrow> nothing_yet s \<and> \<not> slave_open s"
  "clean_inv s \<Longrightarrow> main s = AtWait \<Longrightarrow> working s"
  "clean_inv s \<Longrightarrow> main s = AtReap \<Longrightarrow> working s"
  "clean_inv s \<Longrightarrow> main s = AtDrain \<Longrightarrow> working s \<and> child s \<noteq> Alive"
  "clean_inv s \<Longrightarrow> main s = AtSendTimeout \<Longrightarrow> working s \<and> child s \<noteq> Alive"
  "clean_inv s \<Longrightarrow> main s = AtSendExit c \<Longrightarrow> working s \<and> child s \<noteq> Alive"
  "clean_inv s \<Longrightarrow> main s = AtSendStart p \<Longrightarrow> wait_task s = Absent \<and> child s \<noteq> NoChild \<and> \<not> slave_open s"
  by (simp_all add: clean_inv_def stage_ok_def)

lemma resize_terminal_cases:
  "resize_terminal r c s = (Inl e, t) \<Longrightarrow> t = s \<and> error_text e = resize_refused"
  "resize_terminal r c s = (Inr u, t) \<Longrightarrow> t = s\<lparr>window := Some (r, c)\<rparr>"
  by (auto simp: resize_terminal_def error_text_def split: if_splits)

lemma open_terminal_cases:
  "open_terminal cfg rows columns s = (Inl e, t) \<Longrightarrow>
     t = s \<or> t = s\<lparr>master_open := True, slave_open := True\<rparr> \<and> error_text e = resize_refused"
  "open_terminal cfg rows columns s = (Inr u, t) \<Longrightarrow>
     t = s\<lparr>master_open := True, slave_open := True, window := Some (rows, columns)\<rparr>"
  by (auto simp: open_terminal_def split: sum.splits dest!: resize_terminal_cases)

lemma clean_start_received:
  assumes "clean_inv s" and "main s = AtReceive"
  shows "clean_inv (start_received cfg i s)"
proof -
  have s: "clean_parts s" "\<not> slave_open s" "nothing_yet s"
    using clean_stage(1) [OF assms] clean_inv_parts [OF assms(1)] by auto
  have fail: "clean_inv (fail_main r s)" for r using s by (auto intro: clean_fail_main)
  have refused: "clean_inv (fail_main (Error e) t)"
    if "open_terminal cfg rows columns (s\<lparr>ttl := n\<rparr>) = (Inl e, t)" for rows columns n e t
    using open_terminal_cases(1) [OF that] s
    by (auto intro!: clean_fail_main) (auto simp: clean_parts_def nothing_yet_def)
  have opened: "clean_inv (t\<lparr>main := AtSpawn a\<rparr>)"
    if "open_terminal cfg rows columns (s\<lparr>ttl := n\<rparr>) = (Inr u, t)" for rows columns n u t a
    using open_terminal_cases(2) [OF that] s by (auto simp: clean_defs clean_parts_def is_done_def)
  show ?thesis
  proof (cases "received i")
    case (Inl r)
    then show ?thesis by (cases r) (simp_all add: start_received_def fail)
  next
    case (Inr m)
    then show ?thesis
      by (auto simp: start_received_def fail refused opened split: sum.split prod.split)
  qed
qed

lemma clean_proceed:
  assumes "proceed s = Some s'" and "clean_inv s"
  shows "clean_inv s'"
proof (cases "main s")
  case AtReceive
  then show ?thesis using assms clean_inv_parts [OF assms(2)] clean_stage(1) [OF assms(2)]
    by (auto simp: proceed_def split: if_splits intro!: clean_fail_main)
next
  case AtWait
  then show ?thesis using assms clean_wake [OF clean_inv_parts [OF assms(2)]] clean_stage(2) [OF assms(2)]
    by (simp add: proceed_def split: if_splits)
next
  case AtReap
  then show ?thesis using assms clean_inv_parts [OF assms(2)] clean_stage(3) [OF assms(2)]
    by (auto simp: proceed_def split: child.splits intro!: clean_after_exit)
next
  case AtDrain
  then have w: "working s" "child s \<noteq> Alive" using assms(2) by (auto simp: clean_inv_def stage_ok_def)
  have stopped: "clean_parts (s\<lparr>out_task := Stopped\<rparr>)" "working (s\<lparr>out_task := Stopped\<rparr>)"
    using w clean_inv_parts [OF assms(2)] by (auto simp: working_def clean_parts_def)
  have "clean_inv (fail_main r s)" for r
    using working_facts [OF w(1)] clean_inv_parts [OF assms(2)] by (auto intro: clean_fail_main)
  then show ?thesis using AtDrain assms w stopped clean_inv_parts [OF assms(2)]
    by (auto simp: proceed_def split: task.splits if_splits intro!: clean_report_end)
next
  case (AtFinalWait r)
  then show ?thesis using assms clean_enter_finally [OF clean_inv_parts [OF assms(2)], of r]
    by (auto simp: proceed_def enter_finally_def split: child.splits)
next
  case (AtGather r)
  then show ?thesis using assms by (auto simp: proceed_def close_master_def clean_defs)
qed (use assms in \<open>simp_all add: proceed_def\<close>)

lemma clean_cancel:
  assumes "cancel_main s = Some s'" and "clean_inv s"
  shows "clean_inv s'"
proof -
  note parts = clean_inv_parts [OF assms(2)]
  have "clean_parts (s\<lparr>slave_open := False\<rparr>)" "clean_parts (s\<lparr>out_task := stop_task (out_task s)\<rparr>)"
    using parts by (auto simp: clean_parts_def nothing_yet_def)
  with assms parts show ?thesis
    by (cases "main s") (auto simp: cancel_main_def intro!: clean_enter_finally, auto simp: clean_defs)
qed

lemma clean_main_sent:
  assumes "clean_inv s" and "main_message s = Some m"
  shows "clean_inv (main_sent (s\<lparr>sent := ms\<rparr>))"
proof -
  note parts = clean_inv_parts [OF assms(1)]
  then have "clean_inv (enter_finally None (s\<lparr>sent := ms\<rparr>))" by (intro clean_enter_finally) simp
  then show ?thesis using assms
    by (cases "main s") (auto simp: main_message_def main_sent_def start_tasks_def clean_defs is_done_def)
qed

lemma clean_main_send_fails:
  assumes "clean_inv s" and "main_message s = Some m"
  shows "clean_inv (main_send_fails r s)"
proof (cases "main s")
  case (AtSendError e)
  then show ?thesis using clean_enter_finally [OF clean_inv_parts [OF assms(1)]]
    by (simp add: main_send_fails_def)
next
  case (AtSendStart p)
  then show ?thesis using clean_inv_parts [OF assms(1)] clean_stage(7) [OF assms(1)]
    by (auto simp: main_send_fails_def intro!: clean_fail_main)
next
  case AtSendTimeout
  then show ?thesis using clean_inv_parts [OF assms(1)] clean_stage(5) [OF assms(1)] working_facts
    by (auto simp: main_send_fails_def intro!: clean_fail_main)
next
  case (AtSendExit c)
  then show ?thesis using clean_inv_parts [OF assms(1)] clean_stage(6) [OF assms(1)] working_facts
    by (auto simp: main_send_fails_def intro!: clean_fail_main)
qed (use assms(2) in \<open>simp_all add: main_message_def\<close>)

lemma clean_spawn_done:
  assumes "clean_inv s" and "main s = AtSpawn a"
  shows "clean_inv (spawn_done r s)"
proof -
  have "clean_parts (s\<lparr>slave_open := False\<rparr>)" using clean_inv_parts [OF assms(1)] by (auto simp: clean_parts_def)
  then show ?thesis using assms
    by (cases r) (auto simp: spawn_done_def Let_def intro!: clean_fail_main, auto simp: clean_defs is_done_def)
qed

text \<open>A move of a task, the worker, the process or the clock leaves the main coroutine where it is.\<close>

lemma clean_task_moves:
  assumes "clean_inv s" and "main s' = main s" and "master_open s' = master_open s"
    and "slave_open s' = slave_open s" and "cut s' = cut s"
    and "child s' = NoChild \<longleftrightarrow> child s = NoChild" and "child s' = Alive \<Longrightarrow> child s = Alive"
    and "out_task s' = Absent \<longleftrightarrow> out_task s = Absent" and "out_task s' = Pending \<Longrightarrow> out_task s = Pending"
    and "in_task s' = Absent \<longleftrightarrow> in_task s = Absent" and "in_task s' = Pending \<Longrightarrow> in_task s = Pending"
    and "wait_task s' = Absent \<longleftrightarrow> wait_task s = Absent" and "wait_task s' = Pending \<Longrightarrow> wait_task s = Pending"
    and "is_done (wait_task s') \<Longrightarrow> child s' = Alive \<Longrightarrow> is_done (wait_task s)"
  shows "clean_inv s'"
proof -
  have "stage_ok s'"
    using assms(1-13) by (cases "main s") (auto simp: clean_defs)
  with assms show ?thesis by (auto simp: clean_inv_def)
qed

lemma is_done_simps [simp]:
  "is_done (Returned x)" "is_done (Failed r)" "is_done Stopped" "\<not> is_done Pending" "\<not> is_done Absent"
  by (simp_all add: is_done_def)

lemma clean_updates:
  assumes "clean_inv s"
  shows "clean_inv (s\<lparr>now := n\<rparr>)" "clean_inv (s\<lparr>worker := w\<rparr>)" "clean_inv (s\<lparr>window := k\<rparr>)"
    "clean_inv (s\<lparr>replying := b\<rparr>)" "clean_inv (s\<lparr>typed := d, worker := w\<rparr>)"
    "clean_inv (s\<lparr>sent := ms, replying := b\<rparr>)" "clean_inv (s\<lparr>sent := ms, sending := x\<rparr>)"
    "clean_inv (s\<lparr>delivered := cs, sending := x\<rparr>)"
    "clean_inv (s\<lparr>delivered := cs, emitted := k', sending := x\<rparr>)"
    "child s = Alive \<Longrightarrow> clean_inv (s\<lparr>child := Exited c\<rparr>)"
  using assms by (auto elim!: clean_task_moves [where s' = "_ :: session"])

lemma clean_task_ends:
  assumes "clean_inv s"
  shows "in_task s = Pending \<Longrightarrow> t \<noteq> Absent \<Longrightarrow> clean_inv (s\<lparr>in_task := t\<rparr>)"
    "out_task s = Pending \<Longrightarrow> t \<noteq> Absent \<Longrightarrow> clean_inv (s\<lparr>out_task := t\<rparr>)"
    "wait_task s = Pending \<Longrightarrow> t \<noteq> Absent \<Longrightarrow> child s \<noteq> Alive \<Longrightarrow> clean_inv (s\<lparr>wait_task := t\<rparr>)"
  by (rule clean_task_moves [OF assms]; auto)+

lemmas clean_frames = clean_updates clean_task_ends

lemma clean_input_received:
  "clean_inv s \<Longrightarrow> in_task s = Pending \<Longrightarrow> clean_inv (input_received i s)"
  by (auto simp: input_received_def resize_terminal_def split: sum.split input_action.split
      intro: clean_frames)

lemma clean_terminal_read: "clean_inv s \<Longrightarrow> out_task s = Pending \<Longrightarrow> clean_inv (terminal_read cfg c s)"
  by (auto simp: terminal_read_def Let_def split: option.split intro: clean_frames)

lemma clean_output_sent:
  assumes "clean_inv s" and "out_task s = Pending"
  shows "clean_inv (output_sent m r s)"
  using clean_updates(7) [OF assms(1), where ms = "sent s @ [m]" and x = None] assms(2)
  by (auto simp: output_sent_def Let_def split: option.split intro: clean_task_ends)

lemma clean_act: "session_act cfg m s = Some s' \<Longrightarrow> clean_inv s \<Longrightarrow> clean_inv s'"
proof (induction cfg m s rule: session_act.induct)
  case (1 cfg i s)
  then show ?case by (auto split: if_splits intro: clean_start_received clean_input_received)
next
  case (2 cfg r s)
  then show ?case by (auto split: main_pc.splits intro: clean_spawn_done)
next
  case (3 cfg s)
  then show ?case by (auto split: option.splits intro: clean_main_sent)
next
  case (4 cfg r s)
  then show ?case by (auto split: option.splits intro: clean_main_send_fails)
next
  case (7 cfg c s)
  then show ?case by (auto split: if_splits intro: clean_terminal_read)
next
  case (8 cfg s)
  then show ?case by (auto split: if_splits option.splits intro: clean_output_sent)
next
  case (9 cfg r s)
  then have "clean_inv (s\<lparr>out_task := Failed r\<rparr>)" by (auto split: if_splits intro: clean_frames)
  from clean_task_moves [OF this, of s'] 9 show ?case by (auto split: if_splits)
next
  case (11 cfg r s)
  then have "clean_inv (s\<lparr>in_task := Failed r\<rparr>)" by (auto split: if_splits intro: clean_frames)
  from clean_task_moves [OF this, of s'] 11 show ?case by (auto split: if_splits)
next
  case (13 cfg s)
  show ?case
    by (rule clean_task_moves [OF 13(2)]) (use 13(1) in \<open>auto split: option.splits if_splits\<close>)
qed (auto intro: clean_proceed clean_cancel clean_frames split: if_splits option.splits child.splits)

lemma reachable_clean: "session_reachable cfg s \<Longrightarrow> clean_inv s"
  by (erule session_invariant)
     (simp add: clean_defs session_init_def, blast intro: clean_act)


section \<open>The protocol\<close>

text \<open>What the client may rely on, as an automaton over the messages of the server: a session is refused
  with one error, or started; then output and errors follow, and an exit message, after a timeout
  message if the life time ran out, is the last message.\<close>

datatype protocol_phase = Opening | Open | Expired | Over

fun protocol :: "protocol_phase \<Rightarrow> server_message \<Rightarrow> protocol_phase option" where
  "protocol Opening (SStart _) = Some Open"
| "protocol Opening (SError _) = Some Over"
| "protocol Open (SOutput _) = Some Open"
| "protocol Open (SError _) = Some Open"
| "protocol Open (STimeout _) = Some Expired"
| "protocol Open (SExit _) = Some Over"
| "protocol Expired (SError _) = Some Expired"
| "protocol Expired (SExit c) = (if c = 124 then Some Over else None)"
| "protocol _ _ = None"

fun run_protocol :: "protocol_phase \<Rightarrow> server_message list \<Rightarrow> protocol_phase option" where
  "run_protocol p [] = Some p"
| "run_protocol p (m # ms) = (case protocol p m of None \<Rightarrow> None | Some q \<Rightarrow> run_protocol q ms)"

lemma run_protocol_append:
  "run_protocol p (ms @ ns) = (case run_protocol p ms of None \<Rightarrow> None | Some q \<Rightarrow> run_protocol q ns)"
  by (induction ms arbitrary: p) (auto split: option.splits)

text \<open>The phase that the tasks allow, and the one that goes with the place of the main coroutine.\<close>

definition tasks_allow :: "session \<Rightarrow> protocol_phase \<Rightarrow> bool" where
  "tasks_allow s p \<longleftrightarrow>
     (out_task s = Pending \<longrightarrow> p = Open) \<and> (in_task s = Pending \<longrightarrow> p = Open \<or> p = Expired)
     \<and> (\<forall>m r. sending s = Some (m, r) \<longrightarrow> (\<exists>t. m = SError t \<or> m = SOutput t))"

definition stage_allows :: "session \<Rightarrow> protocol_phase \<Rightarrow> bool" where
  "stage_allows s p =
     (case main s of
        AtReceive \<Rightarrow> p = Opening
      | AtSpawn _ \<Rightarrow> p = Opening
      | AtSendStart _ \<Rightarrow> p = Opening
      | AtWait \<Rightarrow> p = Open
      | AtReap \<Rightarrow> p = Open
      | AtDrain \<Rightarrow> p = Open
      | AtSendTimeout \<Rightarrow> p = Open \<and> timed_out s \<and> out_task s \<noteq> Pending
      | AtSendExit c \<Rightarrow> out_task s \<noteq> Pending \<and> (if timed_out s then p = Expired \<and> c = 124 else p = Open)
      | AtSendError _ \<Rightarrow> p \<noteq> Over
      | _ \<Rightarrow> True)"

definition simulates :: "session \<Rightarrow> protocol_phase \<Rightarrow> bool" where
  "simulates s p \<longleftrightarrow> tasks_allow s p \<and> stage_allows s p"

lemma simulates_finally: "tasks_allow s p \<Longrightarrow> simulates (enter_finally r s) p"
  by (auto simp: simulates_def tasks_allow_def stage_allows_def enter_finally_def stop_tasks_def close_master_def)

lemma simulates_fail: "tasks_allow s p \<Longrightarrow> p \<noteq> Over \<Longrightarrow> simulates (fail_main r s) p"
  using simulates_finally [of s p "Some r"]
  by (cases r) (auto simp: fail_main_def simulates_def tasks_allow_def stage_allows_def)

lemma simulates_report:
  "tasks_allow s Open \<Longrightarrow> out_task s \<noteq> Pending \<Longrightarrow> simulates (report_end s) Open"
  by (auto simp: report_end_def simulates_def tasks_allow_def stage_allows_def)

lemma simulates_after_exit: "tasks_allow s Open \<Longrightarrow> simulates (after_exit s) Open"
  using simulates_report [of s]
  by (auto simp: after_exit_def simulates_def tasks_allow_def stage_allows_def)

lemma tasks_allow_update [simp]:
  "tasks_allow (s\<lparr>timed_out := b\<rparr>) p = tasks_allow s p"
  "tasks_allow (s\<lparr>input_result := x\<rparr>) p = tasks_allow s p"
  "tasks_allow (s\<lparr>output_result := x\<rparr>) p = tasks_allow s p"
  "tasks_allow (s\<lparr>sent := ms\<rparr>) p = tasks_allow s p"
  "tasks_allow (s\<lparr>ttl := n\<rparr>) p = tasks_allow s p"
  "tasks_allow (s\<lparr>slave_open := b\<rparr>) p = tasks_allow s p"
  "tasks_allow (s\<lparr>master_open := b\<rparr>) p = tasks_allow s p"
  "tasks_allow (s\<lparr>window := k\<rparr>) p = tasks_allow s p"
  "tasks_allow (s\<lparr>killed := b\<rparr>) p = tasks_allow s p"
  "tasks_allow (s\<lparr>main := k'\<rparr>) p = tasks_allow s p"
  "tasks_allow (s\<lparr>child := c\<rparr>) p = tasks_allow s p"
  by (simp_all add: tasks_allow_def)

lemma simulates_wake: "tasks_allow s Open \<Longrightarrow> simulates (wake s) Open"
  unfolding wake_def Let_def
  by (auto split: sum.splits intro!: simulates_fail simulates_after_exit)
     (simp add: kill_child_def simulates_def stage_allows_def)

lemma simulates_stage:
  "simulates s p \<Longrightarrow> main s = AtReceive \<Longrightarrow> tasks_allow s Opening \<and> p = Opening"
  "simulates s p \<Longrightarrow> main s = AtSpawn a \<Longrightarrow> tasks_allow s Opening \<and> p = Opening"
  "simulates s p \<Longrightarrow> main s = AtSendStart c \<Longrightarrow> tasks_allow s Opening \<and> p = Opening"
  "simulates s p \<Longrightarrow> main s \<in> {AtWait, AtReap, AtDrain} \<Longrightarrow> tasks_allow s Open \<and> p = Open"
  by (auto simp: simulates_def stage_allows_def)

lemma simulates_tasks: "simulates s p \<Longrightarrow> tasks_allow s p"
  by (simp add: simulates_def)

lemma simulates_proceed:
  assumes "proceed s = Some s'" and "simulates s p"
  shows "simulates s' p"
proof (cases "main s")
  case AtReceive
  then show ?thesis using assms simulates_stage(1) [OF assms(2)]
    by (auto simp: proceed_def split: if_splits intro!: simulates_fail)
next
  case AtWait
  then show ?thesis using assms simulates_stage(4) [OF assms(2)] simulates_wake [of s]
    by (simp add: proceed_def split: if_splits)
next
  case AtReap
  then show ?thesis using assms simulates_stage(4) [OF assms(2)]
    by (auto simp: proceed_def split: child.splits intro!: simulates_after_exit)
next
  case AtDrain
  then have p: "tasks_allow s Open" "p = Open" using simulates_stage(4) [OF assms(2)] by auto
  moreover have "tasks_allow (s\<lparr>out_task := Stopped\<rparr>) Open" using p by (simp add: tasks_allow_def)
  ultimately show ?thesis using assms(1) AtDrain
    by (auto simp: proceed_def split: task.splits if_splits intro!: simulates_fail simulates_report)
next
  case (AtFinalWait r)
  with assms simulates_finally [of s p r] show ?thesis
    by (auto simp: proceed_def enter_finally_def simulates_def split: child.splits)
next
  case (AtGather r)
  with assms show ?thesis
    by (auto simp: proceed_def close_master_def simulates_def stage_allows_def)
qed (use assms(1) in \<open>simp_all add: proceed_def\<close>)

lemma simulates_cancel:
  assumes "cancel_main s = Some s'" and "simulates s p"
  shows "simulates s' p"
proof -
  have "tasks_allow (s\<lparr>out_task := stop_task (out_task s)\<rparr>) p"
    using simulates_tasks [OF assms(2)] by (simp add: tasks_allow_def)
  then show ?thesis using assms simulates_tasks [OF assms(2)]
    by (cases "main s") (auto simp: cancel_main_def intro!: simulates_finally,
        auto simp: simulates_def stage_allows_def tasks_allow_def)
qed

lemma simulates_start_received:
  assumes "main s = AtReceive" and "simulates s p"
  shows "simulates (start_received cfg i s) p"
proof -
  have p: "tasks_allow s Opening" "p = Opening" using simulates_stage(1) [OF assms(2,1)] by auto
  have failed: "simulates (fail_main r s) p" for r using p by (auto intro: simulates_fail)
  have refused: "simulates (fail_main (Error e) t) p"
    if "open_terminal cfg rows columns (s\<lparr>ttl := n\<rparr>) = (Inl e, t)" for rows columns n e t
    using open_terminal_cases(1) [OF that] p by (auto intro!: simulates_fail)
  have opened: "simulates (t\<lparr>main := AtSpawn a\<rparr>) p"
    if "open_terminal cfg rows columns (s\<lparr>ttl := n\<rparr>) = (Inr u, t)" for rows columns n u t a
    using open_terminal_cases(2) [OF that] p by (simp add: simulates_def stage_allows_def)
  show ?thesis
  proof (cases "received i")
    case (Inl r)
    then show ?thesis by (cases r) (simp_all add: start_received_def failed)
  next
    case (Inr m)
    then show ?thesis
      by (auto simp: start_received_def failed refused opened split: sum.split prod.split)
  qed
qed

lemma simulates_spawn_done:
  assumes "main s = AtSpawn a" and "simulates s p"
  shows "simulates (spawn_done r s) p"
  using simulates_stage(2) [OF assms(2,1)]
  by (cases r) (auto simp: spawn_done_def Let_def intro!: simulates_fail, auto simp: simulates_def stage_allows_def)

lemma simulates_main_send_fails:
  assumes "simulates s p" and "main_message s = Some m"
  shows "simulates (main_send_fails r s) p"
  using simulates_tasks [OF assms(1)] assms
  by (cases "main s")
     (auto simp: main_message_def main_send_fails_def simulates_def [of s] stage_allows_def [of s]
        intro!: simulates_finally simulates_fail split: if_splits)

lemma simulates_main_sent:
  assumes "clean_inv s" and "simulates s p" and "main_message s = Some m"
  shows "\<exists>q. protocol p m = Some q \<and> simulates (main_sent (s\<lparr>sent := ms\<rparr>)) q"
proof -
  have absent: "out_task s \<noteq> Pending \<and> in_task s \<noteq> Pending" if "p = Opening"
    using simulates_tasks [OF assms(2)] that by (auto simp: tasks_allow_def)
  then have over: "tasks_allow s Over" if "p = Opening"
    using simulates_tasks [OF assms(2)] that by (simp add: tasks_allow_def)
  show ?thesis
  proof (cases "main s")
    case (AtSendStart c)
    with assms simulates_stage(3) [OF assms(2) AtSendStart] show ?thesis
      by (auto simp: main_message_def main_sent_def start_tasks_def simulates_def stage_allows_def tasks_allow_def)
  next
    case AtSendTimeout
    with assms simulates_tasks [OF assms(2)] show ?thesis
      by (auto simp: main_message_def main_sent_def simulates_def stage_allows_def tasks_allow_def exit_status_def)
  next
    case (AtSendExit c)
    then have "child s \<noteq> Alive" using clean_stage(6) [OF assms(1)] by simp
    with AtSendExit assms show ?thesis
      by (auto simp: main_message_def main_sent_def enter_finally_def stop_tasks_def close_master_def
          simulates_def stage_allows_def tasks_allow_def clean_inv_def split: if_splits)
  next
    case (AtSendError e)
    then have p: "p \<noteq> Over" using assms(2) by (simp add: simulates_def stage_allows_def)
    obtain q where q: "protocol p (SError e) = Some q" "tasks_allow s q"
      using over simulates_tasks [OF assms(2)] p by (cases p) auto
    with AtSendError assms(3) simulates_finally [of "s\<lparr>sent := ms\<rparr>" q None] show ?thesis
      by (auto simp: main_message_def main_sent_def)
  qed (use assms(3) in \<open>simp_all add: main_message_def\<close>)
qed

text \<open>The moves of the tasks, the worker, the process and the clock.\<close>

lemma simulates_frames:
  assumes "simulates s p"
  shows "simulates (s\<lparr>now := n\<rparr>) p" "simulates (s\<lparr>worker := w\<rparr>) p" "simulates (s\<lparr>window := k\<rparr>) p"
    "simulates (s\<lparr>replying := b\<rparr>) p" "simulates (s\<lparr>typed := d, worker := w\<rparr>) p"
    "simulates (s\<lparr>sent := ms\<rparr>) p" "simulates (s\<lparr>child := c\<rparr>) p" "simulates (s\<lparr>wait_task := t\<rparr>) p"
    "simulates (s\<lparr>sending := None\<rparr>) p"
    "t \<noteq> Pending \<Longrightarrow> simulates (s\<lparr>in_task := t\<rparr>) p" "t \<noteq> Pending \<Longrightarrow> simulates (s\<lparr>out_task := t\<rparr>) p"
    "simulates (s\<lparr>delivered := cs, sending := Some (SError m, r)\<rparr>) p"
    "simulates (s\<lparr>delivered := cs, emitted := k', sending := Some (output_message c', r)\<rparr>) p"
  using assms by (simp_all add: simulates_def tasks_allow_def stage_allows_def output_message_def
      split: main_pc.splits)

lemma simulates_input_received: "simulates s p \<Longrightarrow> simulates (input_received i s) p"
  by (auto simp: input_received_def resize_terminal_def split: sum.split input_action.split
      intro: simulates_frames)

lemma simulates_terminal_read: "simulates s p \<Longrightarrow> simulates (terminal_read cfg c s) p"
  by (auto simp: terminal_read_def Let_def split: option.split intro: simulates_frames)

lemma simulates_output_sent:
  assumes "simulates s p" and "out_task s = Pending" and "sending s = Some (m, r)"
  shows "protocol p m = Some p \<and> simulates (output_sent m r s) p"
proof -
  have "p = Open" and "\<exists>t. m = SError t \<or> m = SOutput t"
    using simulates_tasks [OF assms(1)] assms(2,3) by (auto simp: tasks_allow_def)
  then have "protocol p m = Some p" by auto
  moreover have "simulates (s\<lparr>sent := sent s @ [m], sending := None\<rparr>) p"
    using simulates_frames(6,9) assms(1) by blast
  ultimately show ?thesis
    by (auto simp: output_sent_def Let_def split: option.split intro: simulates_frames)
qed

text \<open>Nothing but a send adds a message.\<close>

lemma sent_finally [simp]: "sent (enter_finally r s) = sent s"
  by (simp add: enter_finally_def stop_tasks_def close_master_def)

lemma sent_fail [simp]: "sent (fail_main r s) = sent s"
  by (simp add: fail_main_def split: raised.split)

lemma sent_report [simp]: "sent (report_end s) = sent s" "sent (after_exit s) = sent s"
  by (simp_all add: report_end_def after_exit_def)

lemma sent_wake [simp]: "sent (wake s) = sent s"
  by (auto simp: wake_def Let_def kill_child_def split: sum.split)

lemma sent_start [simp]: "sent (start_received cfg i s) = sent s"
  by (auto simp: start_received_def open_terminal_def resize_terminal_def
      split: sum.split raised.split prod.split)

lemma sent_others [simp]:
  "sent (main_sent s) = sent s" "sent (main_send_fails r s) = sent s" "sent (input_received i s) = sent s"
  "sent (terminal_read cfg c s) = sent s" "sent (spawn_done x s) = sent s"
  by (auto simp: main_sent_def main_send_fails_def input_received_def terminal_read_def spawn_done_def
      start_tasks_def resize_terminal_def Let_def split: main_pc.split sum.split input_action.split option.split)

lemma sent_proceed: "proceed s = Some s' \<Longrightarrow> sent s' = sent s"
  by (auto simp: proceed_def stop_tasks_def close_master_def
      split: main_pc.splits if_splits child.splits task.splits)

lemma sent_cancel: "cancel_main s = Some s' \<Longrightarrow> sent s' = sent s"
  by (auto simp: cancel_main_def split: main_pc.splits)

lemma simulation_step:
  assumes "session_act cfg m s = Some s'" and "clean_inv s" and "simulates s p"
  shows "\<exists>new q. sent s' = sent s @ new \<and> run_protocol p new = Some q \<and> simulates s' q"
proof -
  let ?goal = "\<exists>new q. sent s' = sent s @ new \<and> run_protocol p new = Some q \<and> simulates s' q"
  have quiet: ?goal if "sent s' = sent s" "simulates s' p"
    using that by (intro exI [of _ "[]"]) simp
  have one: ?goal if "sent s' = sent s @ [x]" "protocol p x = Some q" "simulates s' q" for x q
    using that by (intro exI [of _ "[x]"]) simp
  show ?thesis
  proof (cases m)
    case (Receive i)
    with assms show ?thesis
      by (auto split: if_splits intro!: quiet simulates_start_received simulates_input_received)
  next
    case (SpawnDone r)
    with assms show ?thesis by (auto split: main_pc.splits intro!: quiet simulates_spawn_done)
  next
    case MainSent
    with assms(1) obtain x where x: "main_message s = Some x" "s' = main_sent (s\<lparr>sent := sent s @ [x]\<rparr>)"
      by (auto split: option.splits)
    obtain q where "protocol p x = Some q" "simulates s' q"
      using simulates_main_sent [OF assms(2,3) x(1)] x(2) by blast
    with x(2) show ?thesis by (intro one) simp_all
  next
    case (MainSendFails r)
    with assms show ?thesis by (auto split: option.splits intro!: quiet simulates_main_send_fails)
  next
    case Proceed
    with assms(1) have "proceed s = Some s'" by simp
    then show ?thesis using simulates_proceed sent_proceed assms(3) by (intro quiet) blast+
  next
    case CancelMain
    with assms(1) have "cancel_main s = Some s'" by simp
    then show ?thesis using simulates_cancel sent_cancel assms(3) by (intro quiet) blast+
  next
    case (ReadTerminal c)
    with assms show ?thesis by (auto split: if_splits intro!: quiet simulates_terminal_read)
  next
    case OutputSent
    with assms(1) obtain x r where x: "sending s = Some (x, r)" "out_task s = Pending" "s' = output_sent x r s"
      by (auto split: option.splits if_splits)
    moreover have "sent (output_sent x r s) = sent s @ [x]"
      by (simp add: output_sent_def Let_def split: option.split)
    ultimately show ?thesis using simulates_output_sent [OF assms(3)] by (metis one)
  next
    case (OutputSendFails r)
    have "simulates (s\<lparr>out_task := Failed r, sending := None\<rparr>) p"
      using simulates_frames(9,11) [OF assms(3)] simulates_frames(9) simulates_frames(11) [OF assms(3), of "Failed r"]
      by blast
    with OutputSendFails assms show ?thesis by (auto split: if_splits intro!: quiet)
  next
    case InputSent
    then have s': "s' = s\<lparr>sent := sent s @ [SError unsupported], replying := False\<rparr>" "in_task s = Pending"
      using assms(1) by (auto split: if_splits)
    then have "p = Open \<or> p = Expired" using simulates_tasks [OF assms(3)] by (simp add: tasks_allow_def)
    then have "protocol p (SError unsupported) = Some p" by auto
    moreover have "simulates s' p" unfolding s'(1) using simulates_frames(4,6) assms(3) by blast
    ultimately show ?thesis using s'(1) by (auto intro: one)
  next
    case (InputSendFails r)
    have "simulates (s\<lparr>in_task := Failed r, replying := False\<rparr>) p"
      using simulates_frames(4) simulates_frames(10) [OF assms(3), of "Failed r"] by blast
    with InputSendFails assms show ?thesis by (auto split: if_splits intro!: quiet)
  next
    case WriteFails
    have "simulates (s\<lparr>worker := None, in_task := t\<rparr>) p" if "t = in_task s \<or> t \<noteq> Pending" for t
      using simulates_frames(2) [OF assms(3), of None] simulates_frames(10) that by fastforce
    with WriteFails assms show ?thesis by (auto split: option.splits intro!: quiet)
  qed (use assms in \<open>auto split: if_splits option.splits child.splits intro!: quiet intro: simulates_frames\<close>)
qed

lemma simulation_moves:
  assumes "session_moves cfg ms s = Some s'" and "session_reachable cfg s" and "simulates s p"
  shows "\<exists>new q. sent s' = sent s @ new \<and> run_protocol p new = Some q \<and> simulates s' q"
  using assms
proof (induction ms arbitrary: s p)
  case Nil
  then show ?case by (intro exI [of _ "[]"]) auto
next
  case (Cons m ms)
  then obtain t where t: "session_act cfg m s = Some t" "session_moves cfg ms t = Some s'"
    by (auto split: option.splits)
  obtain new q where a: "sent t = sent s @ new" "run_protocol p new = Some q" "simulates t q"
    using simulation_step [OF t(1) reachable_clean [OF Cons.prems(2)] Cons.prems(3)] by blast
  obtain new' q' where b: "sent s' = sent t @ new'" "run_protocol q new' = Some q'" "simulates s' q'"
    using Cons.IH [OF t(2) session_reachable.step [OF Cons.prems(2) t(1)] a(3)] by blast
  show ?case
    by (intro exI [of _ "new @ new'"] exI [of _ q']) (simp add: a b run_protocol_append)
qed

lemma simulates_init: "simulates (session_init t) Opening"
  by (simp add: simulates_def session_init_def tasks_allow_def stage_allows_def)

lemma reachable_protocol:
  assumes "session_reachable cfg s"
  shows "\<exists>p. run_protocol Opening (sent s) = Some p \<and> simulates s p"
  using assms
proof (induction rule: session_reachable.induct)
  case (initial t)
  then show ?case using simulates_init by (auto simp: session_init_def)
next
  case (step s m s')
  then obtain p where p: "run_protocol Opening (sent s) = Some p" "simulates s p" by blast
  from simulation_step [OF step(2) reachable_clean [OF step(1)] p(2)] p(1) show ?case
    by (auto simp: run_protocol_append)
qed


section \<open>The output\<close>

interpretation session_output: output_budget maximum "session_keep maximum" for maximum
  by unfold_locales (auto simp: session_keep_def Let_def take_is_prefix split: if_splits)

fun output_texts :: "server_message list \<Rightarrow> string list" where
  "output_texts [] = []"
| "output_texts (SOutput t # ms) = t # output_texts ms"
| "output_texts (_ # ms) = output_texts ms"

lemma output_texts_append [simp]: "output_texts (ms @ ns) = output_texts ms @ output_texts ns"
  by (induction ms rule: output_texts.induct) simp_all

definition out_text :: "bytes \<Rightarrow> string" where
  "out_text c = b64encode (map char_of_byte c)"

definition kept :: "session_config \<Rightarrow> session \<Rightarrow> bytes" where
  "kept cfg s = drain (session_keep (maximum_output_bytes (runtime cfg))) [] (delivered s)"

definition over_limit :: "session_config \<Rightarrow> session \<Rightarrow> bool" where
  "over_limit cfg s \<longleftrightarrow> maximum_output_bytes (runtime cfg) < int (length (concat (delivered s)))"

text \<open>The bytes sent, those being sent, and what the terminal delivered.\<close>

definition in_transit :: "session_config \<Rightarrow> session \<Rightarrow> bytes \<Rightarrow> bool" where
  "in_transit cfg s b \<longleftrightarrow>
     (case sending s of
        None \<Rightarrow> b = kept cfg s
      | Some (m, r) \<Rightarrow>
          (m = SError limit_exceeded \<and> r = Some ''output_limit'' \<and> b = kept cfg s \<and> over_limit cfg s)
          \<or> (r = None \<and> (\<exists>c. m = output_message c \<and> b @ c = kept cfg s)))"

definition output_inv :: "session_config \<Rightarrow> session \<Rightarrow> bool" where
  "output_inv cfg s \<longleftrightarrow>
     (\<exists>cs. output_texts (sent s) = map out_text cs \<and> prefix (concat cs) (kept cfg s)
        \<and> (out_task s = Pending \<longrightarrow> emitted s = length (kept cfg s) \<and> in_transit cfg s (concat cs))
        \<and> (out_task s = Returned ''output_limit'' \<longrightarrow> over_limit cfg s \<and> concat cs = kept cfg s))
     \<and> (out_task s = Absent \<longrightarrow> delivered s = [] \<and> emitted s = 0 \<and> sending s = None \<and> output_texts (sent s) = [])"

text \<open>All that the invariant depends on.\<close>

lemma output_inv_cong:
  assumes "output_inv cfg s" and "delivered s' = delivered s" and "output_texts (sent s') = output_texts (sent s)"
    and "out_task s' = out_task s \<and> emitted s' = emitted s \<and> sending s' = sending s
      \<or> out_task s' \<notin> {Absent, Pending, Returned ''output_limit''}"
  shows "output_inv cfg s'"
proof -
  have same: "kept cfg s' = kept cfg s" "over_limit cfg s' = over_limit cfg s"
    using assms(2) by (simp_all add: kept_def over_limit_def)
  moreover have "in_transit cfg s' b = in_transit cfg s b" if "sending s' = sending s" for b
    using that same by (auto simp: in_transit_def split: option.splits)
  ultimately show ?thesis using assms by (auto simp: output_inv_def) (metis+)?
qed

lemma kept_snoc:
  "kept cfg (s\<lparr>delivered := delivered s @ [c]\<rparr>)
     = kept cfg s @ session_keep (maximum_output_bytes (runtime cfg)) (length (kept cfg s)) c"
  by (simp add: kept_def drain_snoc Let_def)

lemma kept_take: "kept cfg s = take (nat (maximum_output_bytes (runtime cfg))) (concat (delivered s))"
  by (simp add: kept_def session_output.drain_is_take)

lemma output_terminal_read:
  assumes "output_inv cfg s" and "out_task s = Pending" and "sending s = None" and "c \<noteq> Some []"
  shows "output_inv cfg (terminal_read cfg c s)"
proof (cases c)
  case None
  with assms show ?thesis by (auto simp: terminal_read_def intro: output_inv_cong)
next
  case (Some b)
  let ?max = "maximum_output_bytes (runtime cfg)" and ?s = "s\<lparr>delivered := delivered s @ [b]\<rparr>"
  obtain cs where cs: "output_texts (sent s) = map out_text cs" "concat cs = kept cfg s"
      "emitted s = length (kept cfg s)"
    using assms(1-3) by (auto simp: output_inv_def in_transit_def)
  have same: "kept cfg (?s\<lparr>emitted := n, sending := x\<rparr>) = kept cfg ?s"
      "kept cfg (?s\<lparr>sending := x\<rparr>) = kept cfg ?s" for n x
    by (simp_all add: kept_def)
  show ?thesis
  proof (cases "?max - int (emitted s) \<le> 0")
    case True
    then have none: "session_keep ?max (emitted s) b = []" by (simp add: session_keep_def)
    have "?max \<le> int (length (kept cfg s))" using True cs(3) by linarith
    moreover have "length (kept cfg s) \<le> length (concat (delivered s))" by (simp add: kept_take)
    moreover have "0 < length b" using assms(4) Some by simp
    ultimately have "?max < int (length (concat (delivered s)) + length b)" by linarith
    then have "over_limit cfg ?s" by (simp add: over_limit_def)
    then show ?thesis using True cs none Some assms(2) kept_snoc [of cfg s b]
      by (auto simp: terminal_read_def output_inv_def in_transit_def over_limit_def same intro!: exI [of _ cs])
  next
    case False
    then show ?thesis using cs Some assms(2) kept_snoc [of cfg s b]
      by (auto simp: terminal_read_def output_inv_def in_transit_def same Let_def intro!: exI [of _ cs])
  qed
qed

lemma output_output_sent:
  assumes "output_inv cfg s" and "out_task s = Pending" and "sending s = Some (m, r)"
  shows "output_inv cfg (output_sent m r s)"
proof -
  obtain cs where cs: "output_texts (sent s) = map out_text cs" "emitted s = length (kept cfg s)"
      "in_transit cfg s (concat cs)"
    using assms(1,2) by (auto simp: output_inv_def)
  have same: "kept cfg (s\<lparr>sent := x, sending := y\<rparr>) = kept cfg s"
      "kept cfg (s\<lparr>sent := x, sending := y, out_task := z\<rparr>) = kept cfg s" for x y z
    by (simp_all add: kept_def)
  from cs(3) assms(3) consider
      "m = SError limit_exceeded" "r = Some ''output_limit''" "concat cs = kept cfg s" "over_limit cfg s"
    | c where "r = None" "m = output_message c" "concat cs @ c = kept cfg s"
    by (auto simp: in_transit_def)
  then show ?thesis
  proof cases
    case 1
    then show ?thesis using cs(1)
      by (auto simp: output_sent_def output_inv_def same over_limit_def intro!: exI [of _ cs])
  next
    case (2 c)
    then show ?thesis using cs assms(2)
      by (auto simp: output_sent_def output_inv_def in_transit_def same output_message_def out_text_def
          intro!: exI [of _ "cs @ [c]"])
  qed
qed

text \<open>The main coroutine and the input task leave the output alone, or stop its task.\<close>

definition output_left :: "session \<Rightarrow> session \<Rightarrow> bool" where
  "output_left s s' \<longleftrightarrow>
     delivered s' = delivered s \<and> emitted s' = emitted s \<and> sending s' = sending s
     \<and> output_texts (sent s') = output_texts (sent s)
     \<and> (out_task s' = out_task s \<or> out_task s \<noteq> Absent \<and> out_task s' = Stopped)"

lemma output_left_inv: "output_left s s' \<Longrightarrow> output_inv cfg s \<Longrightarrow> output_inv cfg s'"
  by (rule output_inv_cong) (auto simp: output_left_def)

lemma output_left_trans [trans]: "output_left s t \<Longrightarrow> output_left t u \<Longrightarrow> output_left s u"
  by (auto simp: output_left_def)

lemma output_left_finally: "output_left s (enter_finally r s)"
  by (cases "out_task s")
     (simp_all add: output_left_def enter_finally_def stop_tasks_def close_master_def stop_task_def)

lemma output_left_fail: "output_left s (fail_main r s)"
  using output_left_finally by (cases r) (auto simp: fail_main_def, auto simp: output_left_def)

lemma output_left_report: "output_left s (report_end s)" "output_left s (after_exit s)"
  by (auto simp: output_left_def report_end_def after_exit_def)

lemma output_left_wake: "output_left s (wake s)"
proof -
  have step: "output_left s u" if "output_left (s\<lparr>timed_out := b, input_result := i, output_result := x\<rparr>) u" for b i x u
    using that by (auto simp: output_left_def)
  have step': "output_left s u" if "output_left (s\<lparr>timed_out := b, input_result := i\<rparr>) u" for b i u
    using that by (auto simp: output_left_def)
  have step'': "output_left s u" if "output_left (s\<lparr>timed_out := b\<rparr>) u" for b u
    using that by (auto simp: output_left_def)
  show ?thesis
    unfolding wake_def Let_def
    by (auto split: sum.split intro: step step' step'' output_left_fail output_left_report)
       (auto simp: output_left_def kill_child_def)
qed

lemma output_left_proceed: "proceed s = Some s' \<Longrightarrow> output_left s s'"
proof (cases "main s")
  case AtDrain
  assume *: "proceed s = Some s'"
  have "output_left s (report_end (s\<lparr>out_task := Stopped\<rparr>))" if "out_task s = Pending"
    using that by (auto simp: output_left_def report_end_def)
  with * AtDrain show ?thesis
    by (auto simp: proceed_def split: task.splits if_splits intro: output_left_fail output_left_report)
next
  case (AtFinalWait r)
  assume "proceed s = Some s'"
  with AtFinalWait output_left_finally [of s r] show ?thesis
    by (auto simp: proceed_def enter_finally_def split: child.splits)
next
  case (AtGather r)
  assume "proceed s = Some s'"
  with AtGather show ?thesis by (auto simp: proceed_def close_master_def output_left_def)
qed (auto simp: proceed_def split: if_splits child.splits
      intro: output_left_fail output_left_wake output_left_report)

lemma output_left_cancel:
  assumes "cancel_main s = Some s'"
  shows "output_left s s'"
proof -
  have "output_left s (enter_finally r (s\<lparr>slave_open := b\<rparr>))" for r b
    using output_left_finally [of "s\<lparr>slave_open := b\<rparr>" r] by (auto simp: output_left_def)
  moreover have "output_left s (enter_finally r (s\<lparr>out_task := stop_task (out_task s)\<rparr>))" for r
    using output_left_finally [of "s\<lparr>out_task := stop_task (out_task s)\<rparr>" r]
    by (cases "out_task s") (auto simp: output_left_def stop_task_def)
  ultimately show ?thesis using assms output_left_finally
    by (cases "main s") (auto simp: cancel_main_def, auto simp: output_left_def)
qed

lemma output_left_received: "output_left s (start_received cfg i s)"
proof -
  have left: "output_left s (fail_main r t)" if "output_left s t" for r t
    using that output_left_fail by (rule output_left_trans)
  have terminal: "output_left s t" if "open_terminal cfg rows columns (s\<lparr>ttl := n\<rparr>) = (r, t)" for rows columns n r t
    using that by (cases r) (auto dest!: open_terminal_cases simp: output_left_def)
  have same: "output_left s s" by (simp add: output_left_def)
  have "output_left s (t\<lparr>main := k\<rparr>)" if "output_left s t" for k t
    using that by (simp add: output_left_def)
  with left terminal same show ?thesis
    by (auto simp: start_received_def split: sum.split prod.split raised.split)
qed

lemma output_left_input: "output_left s (input_received i s)"
  by (auto simp: output_left_def input_received_def resize_terminal_def split: sum.split input_action.split)

lemma output_left_spawn: "output_left s (spawn_done r s)"
  using output_left_fail [of "s\<lparr>slave_open := False\<rparr>"]
  by (cases r) (auto simp: spawn_done_def Let_def, auto simp: output_left_def)

lemma output_main_sent:
  assumes "output_inv cfg s" and "main_message s = Some m" and "clean_inv s"
  shows "output_inv cfg (main_sent (s\<lparr>sent := sent s @ [m]\<rparr>))"
proof (cases "main s")
  case (AtSendStart c)
  then have "out_task s = Absent" using assms(3) clean_stage(7) [OF assms(3)] by (auto simp: clean_inv_def)
  with AtSendStart assms(1,2) show ?thesis
    by (auto simp: main_message_def main_sent_def start_tasks_def output_inv_def in_transit_def kept_def)
next
  case AtSendTimeout
  then have "output_left s (main_sent (s\<lparr>sent := sent s @ [m]\<rparr>))"
    using assms(2) by (auto simp: main_message_def main_sent_def output_left_def)
  with assms(1) show ?thesis by (auto intro: output_left_inv)
next
  case (AtSendExit c)
  then have "output_left s (main_sent (s\<lparr>sent := sent s @ [m]\<rparr>))"
    using assms(2) output_left_finally [of "s\<lparr>sent := sent s @ [m]\<rparr>" None]
    by (auto simp: main_message_def main_sent_def output_left_def)
  with assms(1) show ?thesis by (auto intro: output_left_inv)
next
  case (AtSendError e)
  then have "output_left s (main_sent (s\<lparr>sent := sent s @ [m]\<rparr>))"
    using assms(2) output_left_finally [of "s\<lparr>sent := sent s @ [m]\<rparr>" None]
    by (auto simp: main_message_def main_sent_def output_left_def)
  with assms(1) show ?thesis by (auto intro: output_left_inv)
qed (use assms(2) in \<open>simp_all add: main_message_def\<close>)

lemma output_act:
  assumes "session_act cfg m s = Some s'" and "clean_inv s" and "output_inv cfg s"
  shows "output_inv cfg s'"
proof -
  have left: "output_inv cfg s'" if "output_left s s'"
    using that assms(3) by (rule output_left_inv)
  show ?thesis
  proof (cases m)
    case MainSent
    with assms show ?thesis by (auto split: option.splits intro: output_main_sent)
  next
    case (ReadTerminal c)
    with assms show ?thesis by (auto split: if_splits intro: output_terminal_read)
  next
    case OutputSent
    with assms show ?thesis by (auto split: if_splits option.splits intro: output_output_sent)
  next
    case (OutputSendFails r)
    with assms show ?thesis by (auto split: if_splits intro: output_inv_cong)
  next
    case (MainSendFails r)
    with assms show ?thesis
      by (auto simp: main_send_fails_def split: option.splits main_pc.splits
          intro: output_left_inv output_left_finally output_left_fail)
  next
    case (Receive i)
    with assms show ?thesis
      by (auto split: if_splits intro: output_left_inv output_left_received output_left_input)
  next
    case (SpawnDone r)
    with assms show ?thesis by (auto split: main_pc.splits intro: output_left_inv output_left_spawn)
  next
    case Proceed
    with assms show ?thesis by (auto intro: left output_left_proceed)
  next
    case CancelMain
    with assms show ?thesis by (auto intro: left output_left_cancel)
  qed (rule left, use assms(1) in \<open>fastforce split: if_splits option.splits child.splits simp: output_left_def\<close>)+
qed

lemma reachable_output: "session_reachable cfg s \<Longrightarrow> output_inv cfg s"
  by (erule session_invariant)
     (simp add: output_inv_def session_init_def kept_def, blast intro: output_act reachable_clean)


section \<open>The exit code\<close>

definition past_body :: "session \<Rightarrow> bool" where
  "past_body s \<longleftrightarrow> (\<exists>r. main s = AtFinalWait r \<or> main s = AtGather r \<or> main s = Ended r)"

definition exit_reported :: "session \<Rightarrow> int \<Rightarrow> bool" where
  "exit_reported s c \<longleftrightarrow>
     c = exit_status s \<and> (timed_out s \<longrightarrow> STimeout (ttl s) \<in> set (sent s)) \<and> (\<exists>d. child s = Exited d)"

definition exit_inv :: "session \<Rightarrow> bool" where
  "exit_inv s \<longleftrightarrow>
     (\<forall>c. main s = AtSendExit c \<longrightarrow> c = exit_status s \<and> (timed_out s \<longrightarrow> STimeout (ttl s) \<in> set (sent s)))
     \<and> (main s = AtSendTimeout \<longrightarrow> timed_out s)
     \<and> (\<forall>c. SExit c \<in> set (sent s) \<longrightarrow> exit_reported s c \<and> past_body s)"

text \<open>The exit message is not sent yet.\<close>

definition no_exit :: "session \<Rightarrow> bool" where
  "no_exit s \<longleftrightarrow> (\<forall>c. SExit c \<notin> set (sent s))"

text \<open>A move that neither sends an exit message nor changes what it says.\<close>

lemma exit_same:
  assumes "exit_inv s" and "main s' = main s \<or> past_body s \<and> past_body s'"
    and "timed_out s' = timed_out s" and "ttl s' = ttl s"
    and "input_result s' = input_result s" and "output_result s' = output_result s"
    and "child s' = child s \<or> child s = Alive \<and> (\<forall>c. main s \<noteq> AtSendExit c)"
    and "sent s' = sent s \<or> (\<exists>t. sent s' = sent s @ [SError t] \<or> sent s' = sent s @ [SOutput t])"
  shows "exit_inv s'"
proof -
  have status: "exit_status s' = exit_status s" if "child s' = child s"
    using that assms by (simp add: exit_status_def)
  have sends: "SExit c \<in> set (sent s') \<longleftrightarrow> SExit c \<in> set (sent s)"
      "STimeout c \<in> set (sent s') \<longleftrightarrow> STimeout c \<in> set (sent s)" for c
    using assms(8) by auto
  have reported: "exit_reported s' c \<and> past_body s'" if "SExit c \<in> set (sent s')" for c
  proof -
    have old: "exit_reported s c" "past_body s" using that sends assms(1) by (auto simp: exit_inv_def)
    then have "child s' = child s" using assms(7) by (auto simp: exit_reported_def)
    with old status sends assms(2-4) show ?thesis by (auto simp: exit_reported_def past_body_def)
  qed
  have stage: "main s' = main s" if "main s' = AtSendExit c \<or> main s' = AtSendTimeout" for c
    using that assms(2) by (auto simp: past_body_def)
  have "c = exit_status s' \<and> (timed_out s' \<longrightarrow> STimeout (ttl s') \<in> set (sent s'))" if "main s' = AtSendExit c" for c
  proof -
    have "main s = AtSendExit c" using stage that by auto
    then have "child s' = child s" using assms(7) by auto
    with \<open>main s = AtSendExit c\<close> status sends assms(1,3,4) show ?thesis by (auto simp: exit_inv_def)
  qed
  moreover have "timed_out s'" if "main s' = AtSendTimeout"
    using stage that assms(1,3) by (auto simp: exit_inv_def)
  ultimately show ?thesis using reported by (auto simp: exit_inv_def)
qed

lemma exit_finally: "no_exit s \<Longrightarrow> exit_inv (enter_finally r s)"
  by (auto simp: no_exit_def exit_inv_def enter_finally_def stop_tasks_def close_master_def)

lemma exit_fail: "no_exit s \<Longrightarrow> exit_inv (fail_main r s)"
  using exit_finally [of s] by (cases r) (auto simp: fail_main_def, auto simp: no_exit_def exit_inv_def)

lemma exit_report: "no_exit s \<Longrightarrow> exit_inv (report_end s)" "no_exit s \<Longrightarrow> exit_inv (after_exit s)"
  by (auto simp: no_exit_def exit_inv_def report_end_def after_exit_def exit_status_def)

lemma no_exit_update [simp]:
  "no_exit (s\<lparr>timed_out := b\<rparr>) = no_exit s"
  "no_exit (s\<lparr>input_result := x\<rparr>) = no_exit s"
  "no_exit (s\<lparr>output_result := x\<rparr>) = no_exit s"
  "no_exit (s\<lparr>slave_open := b\<rparr>) = no_exit s"
  "no_exit (s\<lparr>master_open := b\<rparr>) = no_exit s"
  "no_exit (s\<lparr>window := k\<rparr>) = no_exit s"
  "no_exit (s\<lparr>ttl := n\<rparr>) = no_exit s"
  "no_exit (s\<lparr>out_task := t\<rparr>) = no_exit s"
  by (simp_all add: no_exit_def)

lemma exit_wake: "no_exit s \<Longrightarrow> exit_inv (wake s)"
  unfolding wake_def Let_def
  by (auto split: sum.split intro!: exit_fail exit_report)
     (simp add: kill_child_def exit_inv_def no_exit_def)

lemma exit_inv_none: "exit_inv s \<Longrightarrow> \<not> past_body s \<Longrightarrow> no_exit s"
  by (auto simp: exit_inv_def no_exit_def)

lemma past_body_simps [simp]:
  "main s = AtReceive \<Longrightarrow> \<not> past_body s" "main s = AtWait \<Longrightarrow> \<not> past_body s" "main s = AtReap \<Longrightarrow> \<not> past_body s"
  "main s = AtDrain \<Longrightarrow> \<not> past_body s" "main s = AtFinalWait r \<Longrightarrow> past_body s"
  "main s = AtGather r \<Longrightarrow> past_body s" "main s = Ended r \<Longrightarrow> past_body s"
  by (auto simp: past_body_def)

lemma exit_proceed:
  assumes "proceed s = Some s'" and "exit_inv s"
  shows "exit_inv s'"
proof -
  note none = exit_inv_none [OF assms(2)]
  show ?thesis
  proof (cases "main s")
    case AtReceive
    with assms(1) none show ?thesis by (auto simp: proceed_def split: if_splits intro!: exit_fail)
  next
    case AtWait
    with assms(1) none exit_wake [of s] show ?thesis by (simp add: proceed_def split: if_splits)
  next
    case AtReap
    with assms(1) none show ?thesis by (auto simp: proceed_def split: child.splits intro!: exit_report)
  next
    case AtDrain
    with assms(1) none show ?thesis
      by (auto simp: proceed_def split: task.splits if_splits intro!: exit_fail exit_report)
  next
    case (AtFinalWait r)
    with assms(1) show ?thesis
      by (intro exit_same [OF assms(2)]; cases "wait_task s = Absent")
        (auto simp: proceed_def stop_tasks_def close_master_def split: child.splits)
  next
    case (AtGather r)
    with assms(1) show ?thesis
      by (intro exit_same [OF assms(2)]) (auto simp: proceed_def close_master_def)
  qed (use assms(1) in \<open>simp_all add: proceed_def\<close>)
qed

lemma exit_cancel:
  assumes "cancel_main s = Some s'" and "exit_inv s"
  shows "exit_inv s'"
proof (cases "past_body s")
  case True
  with assms(1) have "s' = s\<lparr>main := Ended (Some Cancelled), cut := True\<rparr>"
    by (auto simp: cancel_main_def past_body_def)
  then show ?thesis using True by (intro exit_same [OF assms(2)]) simp_all
next
  case False
  then have "no_exit s" by (rule exit_inv_none [OF assms(2)])
  then have "exit_inv (enter_finally r s)" "exit_inv (enter_finally r (s\<lparr>slave_open := b\<rparr>))"
      "exit_inv (enter_finally r (s\<lparr>out_task := t\<rparr>))" for r b t
    by (simp_all add: exit_finally)
  with False assms(1) show ?thesis by (cases "main s") (auto simp: cancel_main_def)
qed

lemma exit_received:
  assumes "exit_inv s" and "main s = AtReceive"
  shows "exit_inv (start_received cfg i s)"
proof -
  have no: "no_exit s" by (rule exit_inv_none [OF assms(1)]) (simp add: assms(2))
  have terminal: "no_exit t" if "open_terminal cfg rows columns (s\<lparr>ttl := n\<rparr>) = (r, t)" for rows columns n r t
    using that no by (cases r) (auto dest!: open_terminal_cases)
  have "exit_inv (t\<lparr>main := AtSpawn a\<rparr>)" if "no_exit t" for t a
    using that by (simp add: exit_inv_def no_exit_def)
  then show ?thesis using terminal no
    by (auto simp: start_received_def split: sum.split prod.split raised.split intro: exit_fail)
qed

lemma exit_main_sent:
  assumes "exit_inv s" and "main_message s = Some m" and "clean_inv s"
  shows "exit_inv (main_sent (s\<lparr>sent := sent s @ [m]\<rparr>))"
proof -
  have no: "no_exit s"
    by (rule exit_inv_none [OF assms(1)]) (use assms(2) in \<open>auto simp: main_message_def past_body_def\<close>)
  show ?thesis
  proof (cases "main s")
    case (AtSendExit c)
    then have "working s" "child s \<noteq> Alive" using clean_stage(6) [OF assms(3)] by auto
    then obtain d where "child s = Exited d" by (cases "child s") (auto simp: working_def)
    with AtSendExit assms(1,2) no show ?thesis
      by (auto simp: main_message_def main_sent_def enter_finally_def stop_tasks_def close_master_def
          exit_inv_def no_exit_def exit_status_def exit_reported_def)
  next
    case (AtSendError e)
    with assms(2) no show ?thesis
      by (auto simp: main_message_def main_sent_def no_exit_def intro!: exit_finally)
  qed (use assms(1,2) no in \<open>auto simp: main_message_def main_sent_def start_tasks_def exit_inv_def no_exit_def
        exit_status_def\<close>)
qed

lemma exit_act:
  assumes "session_act cfg m s = Some s'" and "clean_inv s" and "simulates s p" and "exit_inv s"
  shows "exit_inv s'"
proof (cases m)
  case (Receive i)
  have "exit_inv (input_received i s)"
    by (rule exit_same [OF assms(4)])
       (auto simp: input_received_def resize_terminal_def split: sum.split input_action.split)
  with Receive assms show ?thesis by (auto split: if_splits intro: exit_received)
next
  case (SpawnDone r)
  then obtain a where a: "main s = AtSpawn a" "s' = spawn_done r s" using assms(1) by (auto split: main_pc.splits)
  then have "no_exit s" by (intro exit_inv_none [OF assms(4)]) (simp add: past_body_def)
  then have "exit_inv (fail_main x (s\<lparr>slave_open := False\<rparr>))"
      "exit_inv (s\<lparr>slave_open := False, child := Alive, main := AtSendStart c\<rparr>)" for x c
    by (simp_all add: exit_fail, simp add: exit_inv_def no_exit_def)
  with a show ?thesis by (simp add: spawn_done_def Let_def split: sum.split)
next
  case MainSent
  with assms show ?thesis by (auto split: option.splits intro: exit_main_sent)
next
  case (MainSendFails r)
  then have "s' = main_send_fails r s" and "\<not> past_body s"
    using assms(1) by (auto simp: main_message_def past_body_def split: option.splits)
  then show ?thesis using exit_inv_none [OF assms(4)]
    by (auto simp: main_send_fails_def split: main_pc.split intro: exit_fail exit_finally)
next
  case Proceed
  with assms show ?thesis by (auto intro: exit_proceed)
next
  case CancelMain
  with assms show ?thesis by (auto intro: exit_cancel)
next
  case (ReadTerminal c)
  have "exit_inv (terminal_read cfg c s)"
    by (rule exit_same [OF assms(4)]) (auto simp: terminal_read_def Let_def split: option.split)
  with ReadTerminal assms(1) show ?thesis by (auto split: if_splits)
next
  case OutputSent
  then obtain x r where x: "sending s = Some (x, r)" "s' = output_sent x r s"
    using assms(1) by (auto split: option.splits if_splits)
  then have "\<exists>t. x = SError t \<or> x = SOutput t"
    using simulates_tasks [OF assms(3)] by (auto simp: tasks_allow_def)
  then have "sent s' = sent s @ [x]" "\<exists>t. sent s' = sent s @ [SError t] \<or> sent s' = sent s @ [SOutput t]"
    using x(2) by (auto simp: output_sent_def Let_def split: option.split)
  then show ?thesis using x(2)
    by (intro exit_same [OF assms(4)]) (simp_all add: output_sent_def Let_def split: option.split)
next
  case (ChildExits c)
  have "\<not> (\<exists>d. main s = AtSendExit d)" if "child s = Alive"
    using that clean_stage(6) [OF assms(2)] by auto
  with ChildExits assms(1) show ?thesis
    by (intro exit_same [OF assms(4)]) (auto split: if_splits)
qed (rule exit_same [OF assms(4)], use assms(1) in \<open>auto split: if_splits option.splits child.splits\<close>)+

lemma reachable_exit: "session_reachable cfg s \<Longrightarrow> exit_inv s"
proof (erule session_invariant)
  show "exit_inv (session_init t)" for t by (simp add: exit_inv_def session_init_def)
next
  fix s m s' assume "session_reachable cfg s" "exit_inv s" "session_act cfg m s = Some s'"
  then show "exit_inv s'" using reachable_clean reachable_protocol by (metis exit_act)
qed


section \<open>The session ends\<close>

text \<open>\<open>finishes cfg n s\<close>: the session comes to its end in at most \<open>n\<close> moves of its own, of the clock and
  of a process that was killed; nothing is asked of the client or of a process that runs.\<close>

inductive finishes :: "session_config \<Rightarrow> nat \<Rightarrow> session \<Rightarrow> bool" for cfg where
  ended: "main s = Ended r \<Longrightarrow> finishes cfg n s"
| goes_on: "m = Proceed \<or> m = MainSent \<Longrightarrow> session_act cfg m s = Some s' \<Longrightarrow> finishes cfg n s' \<Longrightarrow>
    finishes cfg (Suc n) s"
| time_passes: "finishes cfg n (s\<lparr>now := now s + d\<rparr>) \<Longrightarrow> finishes cfg (Suc n) s"
| spawn_ends: "session_act cfg (SpawnDone r) s = Some s' \<Longrightarrow> finishes cfg n s' \<Longrightarrow> finishes cfg (Suc n) s"
| killed_exits: "killed s \<Longrightarrow> session_act cfg (ChildExits c) s = Some s' \<Longrightarrow> finishes cfg n s' \<Longrightarrow>
    finishes cfg (Suc n) s"

lemma finishes_mono: "finishes cfg n s \<Longrightarrow> n \<le> k \<Longrightarrow> finishes cfg k s"
proof (induction arbitrary: k rule: finishes.induct)
  case (ended s r n)
  then show ?case by (blast intro: finishes.ended)
next
  case (goes_on m s s' n)
  then show ?case by (cases k) (auto intro: finishes.goes_on)
next
  case (time_passes n s d)
  then show ?case by (cases k) (auto intro: finishes.time_passes)
next
  case (spawn_ends r s s' n)
  then show ?case by (cases k) (auto intro: finishes.spawn_ends)
next
  case (killed_exits s c s' n)
  then show ?case by (cases k) (auto intro: finishes.killed_exits)
qed

lemma proceeds: "proceed s = Some s' \<Longrightarrow> finishes cfg n s' \<Longrightarrow> finishes cfg (Suc n) s"
  by (rule finishes.goes_on [of Proceed]) simp_all

lemma sends:
  "main_message s = Some m \<Longrightarrow> finishes cfg n (main_sent (s\<lparr>sent := sent s @ [m]\<rparr>)) \<Longrightarrow> finishes cfg (Suc n) s"
  by (rule finishes.goes_on [of MainSent]) simp_all

lemma finishes_stop: "finishes cfg 1 (stop_tasks r s)"
proof (cases "wait_task s = Absent")
  case True
  then show ?thesis by (intro finishes.ended [of _ r]) (simp add: stop_tasks_def close_master_def)
next
  case False
  have "finishes cfg (Suc 0) (stop_tasks r s)"
    by (rule proceeds [OF _ finishes.ended [of "close_master r (stop_tasks r s)" r]])
       (use False in \<open>simp_all add: stop_tasks_def proceed_def close_master_def\<close>)
  then show ?thesis by simp
qed

lemma finishes_final:
  assumes "main s = AtFinalWait r" and "child s \<noteq> NoChild" and "child s = Alive \<longrightarrow> killed s"
  shows "finishes cfg 3 s"
proof -
  have exited: "finishes cfg 2 u" if "main u = AtFinalWait r" "child u = Exited c" for u c
    using proceeds [OF _ finishes_stop [of cfg r u], of u] that by (simp add: proceed_def numeral_2_eq_2)
  show ?thesis
  proof (cases "child s")
    case Alive
    have "finishes cfg (Suc 2) s"
      by (rule finishes.killed_exits [of _ cfg "-9", OF _ _ exited [of "s\<lparr>child := Exited (-9)\<rparr>" "-9"]])
         (use Alive assms in simp_all)
    then show ?thesis by simp
  next
    case (Exited c)
    then show ?thesis using exited [OF assms(1)] by (auto intro: finishes_mono)
  qed (use assms(2) in simp)
qed

lemma finishes_finally: "finishes cfg 3 (enter_finally r s)"
proof (cases "child s = Alive")
  case True
  then show ?thesis
    by (intro finishes_final [of _ r]) (simp_all add: enter_finally_def)
next
  case False
  then show ?thesis using finishes_stop [of cfg r s] by (auto simp: enter_finally_def intro: finishes_mono)
qed

lemma finishes_fail: "finishes cfg 4 (fail_main r s)"
proof (cases r)
  case (Error e)
  have "finishes cfg (Suc 3) (fail_main r s)"
    by (rule sends [of _ "SError (error_text e)"])
       (use Error finishes_finally in \<open>simp_all add: fail_main_def main_message_def main_sent_def\<close>)
  then show ?thesis by simp
qed (auto simp: fail_main_def intro!: finishes_mono [OF finishes_finally])

lemma finishes_exit: "main s = AtSendExit c \<Longrightarrow> finishes cfg 4 s"
  using sends [of s "SExit c" cfg 3] finishes_finally
  by (simp add: main_message_def main_sent_def numeral_3_eq_3 eval_nat_numeral)

lemma finishes_timeout: "main s = AtSendTimeout \<Longrightarrow> finishes cfg 5 s"
  using sends [of s "STimeout (ttl s)" cfg 4] finishes_exit
  by (simp add: main_message_def main_sent_def eval_nat_numeral)

lemma finishes_report: "finishes cfg 5 (report_end s)"
  by (cases "timed_out s") (simp_all add: report_end_def finishes_timeout finishes_mono [OF finishes_exit])

lemma finishes_drain:
  assumes "main s = AtDrain"
  shows "finishes cfg 7 s"
proof -
  let ?s = "s\<lparr>now := now s + expires s\<rparr>"
  obtain u where "proceed ?s = Some u" "finishes cfg 5 u"
    using assms finishes_report finishes_fail [THEN finishes_mono, where k = 5]
    by (cases "out_task s") (auto simp: proceed_def)
  then have "finishes cfg 6 ?s" using proceeds [of ?s u cfg 5] by simp
  then show ?thesis using finishes.time_passes [of cfg 6 s "expires s"] by simp
qed

lemma finishes_after_exit: "finishes cfg 7 (after_exit s)"
  by (auto simp: after_exit_def intro!: finishes_drain finishes_mono [OF finishes_report])

lemma finishes_reap:
  assumes "main s = AtReap" and "child s \<noteq> NoChild" and "child s = Alive \<longrightarrow> killed s"
  shows "finishes cfg 9 s"
proof -
  have exited: "finishes cfg 8 u" if "main u = AtReap" "child u = Exited c" for u c
    using proceeds [OF _ finishes_after_exit [of cfg u], of u] that by (simp add: proceed_def)
  show ?thesis
  proof (cases "child s")
    case Alive
    have "finishes cfg (Suc 8) s"
      by (rule finishes.killed_exits [of _ cfg "-9", OF _ _ exited [of "s\<lparr>child := Exited (-9)\<rparr>" "-9"]])
         (use Alive assms in simp_all)
    then show ?thesis by simp
  next
    case (Exited c)
    then show ?thesis using exited [OF assms(1)] by (auto intro: finishes_mono)
  qed (use assms(2) in simp)
qed

lemma finishes_wake:
  assumes "child s \<noteq> NoChild"
  shows "finishes cfg 9 (wake s)"
  unfolding wake_def Let_def
  using assms finishes_fail [THEN finishes_mono, where k = 9] finishes_after_exit [THEN finishes_mono, where k = 9]
  by (auto split: sum.split intro!: finishes_reap simp: kill_child_def)

definition killed_inv :: "session \<Rightarrow> bool" where
  "killed_inv s \<longleftrightarrow> child s = Alive \<and> (main s = AtReap \<or> (\<exists>r. main s = AtFinalWait r)) \<longrightarrow> killed s"

lemma killed_main:
  "killed_inv (enter_finally r s)" "killed_inv (fail_main x s)" "killed_inv (report_end s)"
  "killed_inv (after_exit s)" "killed_inv (wake s)" "killed_inv (stop_tasks r s)"
proof -
  show final: "killed_inv (enter_finally r s)" for r s
    by (simp add: killed_inv_def enter_finally_def stop_tasks_def close_master_def)
  show failed: "killed_inv (fail_main x s)" for x s
    using final by (cases x) (simp_all add: fail_main_def, simp add: killed_inv_def)
  show report: "killed_inv (report_end s)" for s
    by (simp add: killed_inv_def report_end_def)
  show after: "killed_inv (after_exit s)" for s
    using report [of s] by (auto simp: after_exit_def, simp add: killed_inv_def)
  show "killed_inv (stop_tasks r s)"
    by (simp add: killed_inv_def stop_tasks_def close_master_def)
  show "killed_inv (wake s)"
    unfolding wake_def Let_def
    by (auto split: sum.split intro: failed after) (simp add: killed_inv_def kill_child_def)
qed

lemma killed_frame:
  "killed_inv s \<Longrightarrow> main s' = main s \<Longrightarrow> killed s' = killed s \<Longrightarrow> (child s' = Alive \<Longrightarrow> child s = Alive) \<Longrightarrow>
     killed_inv s'"
  by (auto simp: killed_inv_def)

lemma killed_elsewhere: "main s \<noteq> AtReap \<Longrightarrow> \<forall>r. main s \<noteq> AtFinalWait r \<Longrightarrow> killed_inv s"
  by (simp add: killed_inv_def)

lemma killed_proceed: "proceed s = Some s' \<Longrightarrow> killed_inv s'"
  by (cases "main s")
     (auto simp: proceed_def close_master_def split: if_splits child.splits task.splits
        intro: killed_main killed_elsewhere)

lemma killed_cancel: "cancel_main s = Some s' \<Longrightarrow> killed_inv s'"
  by (cases "main s") (auto simp: cancel_main_def intro: killed_main killed_elsewhere)

lemma killed_act:
  assumes "session_act cfg m s = Some s'" and "killed_inv s"
  shows "killed_inv s'"
proof (cases m)
  case (Receive i)
  have "killed_inv (start_received cfg i s)"
    by (auto simp: start_received_def split: sum.split prod.split raised.split
        intro: killed_main killed_elsewhere)
  moreover have "killed_inv (input_received i s)"
    by (rule killed_frame [OF assms(2)])
       (auto simp: input_received_def resize_terminal_def split: sum.splits input_action.splits if_splits)
  ultimately show ?thesis using Receive assms(1) by (auto split: if_splits)
next
  case (SpawnDone r)
  with assms(1) show ?thesis
    by (auto simp: spawn_done_def Let_def split: main_pc.splits sum.splits intro: killed_main killed_elsewhere)
next
  case MainSent
  have "killed_inv (main_sent u)" for u
    by (auto simp: main_sent_def start_tasks_def split: main_pc.split intro: killed_main killed_elsewhere)
  with MainSent assms(1) show ?thesis by (auto split: option.splits)
next
  case (MainSendFails r)
  have "killed_inv (main_send_fails r s)"
    by (auto simp: main_send_fails_def split: main_pc.split intro: killed_main)
  with MainSendFails assms(1) show ?thesis by (auto split: option.splits)
next
  case Proceed
  with assms(1) show ?thesis by (auto intro: killed_proceed)
next
  case CancelMain
  with assms(1) show ?thesis by (auto intro: killed_cancel)
qed (rule killed_frame [OF assms(2)], use assms(1) in
      \<open>auto simp: terminal_read_def output_sent_def Let_def split: if_splits option.splits child.splits\<close>)+

lemma reachable_killed: "session_reachable cfg s \<Longrightarrow> killed_inv s"
  by (erule session_invariant) (simp add: killed_inv_def session_init_def, blast intro: killed_act)

lemma session_finishes:
  assumes "session_reachable cfg s"
  shows "finishes cfg 12 s"
proof -
  note clean = reachable_clean [OF assms] and killed = reachable_killed [OF assms]
  note fail = finishes_fail [THEN finishes_mono]
  have wait: "finishes cfg 11 u" if "main u = AtWait" "child u \<noteq> NoChild" for u
  proof -
    let ?u = "u\<lparr>now := now u + expires u\<rparr>"
    have "finishes cfg 10 ?u"
      using proceeds [of ?u "wake ?u" cfg 9] finishes_wake [of ?u] that by (simp add: proceed_def)
    then show ?thesis using finishes.time_passes [of cfg 10 u "expires u"] by simp
  qed
  show ?thesis
  proof (cases "main s")
    case AtReceive
    let ?s = "s\<lparr>now := now s + expires s\<rparr>"
    have "finishes cfg 11 ?s"
      using proceeds [of ?s _ cfg 10] fail [where k = 10] AtReceive by (simp add: proceed_def)
    then show ?thesis using finishes.time_passes [of cfg 11 s "expires s"] by simp
  next
    case (AtSpawn a)
    have "finishes cfg 11 (spawn_done (Inl (OSError [])) s)" by (simp add: spawn_done_def fail)
    with AtSpawn have "finishes cfg (Suc 11) s"
      by (intro finishes.spawn_ends [where r = "Inl (OSError [])"]) simp_all
    then show ?thesis by simp
  next
    case (AtSendStart c)
    then have "child s \<noteq> NoChild" using clean_stage(7) [OF clean] by simp
    with AtSendStart have "finishes cfg 11 (main_sent (s\<lparr>sent := sent s @ [SStart c]\<rparr>))"
      by (intro wait) (simp_all add: main_sent_def start_tasks_def)
    with AtSendStart have "finishes cfg (Suc 11) s"
      by (intro sends [of s "SStart c"]) (simp_all add: main_message_def)
    then show ?thesis by simp
  next
    case AtWait
    with clean_stage(2) [OF clean] show ?thesis
      by (auto intro: finishes_mono [OF wait] simp: working_def)
  next
    case AtReap
    with clean_stage(3) [OF clean] killed show ?thesis
      by (auto intro: finishes_mono [OF finishes_reap] simp: working_def killed_inv_def)
  next
    case AtDrain
    then show ?thesis by (auto intro: finishes_mono [OF finishes_drain])
  next
    case AtSendTimeout
    then show ?thesis by (auto intro: finishes_mono [OF finishes_timeout])
  next
    case (AtSendExit c)
    then show ?thesis by (auto intro: finishes_mono [OF finishes_exit])
  next
    case (AtSendError e)
    then have "finishes cfg (Suc 3) s"
      by (intro sends [of s "SError e"]) (simp_all add: main_message_def main_sent_def finishes_finally)
    then show ?thesis by (rule finishes_mono) simp
  next
    case (AtFinalWait r)
    with clean killed show ?thesis
      by (intro finishes_mono [OF finishes_final]) (auto simp: clean_inv_def stage_ok_def killed_inv_def)
  next
    case (AtGather r)
    have "finishes cfg (Suc 0) s"
      by (rule proceeds [of s "close_master r s"])
         (use AtGather finishes.ended in \<open>auto simp: proceed_def close_master_def\<close>)
    then show ?thesis by (rule finishes_mono) simp
  qed (rule finishes.ended)
qed



section \<open>Properties\<close>

text \<open>C2: however a session ends, its clean-up leaves nothing behind unless it is itself cancelled: the
  process has been reaped, no task runs and the master side of the terminal is closed; the slave side
  is closed too once the process was asked for.\<close>

theorem session_cleans_up:
  assumes "session_reachable cfg s" and "main s = Ended r" and "\<not> cut s"
  shows "child s \<noteq> Alive \<and> \<not> master_open s
    \<and> out_task s \<noteq> Pending \<and> in_task s \<noteq> Pending \<and> wait_task s \<noteq> Pending
    \<and> (slave_open s \<longrightarrow> child s = NoChild \<and> wait_task s = Absent)"
  using reachable_clean [OF assms(1)] assms(2,3)
  by (auto simp: clean_inv_def stage_ok_def tasks_stopped_def nothing_yet_def)

definition demo_session_config :: session_config where
  "demo_session_config = \<lparr>runtime = demo_settings, repr_of = (\<lambda>_. []), workspace_made = Inr (),
     terminal_made = Inr ()\<rparr>"

definition demo_start :: json where
  "demo_start = JObj [(''type'', JStr ''start''), (''command'', JStr ''sh -i''), (''ttl_seconds'', JInt 60)]"

text \<open>A session in which the output runs over its budget of four bytes and the process is killed.\<close>

definition demo_session_moves :: "session_move list" where
  "demo_session_moves =
     [Receive (Message demo_start), SpawnDone (Inr 42), MainSent,
      Receive (Message (JObj [(''type'', JStr ''input''), (''data'', JStr ''aGk='')])), WriteDone,
      ReadTerminal (Some (encode ''abc'')), OutputSent, ReadTerminal (Some (encode ''def'')), OutputSent,
      ReadTerminal (Some (encode ''g'')), OutputSent, Proceed, ChildExits (-9), Proceed, MainSent, Proceed]"

definition demo_session :: session where
  "demo_session = the (session_moves demo_session_config demo_session_moves (session_init 0))"

lemma demo_session_inputs:
  "start_fields (\<lambda>_. []) demo_settings demo_start = Inr (60, [''sh'', ''-i''], 24, 80)"
  "read_input (JObj [(''type'', JStr ''input''), (''data'', JStr ''aGk='')]) = Inr (Type ''hi'')"
  "output_message [byte_of_char CHR ''a'', byte_of_char CHR ''b'', byte_of_char CHR ''c''] = SOutput ''YWJj''"
  "output_message [byte_of_char CHR ''d''] = SOutput ''ZA==''"
  "maximum_output_bytes demo_settings = 4"
  by code_simp+

lemmas session_steps = received_def close_master_def stop_task_def stop_tasks_def enter_finally_def
  fail_main_def open_terminal_def resize_terminal_def start_received_def spawn_done_def start_tasks_def
  report_end_def after_exit_def kill_child_def wake_def proceed_def main_sent_def main_send_fails_def
  cancel_main_def terminal_read_def output_sent_def input_received_def Let_def

lemmas demo_session_simps = demo_session_def demo_session_moves_def demo_session_config_def
  session_init_def session_steps resize_terminal_def valid_size_def main_message_def report_end_def
  after_exit_def exit_status_def result_of_def demo_session_inputs session_keep_def

lemma demo_session_runs:
  "session_moves demo_session_config demo_session_moves (session_init 0) = Some demo_session"
  by (simp add: demo_session_simps)

lemma demo_session_reachable: "session_reachable demo_session_config demo_session"
  by (rule session_moves_reachable [OF demo_session_runs session_reachable.initial])

lemma demo_session_fields:
  "main demo_session = Ended None" "cut demo_session = False" "timed_out demo_session = False"
  "sent demo_session = [SStart 42, SOutput ''YWJj'', SOutput ''ZA=='', SError limit_exceeded, SExit 125]"
  "typed demo_session = ''hi''" "delivered demo_session = [encode ''abc'', encode ''def'', encode ''g'']"
  by (simp_all add: demo_session_simps)

theorem session_cleans_up_witness:
  "child demo_session \<noteq> Alive \<and> \<not> master_open demo_session"
  using session_cleans_up [OF demo_session_reachable demo_session_fields(1)] demo_session_fields(2) by simp

text \<open>C6: the messages of a session follow the protocol: a reachable state corresponds to the phase its
  messages lead to, and whatever moves follow, the new messages are a run of the automaton from there
  and the state reached corresponds to the phase reached.\<close>

theorem session_refines_protocol:
  assumes "session_reachable cfg s" and "session_moves cfg ms s = Some s'"
  shows "\<exists>p new q. run_protocol Opening (sent s) = Some p \<and> simulates s p
    \<and> sent s' = sent s @ new \<and> run_protocol p new = Some q \<and> simulates s' q"
proof -
  obtain p where p: "run_protocol Opening (sent s) = Some p" "simulates s p"
    using reachable_protocol [OF assms(1)] by blast
  with simulation_moves [OF assms(2,1) p(2)] show ?thesis by blast
qed

theorem session_refines_protocol_witness:
  "run_protocol Opening (sent demo_session) = Some Over"
proof -
  have "sent (session_init 0) = []" by (simp add: session_init_def)
  then have "\<exists>q. run_protocol Opening (sent demo_session) = Some q"
    using session_refines_protocol [OF session_reachable.initial demo_session_runs] by auto
  then show ?thesis by (simp add: demo_session_fields(4))
qed

text \<open>C23: the client never gets more output than the budget, and never anything but the terminal's bytes
  in order: the output messages decode to chunks of a prefix of what the terminal delivered. The task
  gives up on the limit only when more was delivered, and then all of the budget was sent.\<close>

theorem session_output_within_budget:
  assumes "session_reachable cfg s"
  shows "\<exists>cs. map (b64decode True) (output_texts (sent s)) = map (\<lambda>c. Inr (map char_of_byte c)) cs
    \<and> prefix (concat cs) (concat (delivered s))
    \<and> int (length (concat cs)) \<le> max 0 (maximum_output_bytes (runtime cfg))
    \<and> (out_task s = Returned ''output_limit'' \<longrightarrow>
         maximum_output_bytes (runtime cfg) < int (length (concat (delivered s)))
         \<and> concat cs = take (nat (maximum_output_bytes (runtime cfg))) (concat (delivered s)))"
proof -
  let ?max = "maximum_output_bytes (runtime cfg)"
  obtain cs where cs: "output_texts (sent s) = map out_text cs" "prefix (concat cs) (kept cfg s)"
      "out_task s = Returned ''output_limit'' \<longrightarrow> over_limit cfg s \<and> concat cs = kept cfg s"
    using reachable_output [OF assms] by (auto simp: output_inv_def)
  have "prefix (kept cfg s) (concat (delivered s))" by (simp add: kept_take take_is_prefix)
  then have "prefix (concat cs) (concat (delivered s))" using cs(2) prefix_order.trans by blast
  moreover have "int (length (concat cs)) \<le> max 0 ?max"
    using prefix_length_le [OF cs(2)] unfolding kept_take length_take by linarith
  ultimately show ?thesis using cs(1,3)
    by (intro exI [of _ cs]) (simp add: out_text_def b64_round_trip kept_take over_limit_def)
qed

theorem session_output_within_budget_witness:
  "\<exists>cs. map (b64decode True) (output_texts (sent demo_session)) = map (\<lambda>c. Inr (map char_of_byte c)) cs
    \<and> concat cs = take 4 (encode ''abcdefg'')"
proof -
  have "out_task demo_session = Returned ''output_limit''" "maximum_output_bytes (runtime demo_session_config) = 4"
    "concat (delivered demo_session) = encode ''abcdefg''"
    by (simp_all add: demo_session_simps)
  with session_output_within_budget [OF demo_session_reachable] show ?thesis
    by (metis nat_numeral)
qed

text \<open>C24: the exit message is the last one and tells how the session ended: 124 after a timeout message
  when the life time ran out, 130 when the client left, 125 when the output went over its limit, and
  otherwise the exit code of the process, which has been waited for.\<close>

theorem session_exit_code:
  assumes "session_reachable cfg s" and "SExit c \<in> set (sent s)"
  shows "last (sent s) = SExit c \<and> (\<exists>d. child s = Exited d)
    \<and> (if timed_out s then c = 124 \<and> STimeout (ttl s) \<in> set (sent s)
       else if input_result s = Some ''cancel'' \<or> input_result s = Some ''close'' then c = 130
       else if output_result s = Some ''output_limit'' then c = 125
       else child s = Exited c)"
proof -
  obtain p where "run_protocol Opening (sent s) = Some p" using reachable_protocol [OF assms(1)] by blast
  moreover have "last ms = SExit c" if "run_protocol q ms = Some p" "SExit c \<in> set ms" for q ms
    using that
  proof (induction ms arbitrary: q)
    case (Cons m ms)
    have over: "ns = []" if "run_protocol Over ns = Some p" for ns
      using that by (cases ns) simp_all
    obtain q' where q': "protocol q m = Some q'" "run_protocol q' ms = Some p"
      using Cons.prems(1) by (auto split: option.splits)
    show ?case
    proof (cases "m = SExit c")
      case True
      then have "q' = Over" using q'(1) by (cases q) (auto split: if_splits)
      with over q'(2) True show ?thesis by simp
    next
      case False
      with Cons.prems(2) have "SExit c \<in> set ms" by simp
      with Cons.IH [OF q'(2)] show ?thesis by auto
    qed
  qed simp
  ultimately have "last (sent s) = SExit c" using assms(2) by blast
  moreover have "exit_reported s c" using reachable_exit [OF assms(1)] assms(2) by (auto simp: exit_inv_def)
  ultimately show ?thesis by (auto simp: exit_reported_def exit_status_def)
qed

theorem session_exit_code_witness: "last (sent demo_session) = SExit 125"
  using session_exit_code [OF demo_session_reachable, of 125] by (simp add: demo_session_fields)

text \<open>C12: a session always can come to its end without the client and without the good will of the
  process: from every reachable state at most twelve moves of its own, of the clock and of a killed
  process finish it.\<close>

theorem session_terminates:
  assumes "session_reachable cfg s"
  shows "finishes cfg 12 s"
  by (rule session_finishes [OF assms])

theorem session_terminates_witness: "finishes demo_session_config 12 (session_init 5)"
  by (rule session_terminates [OF session_reachable.initial])

text \<open>C40: a start message with a size out of range is refused after the terminal was opened, and the
  slave side of the terminal is never closed.\<close>

theorem session_leaks_terminal:
  assumes "start_fields (repr_of cfg) (runtime cfg) start = Inr (life, arguments, rows, columns)"
    and "\<not> valid_size rows columns" and "workspace_made cfg = Inr ()" and "terminal_made cfg = Inr ()"
  shows "\<exists>s. session_moves cfg [Receive (Message start), MainSent] (session_init t) = Some s
    \<and> main s = Ended None \<and> slave_open s \<and> \<not> master_open s \<and> sent s = [SError resize_refused]"
  using assms
  by (simp add: session_init_def session_steps main_message_def error_text_def)

theorem session_leaks_terminal_witness:
  "\<exists>s. session_moves demo_session_config
      [Receive (Message (JObj [(''type'', JStr ''start''), (''command'', JStr ''sh''), (''rows'', JInt 0)])), MainSent]
      (session_init 0) = Some s \<and> main s = Ended None \<and> slave_open s"
proof -
  let ?start = "JObj [(''type'', JStr ''start''), (''command'', JStr ''sh''), (''rows'', JInt 0)]"
  have "start_fields (\<lambda>_. []) demo_settings ?start = Inr (300, [''sh''], 0, 80)" by code_simp
  then have "start_fields (repr_of demo_session_config) (runtime demo_session_config) ?start
      = Inr (300, [''sh''], 0, 80)" by (simp add: demo_session_config_def)
  moreover have "\<not> valid_size 0 80" "workspace_made demo_session_config = Inr ()" "terminal_made demo_session_config = Inr ()"
    by (simp_all add: demo_session_config_def valid_size_def)
  ultimately show ?thesis using session_leaks_terminal [of demo_session_config ?start] by blast
qed

text \<open>a cancellation that arrives while the clean-up waits for the process ends the session with the
  process not reaped, all three tasks running and the terminal open.\<close>

theorem session_cleanup_interrupted:
  "\<exists>s. session_reachable demo_session_config s \<and> main s = Ended (Some Cancelled) \<and> child s = Alive
     \<and> master_open s \<and> out_task s = Pending \<and> in_task s = Pending \<and> wait_task s = Pending"
proof -
  obtain s where "session_moves demo_session_config
      [Receive (Message demo_start), SpawnDone (Inr 42), MainSent, CancelMain, CancelMain] (session_init 0) = Some s"
    and "main s = Ended (Some Cancelled) \<and> child s = Alive \<and> master_open s
      \<and> out_task s = Pending \<and> in_task s = Pending \<and> wait_task s = Pending"
    by (simp add: demo_session_simps)
  then show ?thesis using session_moves_reachable session_reachable.initial by blast
qed

end
