(* ===== verification/Runtime_App.thy ===== *)
theory Runtime_App
  imports Runtime_Files Runtime_Stream Runtime_Interactive
begin

text \<open>
  \<open>services/xolis-runtime-python/src/xolis_runtime/app.py\<close>: the HTTP handlers over the operations of
  \<open>core.py\<close>, with the status code each exception becomes, and the body of the event stream. The web
  framework (routing, validation of the request body, writing the response) is outside; an exception that
  a handler does not turn into an \<open>HTTPException\<close> is its result as it is.
\<close>

section \<open>Errors as status codes\<close>

definition raise_http :: "(exn \<Rightarrow> nat option) \<Rightarrow> 'a result \<Rightarrow> 'a result" where
  "raise_http status r =
     (case r of
        Inr a \<Rightarrow> Inr a
      | Inl e \<Rightarrow> (case status e of None \<Rightarrow> Inl e | Some n \<Rightarrow> Inl (HTTPException n (error_text e))))"

definition command_status :: "exn \<Rightarrow> nat option" where
  "command_status e = (case e of InvalidCommand _ \<Rightarrow> Some 400 | _ \<Rightarrow> None)"

definition path_status :: "exn \<Rightarrow> nat option" where
  "path_status e = (case e of PathViolation _ \<Rightarrow> Some 403 | _ \<Rightarrow> None)"

definition upload_status :: "exn \<Rightarrow> nat option" where
  "upload_status e = (case e of PathViolation _ \<Rightarrow> Some 403 | UploadTooLarge _ \<Rightarrow> Some 413 | _ \<Rightarrow> None)"

definition list_status :: "exn \<Rightarrow> nat option" where
  "list_status e = (case e of PathViolation _ \<Rightarrow> Some 403 | FileNotFoundError _ \<Rightarrow> Some 404 | _ \<Rightarrow> None)"


section \<open>Commands\<close>

record execute_request =
  request_command :: string
  request_timeout :: int

record execute_response =
  body_stdout :: string
  body_stderr :: string
  body_exit_code :: int

definition app_settings :: "settings option \<Rightarrow> environ \<Rightarrow> settings result" where
  "app_settings given env = (case given of Some st \<Rightarrow> Inr st | None \<Rightarrow> from_environment env)"

text \<open>With the time at which the response is there, if ever.\<close>

definition execute_endpoint ::
  "settings \<Rightarrow> unit result \<Rightarrow> spawner \<Rightarrow> execute_request \<Rightarrow> (nat option \<times> execute_response) result" where
  "execute_endpoint st mkdir spawn request =
     bindE (raise_http command_status
              (execute_command st mkdir spawn (request_command request) (request_timeout request))) (\<lambda>c.
       Inr (finished_at c,
            \<lparr>body_stdout = res_stdout (result c), body_stderr = res_stderr (result c),
             body_exit_code = exit_code (result c)\<rparr>))"


section \<open>The event stream\<close>

definition event_name :: "command_event \<Rightarrow> string" where
  "event_name e =
     (case e of EvError _ \<Rightarrow> ''error'' | EvStart _ \<Rightarrow> ''start'' | EvOutput Stdout _ \<Rightarrow> ''stdout''
      | EvOutput Stderr _ \<Rightarrow> ''stderr'' | EvTimeout _ \<Rightarrow> ''timeout'' | EvExit _ \<Rightarrow> ''exit'')"

definition event_data :: "command_event \<Rightarrow> json" where
  "event_data e =
     (case e of
        EvError m \<Rightarrow> JObj [(''message'', JStr m)]
      | EvStart p \<Rightarrow> JObj [(''pid'', JInt p)]
      | EvOutput _ c \<Rightarrow> JObj [(''data'', JStr (chunk_text c))]
      | EvTimeout m \<Rightarrow> JObj [(''message'', JStr m)]
      | EvExit c \<Rightarrow> JObj [(''exit_code'', JInt c)])"

definition sse_frame :: "command_event \<Rightarrow> string" where
  "sse_frame e =
     ''event: '' @ event_name e @ [NL] @ ''data: '' @ json_compact (event_data e) @ [NL] @ [NL]"

datatype event_source = Listed "command_event list" | Generator stream_config stream_state

text \<open>\<open>await anext(events)\<close> on the fresh generator: it runs to its first \<open>yield\<close>.\<close>

definition first_event :: "stream_begin \<Rightarrow> (command_event \<times> event_source) result" where
  "first_event b =
     (case b of
        Immediately [] \<Rightarrow> Inl StopIteration
      | Immediately (e # es) \<Rightarrow> Inr (e, Listed es)
      | Running cfg s \<Rightarrow>
          (case go cfg s of None \<Rightarrow> Inl StopIteration
           | Some s' \<Rightarrow> Inr (last (Runtime_Stream.events s'), Generator cfg s')))"

definition stream_endpoint ::
  "settings \<Rightarrow> unit result \<Rightarrow> spawner \<Rightarrow> nat \<Rightarrow> execute_request \<Rightarrow> (command_event \<times> event_source) result" where
  "stream_endpoint st mkdir spawn t request =
     (case bindE (stream_command st mkdir spawn t (request_command request) (request_timeout request)) first_event of
        Inr r \<Rightarrow> Inr r
      | Inl (InvalidCommand m) \<Rightarrow> Inl (HTTPException 400 m)
      | Inl StopIteration \<Rightarrow> Inl (HTTPException 500 ''command stream ended unexpectedly'')
      | Inl e \<Rightarrow> Inl e)"

text \<open>The body of the response, an asynchronous generator over the events: not started, suspended at its
  \<open>yield\<close>, in \<open>anext\<close>, in \<open>aclose\<close>, or over. An exception or a cancellation at the \<open>yield\<close> (the client is
  gone) leads to \<open>aclose\<close>; one that comes before the body was started leaves its \<open>finally\<close> block out, so that
  nothing closes the event generator, which has already run to its first event. A cancellation in \<open>anext\<close> or
  in \<open>aclose\<close> reaches the event generator where it waits.\<close>

datatype body_pc = Unstarted | AtYield | InNext | InClose | Closed

record response =
  source :: stream_state
  event :: command_event
  frames :: "string list"
  body :: body_pc

datatype response_move = Pull | Inner move | Deliver | Exhausted | Abandon | CancelAwait | SourceClosed

definition background :: "move \<Rightarrow> bool" where
  "background m \<longleftrightarrow> (case m of Read _ \<Rightarrow> True | Runtime_Stream.Tick _ \<Rightarrow> True | ProcessExit _ \<Rightarrow> True | Dies \<Rightarrow> True | _ \<Rightarrow> False)"

fun response_act :: "stream_config \<Rightarrow> response_move \<Rightarrow> response \<Rightarrow> response option" where
  "response_act cfg Pull r =
     (case body r of
        Unstarted \<Rightarrow> Some (r\<lparr>frames := frames r @ [sse_frame (event r)], body := AtYield\<rparr>)
      | AtYield \<Rightarrow> map_option (\<lambda>g. r\<lparr>source := g, body := InNext\<rparr>) (perform cfg Resume (source r))
      | _ \<Rightarrow> None)"
| "response_act cfg (Inner m) r =
     (if background m \<or> m \<in> {Go, Expire} \<and> body r \<in> {InNext, InClose}
      then map_option (\<lambda>g. r\<lparr>source := g\<rparr>) (perform cfg m (source r)) else None)"
| "response_act cfg Deliver r =
     (if body r = InNext \<and> suspended (source r)
      then let e = last (Runtime_Stream.events (source r))
           in Some (r\<lparr>event := e, frames := frames r @ [sse_frame e], body := AtYield\<rparr>)
      else None)"
| "response_act cfg Exhausted r =
     (if body r = InNext \<and> pc (source r) = Finished then Some (r\<lparr>body := Closed\<rparr>) else None)"
| "response_act cfg Abandon r =
     (case body r of
        Unstarted \<Rightarrow> Some (r\<lparr>body := Closed\<rparr>)
      | AtYield \<Rightarrow> map_option (\<lambda>g. r\<lparr>source := g, body := InClose\<rparr>) (perform cfg Close (source r))
      | _ \<Rightarrow> None)"
| "response_act cfg CancelAwait r =
     (if body r \<in> {InNext, InClose}
      then map_option (\<lambda>g. r\<lparr>source := g, body := InClose\<rparr>) (perform cfg Cancel (source r)) else None)"
| "response_act cfg SourceClosed r =
     (if body r = InClose \<and> pc (source r) = Finished then Some (r\<lparr>body := Closed\<rparr>) else None)"

definition response_init :: "command_event \<Rightarrow> stream_state \<Rightarrow> response" where
  "response_init e g = \<lparr>source = g, event = e, frames = [], body = Unstarted\<rparr>"

inductive response_reachable ::
  "stream_config \<Rightarrow> (stream_name \<Rightarrow> bytes list) \<Rightarrow> response \<Rightarrow> bool" for cfg out where
  initial: "first_event (Running cfg (stream_init out t)) = Inr (e, Generator cfg g) \<Longrightarrow>
    response_reachable cfg out (response_init e g)"
| step: "response_reachable cfg out r \<Longrightarrow> response_act cfg m r = Some r' \<Longrightarrow> response_reachable cfg out r'"


section \<open>Files\<close>

definition upload_endpoint ::
  "settings \<Rightarrow> path \<Rightarrow> string \<Rightarrow> string \<Rightarrow> read_event list \<Rightarrow> fs \<Rightarrow> string result \<times> fs" where
  "upload_endpoint st cwd temp filename contents fs =
     (if filename = [] then (Inl (HTTPException 400 ''upload filename is required''), fs)
      else case upload_to st cwd temp filename contents fs of
        (r, fs') \<Rightarrow>
          (bindE (raise_http upload_status r) (\<lambda>_.
             Inr (''File '' @ [QUOTE] @ filename @ [QUOTE] @ '' uploaded successfully.'')), fs'))"

definition requested_file :: "settings \<Rightarrow> fs \<Rightarrow> path \<Rightarrow> string \<Rightarrow> path result" where
  "requested_file st fs cwd requested =
     raise_http path_status (resolve_workspace_path fs cwd (workspace st) requested)"

text \<open>The path of the \<open>FileResponse\<close>.\<close>

definition download_endpoint :: "settings \<Rightarrow> fs \<Rightarrow> path \<Rightarrow> string \<Rightarrow> path result" where
  "download_endpoint st fs cwd requested =
     bindE (requested_file st fs cwd requested) (\<lambda>file_path.
       if \<not> is_file fs file_path then Inl (HTTPException 404 ''file not found'') else Inr file_path)"

definition list_endpoint ::
  "settings \<Rightarrow> 'time stat_env \<Rightarrow> fs \<Rightarrow> path \<Rightarrow> string \<Rightarrow> 'time dir_entry list result" where
  "list_endpoint st env fs cwd requested = raise_http list_status (list_directory st env fs cwd requested)"

text \<open>\<open>Path.exists\<close> on a resolved path: a link left in it is a cycle, where \<open>stat\<close> fails.\<close>

definition exists_endpoint :: "settings \<Rightarrow> fs \<Rightarrow> path \<Rightarrow> string \<Rightarrow> (string \<times> bool) result" where
  "exists_endpoint st fs cwd requested =
     bindE (requested_file st fs cwd requested) (\<lambda>p. Inr (requested, is_file fs p \<or> is_dir fs p))"


section \<open>Reading the stream\<close>

text \<open>A reader of server-sent events, after the standard: fields up to an empty line make an event, and an
  event without data is dropped.\<close>

fun sse_read :: "string \<Rightarrow> string \<Rightarrow> string list \<Rightarrow> (string \<times> string) list" where
  "sse_read name data [] = []"
| "sse_read name data (l # ls) =
     (if l = [] then (if data = [] then [] else [(name, data)]) @ sse_read [] [] ls
      else if startswith l ''event: '' then sse_read (drop 7 l) data ls
      else if startswith l ''data: '' then sse_read name (data @ drop 6 l) ls
      else sse_read name data ls)"

definition sse_events :: "string \<Rightarrow> (string \<times> string) list" where
  "sse_events text = sse_read [] [] (split_on NL text)"

definition decoded_events :: "string \<Rightarrow> (string \<times> json result) list" where
  "decoded_events text = map (\<lambda>(n, d). (n, json_loads d)) (sse_events text)"

definition as_received :: "command_event \<Rightarrow> string \<times> json result" where
  "as_received e = (event_name e, Inr (event_data e))"

definition event_ok :: "command_event \<Rightarrow> bool" where
  "event_ok e \<longleftrightarrow>
     (case e of EvError m \<Rightarrow> well_formed (encode m) | EvTimeout m \<Rightarrow> well_formed (encode m) | _ \<Rightarrow> True)"

lemma code_of_NL: "code_of NL = 10"
  by code_simp

lemma hex_digit_line: "n < 16 \<Longrightarrow> NL \<noteq> hex_digit n"
proof
  assume n: "n < 16" and "NL = hex_digit n"
  then have "code_of (hex_digit n) = 10" by (metis code_of_NL)
  with n show False by (auto simp: hex_digit_def code_of_def split: if_splits)
qed

lemma u_escape_line: "NL \<notin> set (u_escape n)"
proof -
  have "NL \<noteq> BACKSLASH" "NL \<noteq> CHR ''u''" by code_simp+
  then show ?thesis by (simp add: u_escape_def hex_digit_line)
qed

lemma escape_cp_line:
  assumes "is_cp p"
  shows "NL \<notin> set (escape_cp p)"
proof -
  have short: "map_of short_escapes c \<noteq> Some NL" for c
  proof
    assume "map_of short_escapes c = Some NL"
    then have "NL \<in> set (map snd short_escapes)" by (force dest: map_of_SomeD)
    moreover have "NL \<notin> set (map snd short_escapes)" by code_simp
    ultimately show False by metis
  qed
  have slash: "BACKSLASH \<noteq> NL" by code_simp
  have plain: "NL \<notin> set p" if "32 \<le> cp_value p" "cp_value p \<le> 126"
    using assms
  proof (cases rule: cp_shapes)
    case (one a)
    with that show ?thesis using code_of_NL by auto
  next
    case (two a b)
    with assms that cp_bytes_value2 [of a b] show ?thesis by simp
  next
    case (three a b c)
    with assms that cp_bytes_value3 [of a b c] show ?thesis by simp
  next
    case (four a b c d)
    with assms that cp_bytes_value4 [of a b c d] show ?thesis by simp
  qed
  show ?thesis
    unfolding escape_cp_def Let_def using short slash plain u_escape_line by auto
qed

lemma json_string_line: "well_formed (encode s) \<Longrightarrow> NL \<notin> set (json_string s)"
proof -
  assume "well_formed (encode s)"
  then have "NL \<notin> set (escape_cp p)" if "p \<in> set (code_points s)" for p
    using that code_points_are_cps escape_cp_line by blast
  moreover have "DQUOTE \<noteq> NL" by code_simp
  ultimately show ?thesis by (auto simp: json_string_def)
qed

lemma str_of_int_line: "NL \<notin> set (str_of_int i)"
proof
  assume "NL \<in> set (str_of_int i)"
  then have "is_digit NL \<or> NL = CHR ''-''" by (rule str_of_int_chars)
  moreover have "\<not> (is_digit NL \<or> NL = CHR ''-'')" by code_simp
  ultimately show False by simp
qed

lemma event_data_ok: "event_ok e \<Longrightarrow> json_ok (event_data e)"
proof -
  have names: "well_formed (encode ''message'')" "well_formed (encode ''pid'')" "well_formed (encode ''data'')"
      "well_formed (encode ''exit_code'')"
    by (rule ascii_well_formed; code_simp)+
  assume "event_ok e"
  with names show ?thesis
    by (cases e) (simp_all add: event_data_def event_ok_def chunk_text_def well_formed_decode_replace)
qed

lemma event_data_line:
  assumes "event_ok e"
  shows "NL \<notin> set (json_compact (event_data e))"
proof -
  have names: "NL \<notin> set (json_string ''message'')" "NL \<notin> set (json_string ''pid'')"
      "NL \<notin> set (json_string ''data'')" "NL \<notin> set (json_string ''exit_code'')"
    by code_simp+
  have "CHR ''{'' \<noteq> NL" "CHR ''}'' \<noteq> NL" "CHR '':'' \<noteq> NL" by code_simp+
  with assms names show ?thesis
    by (cases e)
       (auto simp: event_data_def event_ok_def json_compact_def chunk_text_def str_of_int_line
          json_string_line json_string_line [OF well_formed_decode_replace])
qed

lemma event_name_line: "NL \<notin> set (event_name e)"
proof -
  have "NL \<notin> set ''error''" "NL \<notin> set ''start''" "NL \<notin> set ''stdout''" "NL \<notin> set ''stderr''"
    "NL \<notin> set ''timeout''" "NL \<notin> set ''exit''" by code_simp+
  then show ?thesis
    by (cases e) (simp_all add: event_name_def split: stream_name.split del: list.set)
qed

lemma split_two_lines:
  "NL \<notin> set a \<Longrightarrow> NL \<notin> set b \<Longrightarrow> split_on NL (a @ NL # b @ NL # NL # rest) = a # b # [] # split_on NL rest"
  by (simp add: split_on_append)

lemma sse_read_frame:
  assumes "event_ok e"
  shows "sse_read [] [] (split_on NL (sse_frame e @ rest))
    = (event_name e, json_compact (event_data e)) # sse_read [] [] (split_on NL rest)"
proof -
  have prefixes: "NL \<notin> set ''event: ''" "NL \<notin> set ''data: ''" by code_simp+
  let ?l1 = "''event: '' @ event_name e" and ?l2 = "''data: '' @ json_compact (event_data e)"
  have lines: "NL \<notin> set ?l1" "NL \<notin> set ?l2"
    using prefixes event_name_line event_data_line [OF assms] unfolding set_append by blast+
  have data: "json_compact (event_data e) \<noteq> []"
    by (cases e) (simp_all add: event_data_def json_compact_def)
  have "sse_frame e @ rest = ?l1 @ NL # ?l2 @ NL # NL # rest" by (simp add: sse_frame_def)
  with split_two_lines [OF lines] have "split_on NL (sse_frame e @ rest) = ?l1 # ?l2 # [] # split_on NL rest"
    by (simp only:)
  with data show ?thesis by simp
qed

lemma sse_events_frames:
  "\<forall>e \<in> set es. event_ok e \<Longrightarrow>
     sse_events (concat (map sse_frame es)) = map (\<lambda>e. (event_name e, json_compact (event_data e))) es"
  unfolding sse_events_def by (induction es) (simp_all add: sse_read_frame)

lemma decoded_frames:
  "\<forall>e \<in> set es. event_ok e \<Longrightarrow> decoded_events (concat (map sse_frame es)) = map as_received es"
  by (simp add: decoded_events_def sse_events_frames as_received_def json_loads_compact event_data_ok)


section \<open>The body follows the generator\<close>

definition quiet_step :: "stream_state \<Rightarrow> stream_state \<Rightarrow> bool" where
  "quiet_step g g' \<longleftrightarrow> Runtime_Stream.events g' = Runtime_Stream.events g \<and> (suspended g' \<longrightarrow> suspended g)"

definition yielding_step :: "stream_state \<Rightarrow> stream_state \<Rightarrow> bool" where
  "yielding_step g g' \<longleftrightarrow> (\<exists>e. Runtime_Stream.events g' = Runtime_Stream.events g @ [e]) \<and> suspended g'"

lemma go_events:
  assumes "perform cfg m g = Some g'" and "m = Go \<or> m = Expire"
  shows "\<not> suspended g \<and> (quiet_step g g' \<or> yielding_step g g')"
  using assms
  by (auto simp: go_def expire_def quiet_step_def yielding_step_def stream_simps take_item_def
      split: if_splits pc.splits list.splits option.splits)

lemma background_events:
  assumes "perform cfg m g = Some g'" and "background m"
  shows "Runtime_Stream.events g' = Runtime_Stream.events g \<and> suspended g' = suspended g \<and> pc g' = pc g"
  using assms by (cases m) (auto simp: background_def split: if_splits list.splits)

definition in_cleanup :: "stream_state \<Rightarrow> bool" where
  "in_cleanup g \<longleftrightarrow> \<not> suspended g \<and> pc g \<in> {AtFinally, FinalWait, FinalGather, Finished}"

lemma closing_events:
  assumes "perform cfg m g = Some g'" and "in_cleanup g" and "m = Go \<or> m = Expire \<or> background m"
  shows "Runtime_Stream.events g' = Runtime_Stream.events g \<and> in_cleanup g'"
proof (cases "background m")
  case True
  with background_events [OF assms(1)] assms(2,3) show ?thesis by (auto simp: in_cleanup_def)
next
  case False
  with assms show ?thesis by (auto simp: in_cleanup_def go_def expire_def stream_simps split: if_splits)
qed

lemma cancel_events:
  assumes "perform cfg Cancel g = Some g'"
  shows "Runtime_Stream.events g' = Runtime_Stream.events g \<and> \<not> suspended g \<and> in_cleanup g'"
  using assms by (auto simp: cancelled_def in_cleanup_def split: if_splits)

text \<open>The frames sent and the events yielded.\<close>

definition body_inv :: "response \<Rightarrow> bool" where
  "body_inv r \<longleftrightarrow>
     (let evs = Runtime_Stream.events (source r) in
      case body r of
        Unstarted \<Rightarrow> frames r = [] \<and> suspended (source r) \<and> evs = [event r]
      | AtYield \<Rightarrow> frames r = map sse_frame evs \<and> suspended (source r)
      | InNext \<Rightarrow> (if suspended (source r) then evs \<noteq> [] \<and> frames r = map sse_frame (butlast evs)
                   else frames r = map sse_frame evs)
      | InClose \<Rightarrow> frames r = map sse_frame evs \<and> in_cleanup (source r)
      | Closed \<Rightarrow> frames r = [] \<and> evs = [event r]
                \<or> frames r = map sse_frame evs \<and> pc (source r) = Finished \<and> \<not> suspended (source r))"

lemma body_act:
  assumes "response_act cfg m r = Some r'" and "body_inv r" and "stopped_inv (source r)"
  shows "body_inv r'"
proof (cases m)
  case Pull
  with assms show ?thesis
    by (auto simp: body_inv_def Let_def split: body_pc.splits if_splits)
next
  case (Inner k)
  then obtain g where g: "perform cfg k (source r) = Some g" "r' = r\<lparr>source := g\<rparr>"
      and k: "background k \<or> (k = Go \<or> k = Expire) \<and> (body r = InNext \<or> body r = InClose)"
    using assms(1) by (auto split: if_splits)
  show ?thesis
  proof (cases "background k")
    case True
    with background_events [OF g(1)] assms(2) g(2) show ?thesis
      by (auto simp: body_inv_def in_cleanup_def Let_def split: body_pc.splits)
  next
    case False
    with k have go: "k = Go \<or> k = Expire" by auto
    from False k consider "body r = InNext" | "body r = InClose" by auto
    then show ?thesis
    proof cases
      case 1
      with go_events [OF g(1) go] assms(2) g(2) show ?thesis
        by (auto simp: body_inv_def Let_def quiet_step_def yielding_step_def)
    next
      case 2
      with closing_events [OF g(1)] go assms(2) g(2) show ?thesis
        by (auto simp: body_inv_def Let_def)
    qed
  qed
next
  case Deliver
  then have r: "body r = InNext" "suspended (source r)"
      and r': "r' = r\<lparr>event := last (Runtime_Stream.events (source r)),
        frames := frames r @ [sse_frame (last (Runtime_Stream.events (source r)))], body := AtYield\<rparr>"
    using assms(1) by (auto simp: Let_def split: if_splits)
  let ?evs = "Runtime_Stream.events (source r)"
  have "?evs \<noteq> []" and f: "frames r = map sse_frame (butlast ?evs)"
    using assms(2) r by (auto simp: body_inv_def Let_def)
  then have "map sse_frame ?evs = frames r @ [sse_frame (last ?evs)]"
    by (metis append_butlast_last_id list.simps(8) list.simps(9) map_append)
  with r r' show ?thesis by (simp add: body_inv_def)
next
  case Abandon
  with assms show ?thesis
    by (auto simp: body_inv_def in_cleanup_def Let_def split: body_pc.splits if_splits)
next
  case CancelAwait
  then obtain g where g: "perform cfg Cancel (source r) = Some g" "r' = r\<lparr>source := g, body := InClose\<rparr>"
      "body r = InNext \<or> body r = InClose"
    using assms(1) by (auto simp del: perform.simps split: if_splits)
  with cancel_events [OF g(1)] assms(2) show ?thesis by (auto simp: body_inv_def Let_def)
next
  case Exhausted
  with assms show ?thesis by (auto simp: body_inv_def stopped_inv_def Let_def split: if_splits)
next
  case SourceClosed
  with assms show ?thesis by (auto simp: body_inv_def in_cleanup_def Let_def split: if_splits)
qed

lemma first_event_start:
  assumes "first_event (Running cfg (stream_init out t)) = Inr (e, Generator cfg g)"
  shows "Runtime_Stream.events g = [e]" and "suspended g" and "stream_reachable cfg out g"
proof -
  have go: "go cfg (stream_init out t) = Some (yield (EvStart (process_id cfg)) AtLoop (stream_init out t))"
    by (simp add: go_def stream_init_def)
  with assms have g: "g = yield (EvStart (process_id cfg)) AtLoop (stream_init out t)" "e = last (Runtime_Stream.events g)"
    by (auto simp: first_event_def)
  then show "Runtime_Stream.events g = [e]" "suspended g" by (simp_all add: yield_def stream_init_def)
  show "stream_reachable cfg out g"
    using stream_reachable.step [OF stream_reachable.initial go_step [OF go]] g(1) by simp
qed

lemma response_invariant:
  assumes "response_reachable cfg out r"
  shows "body_inv r \<and> stream_reachable cfg out (source r)"
  using assms
proof (induction rule: response_reachable.induct)
  case (initial t e g)
  then show ?case using first_event_start [OF initial]
    by (simp add: body_inv_def response_init_def Let_def)
next
  case (step r m r')
  have "source r' = source r \<or> (\<exists>k. perform cfg k (source r) = Some (source r'))"
    using step(2) by (cases m) (auto simp: Let_def simp del: perform.simps split: body_pc.splits if_splits)
  then have "stream_reachable cfg out (source r')"
    using step.IH perform_step stream_reachable.step by metis
  with body_act [OF step(2)] step.IH reachable_stopped show ?case by blast
qed

lemma ascii_text: "\<forall>c \<in> set s. code_of c < 128 \<Longrightarrow> well_formed (encode s)"
proof (rule ascii_well_formed)
  assume "\<forall>c \<in> set s. code_of c < 128"
  moreover have "byte_of_char c < 0x80 \<longleftrightarrow> code_of c < 128" for c
    by (simp add: byte_le_iff)
  ultimately show "\<forall>b \<in> set (encode s). b < 0x80" by (auto simp: encode_def)
qed

lemma timeout_message_ok: "well_formed (encode (timeout_message t))"
proof (rule ascii_text)
  have "\<forall>c \<in> set ''command timed out after ''. code_of c < 128" "\<forall>c \<in> set '' seconds''. code_of c < 128"
    by code_simp+
  moreover have "code_of c < 128" if "c \<in> set (str_of_int t)" for c
  proof -
    have "code_of (CHR ''-'') < 128" by code_simp
    with str_of_int_chars [OF that] is_digit_ascii [of c] show ?thesis by (auto simp: code_of_def)
  qed
  ultimately show "\<forall>c \<in> set (timeout_message t). code_of c < 128"
    unfolding timeout_message_def set_append by blast
qed

lemma stream_events_ok:
  assumes "stream_reachable cfg out s"
  shows "\<forall>e \<in> set (Runtime_Stream.events s). event_ok e"
  using assms
proof (rule stream_invariant)
  show "\<forall>e \<in> set (Runtime_Stream.events (stream_init out t)). event_ok e" for t
    by (simp add: stream_init_def)
next
  fix s s' assume "stream_step cfg s s'" "\<forall>e \<in> set (Runtime_Stream.events s). event_ok e"
  then show "\<forall>e \<in> set (Runtime_Stream.events s'). event_ok e"
    by (induction rule: stream_step.induct)
       (auto simp: stream_simps take_item_def event_ok_def timeout_message_ok)
qed


section \<open>Properties\<close>

text \<open>C3: what a client reads from the response is the event sequence of the generator: at every moment,
  whatever the server, the process and the clock do, the frames sent decode to its events but for the one
  about to be sent. A response that has sent a frame only closes with every event delivered and the
  generator finished, and then the process is reaped and the readers are stopped, unless a cancellation cut
  the generator's clean-up short, which happens only after its kill. (A response that is abandoned before
  its first frame closes nothing.)\<close>

theorem response_delivers_events:
  assumes "response_reachable cfg out r"
  shows "(\<exists>rest. length rest \<le> 1
       \<and> decoded_events (concat (frames r)) @ rest = map as_received (Runtime_Stream.events (source r)))
    \<and> (body r = Closed \<and> frames r \<noteq> [] \<longrightarrow>
         decoded_events (concat (frames r)) = map as_received (Runtime_Stream.events (source r))
         \<and> pc (source r) = Finished
         \<and> (if stream_state.cut (source r) then group_killed (source r)
             else code (source r) \<noteq> None \<and> \<not> reading (source r) Stdout \<and> \<not> reading (source r) Stderr))"
proof -
  let ?evs = "Runtime_Stream.events (source r)"
  have inv: "body_inv r" and reach: "stream_reachable cfg out (source r)"
    using response_invariant [OF assms] by auto
  have decoded: "decoded_events (concat (map sse_frame es)) = map as_received es" if "set es \<subseteq> set ?evs" for es
    using that stream_events_ok [OF reach] by (intro decoded_frames) blast
  have "frames r = map sse_frame ?evs \<or> ?evs \<noteq> [] \<and> frames r = map sse_frame (butlast ?evs)"
    using inv by (auto simp: body_inv_def Let_def split: body_pc.splits if_splits)
  then have first: "\<exists>rest. length rest \<le> 1 \<and> decoded_events (concat (frames r)) @ rest = map as_received ?evs"
  proof
    assume "frames r = map sse_frame ?evs"
    with decoded [of ?evs] show ?thesis by (intro exI [of _ "[]"]) simp
  next
    assume f: "?evs \<noteq> [] \<and> frames r = map sse_frame (butlast ?evs)"
    then have "decoded_events (concat (frames r)) @ [as_received (last ?evs)] = map as_received ?evs"
      using decoded [of "butlast ?evs"] by (metis append_butlast_last_id in_set_butlastD list.simps(8,9) map_append subsetI)
    then show ?thesis by (intro exI [of _ "[as_received (last ?evs)]"]) simp
  qed
  have "frames r = map sse_frame ?evs \<and> pc (source r) = Finished" if "body r = Closed" "frames r \<noteq> []"
    using inv that by (auto simp: body_inv_def Let_def)
  with decoded [of ?evs] first reachable_stopped [OF reach] show ?thesis
    by (auto simp: stopped_inv_def)
qed

fun response_acts :: "stream_config \<Rightarrow> response_move list \<Rightarrow> response \<Rightarrow> response option" where
  "response_acts cfg [] r = Some r"
| "response_acts cfg (m # ms) r =
     (case response_act cfg m r of None \<Rightarrow> None | Some r' \<Rightarrow> response_acts cfg ms r')"

lemma response_acts_reachable:
  "response_reachable cfg out r \<Longrightarrow> response_acts cfg ms r = Some r' \<Longrightarrow> response_reachable cfg out r'"
  by (induction cfg ms r rule: response_acts.induct)
     (auto split: option.splits intro: response_reachable.step)

definition demo_first :: stream_state where
  "demo_first = yield (EvStart 7) AtLoop (stream_init demo_output 0)"

lemma demo_first_event:
  "first_event (Running demo_config (stream_init demo_output 0)) = Inr (EvStart 7, Generator demo_config demo_first)"
  by (simp add: first_event_def go_def stream_init_def yield_def demo_first_def demo_config_def)

definition demo_abandoned :: "response_move list" where
  "demo_abandoned =
     [Pull, Inner (Read Stdout), Pull, Inner Go, Inner Go, Deliver, Abandon, Inner Go,
      Inner Dies, Inner Go, Inner Go, SourceClosed]"

definition demo_response :: response where
  "demo_response = the (response_acts demo_config demo_abandoned (response_init (EvStart 7) demo_first))"

lemma demo_response_run:
  "response_acts demo_config demo_abandoned (response_init (EvStart 7) demo_first) = Some demo_response"
  "Runtime_Stream.events (source demo_response) = [EvStart 7, EvOutput Stdout (encode ''abc'')]"
  "body demo_response = Closed" "frames demo_response \<noteq> []" "stream_state.cut (source demo_response) = False"
  by (simp_all add: demo_response_def demo_abandoned_def demo_first_def response_init_def background_def demo_simps)

theorem response_delivers_events_witness:
  "decoded_events (concat (frames demo_response))
     = map as_received [EvStart 7, EvOutput Stdout (encode ''abc'')]
   \<and> code (source demo_response) \<noteq> None \<and> \<not> reading (source demo_response) Stdout"
proof -
  have "response_reachable demo_config demo_output (response_init (EvStart 7) demo_first)"
    by (rule response_reachable.initial [OF demo_first_event])
  then have "response_reachable demo_config demo_output demo_response"
    using demo_response_run(1) by (rule response_acts_reachable)
  from response_delivers_events [OF this] demo_response_run(2-) show ?thesis by simp
qed


text \<open>The endpoint fetches the first event, and with it starts the process, before the body exists: a response
  that is abandoned then closes nothing, and the process and both readers go on.\<close>

lemma response_abandoned_unstarted:
  "\<exists>r. response_reachable demo_config demo_output r \<and> body r = Closed \<and> frames r = []
     \<and> suspended (source r) \<and> code (source r) = None \<and> \<not> group_killed (source r)
     \<and> reading (source r) Stdout \<and> reading (source r) Stderr"
proof -
  let ?r = "response_init (EvStart 7) demo_first"
  have "response_reachable demo_config demo_output ?r"
    by (rule response_reachable.initial [OF demo_first_event])
  moreover have "response_act demo_config Abandon ?r = Some (?r\<lparr>body := Closed\<rparr>)"
    by (simp add: response_init_def)
  ultimately have "response_reachable demo_config demo_output (?r\<lparr>body := Closed\<rparr>)"
    by (rule response_reachable.step)
  then show ?thesis
    by (intro exI [of _ "?r\<lparr>body := Closed\<rparr>"]) (simp add: response_init_def demo_first_def yield_def stream_init_def)
qed


section \<open>What was uploaded can be downloaded\<close>

lemma node_at_only_dirs_links:
  assumes "upload_post fs p content fs'" and "link_at fs p = None"
  shows "link_at fs' = link_at fs"
proof
  fix q
  show "link_at fs' q = link_at fs q"
  proof (cases "q = p")
    case True
    with assms show ?thesis by (simp add: upload_post_def link_at_def)
  next
    case False
    with assms(1) have "node_at fs' q = node_at fs q \<or> node_at fs q = None \<and> node_at fs' q = Some Dir"
      by (auto simp: upload_post_def)
    then show ?thesis by (auto simp: link_at_def)
  qed
qed

lemma resolve_workspace_path_same_links:
  assumes "link_at fs' = link_at fs"
  shows "resolve_workspace_path fs' cwd ws requested = resolve_workspace_path fs cwd ws requested"
proof -
  have "realpath fs' d p = realpath fs d p" for d p
    by (simp only: realpath_def realpath_run_def realpath_loop_cong [OF assms])
  then show ?thesis by (simp only: resolve_workspace_path_def)
qed

text \<open>C17: an upload the server answers with success can be downloaded: under the name it was uploaded
  with, \<open>/exists\<close> says so and \<open>/download\<close> serves the file at the resolved path, which holds the bytes that
  were read from the request, within the upload limit. (Unless the name runs into a cycle of links.)\<close>

theorem upload_then_download:
  assumes "upload_endpoint st cwd temp filename contents fs = (Inr m, fs')"
    and "link_free fs cwd"
    and "\<not> meets_cycle fs cwd (join_path (realpath fs cwd (workspace st)) (parse_path filename))"
  shows "\<exists>p. download_endpoint st fs' cwd filename = Inr p
    \<and> node_at fs' p = Some (File (upload_bytes contents))
    \<and> int (length (upload_bytes contents)) \<le> max 0 (maximum_upload_bytes st)
    \<and> exists_endpoint st fs' cwd filename = Inr (filename, True)"
proof -
  obtain p where up: "upload_to st cwd temp filename contents fs = (Inr p, fs')"
    using assms(1)
    by (auto simp: upload_endpoint_def raise_http_def bindE_def split: if_splits prod.splits sum.splits option.splits)
  from upload_to_cases [OF up] have res: "resolve_workspace_path fs cwd (workspace st) filename = Inr p"
    and post: "upload_post fs p (upload_bytes contents) fs'"
    and small: "int (length (upload_bytes contents)) \<le> max 0 (maximum_upload_bytes st)" by auto
  have "link_free fs p"
    using resolve_workspace_path_cases(4) [OF res] realpath_link_free [OF assms(2,3)] by simp
  then have "link_at fs p = None" by (simp add: link_free_def)
  with post have same: "link_at fs' = link_at fs" by (rule node_at_only_dirs_links)
  have res': "resolve_workspace_path fs' cwd (workspace st) filename = Inr p"
    using res by (simp only: resolve_workspace_path_same_links [OF same])
  have node: "node_at fs' p = Some (File (upload_bytes contents))"
    using post by (simp add: upload_post_def)
  then have here: "is_file fs' p" by (simp add: is_file_def)
  have found: "requested_file st fs' cwd filename = Inr p"
    by (simp add: requested_file_def res' raise_http_def)
  show ?thesis
    using node small here by (simp add: download_endpoint_def exists_endpoint_def found)
qed

theorem upload_then_download_witness:
  "\<exists>p fs'. upload_endpoint demo_settings [] ''tmp1'' ''d/new'' [Chunk (encode ''hey'')] demo_fs
       = (Inr (''File '' @ [QUOTE] @ ''d/new'' @ [QUOTE] @ '' uploaded successfully.''), fs')
     \<and> download_endpoint demo_settings fs' [] ''d/new'' = Inr p \<and> node_at fs' p = Some (File (encode ''hey''))"
proof -
  let ?u = "upload_endpoint demo_settings [] ''tmp1'' ''d/new'' [Chunk (encode ''hey'')] demo_fs"
  let ?m = "''File '' @ [QUOTE] @ ''d/new'' @ [QUOTE] @ '' uploaded successfully.''"
  have ok: "?u = (Inr ?m, snd ?u)" by code_simp
  have free: "\<not> meets_cycle demo_fs []
      (join_path (realpath demo_fs [] (workspace demo_settings)) (parse_path ''d/new''))" by code_simp
  have "upload_bytes [Chunk (encode ''hey'')] = encode ''hey''" by code_simp
  with upload_then_download [OF ok _ free] ok show ?thesis by auto
qed

end
