(* ===== verification/Aws_Cost.thy ===== *)
theory Aws_Cost
  imports World Py_Float "HOL-Library.List_Lexorder" "HOL-Library.Char_ord"
begin

text \<open>
  \<open>tools/xolis_aws_cost.py\<close>: the inventory of the AWS resources and the estimate of their storage cost.
  Every question to AWS is a command of its command-line tool, so an inventory is a procedure over the
  calls of \<open>World\<close>. The values that come back are JSON values, read with the operations the code uses and
  the exceptions they raise on another shape. The dicts of the report are records. Sums of floats are those
  of Python 3.11, which the tools ask for, from left to right. Not modelled: an argument with a null
  character, which \<open>subprocess\<close> refuses, and the parser of the command line.
\<close>

section \<open>The command-line tool\<close>

record aws_cli =
  profile :: string
  region :: string

text \<open>The machine: the commands it runs, the executables it has and the date in UTC, as the number of days
  since the first of January of the year 1, which is day 1.\<close>

record cost_machine =
  commands :: environment
  on_path :: "string \<Rightarrow> bool"
  today :: "call list \<Rightarrow> nat"

definition cli_command :: "aws_cli \<Rightarrow> string list \<Rightarrow> string list" where
  "cli_command c arguments =
     [''aws''] @ (if profile c \<noteq> [] then [''--profile'', profile c] else [])
       @ (if region c \<noteq> [] then [''--region'', region c] else []) @ arguments"

definition is_dict :: "json \<Rightarrow> bool" where
  "is_dict v \<longleftrightarrow> (case v of JObj _ \<Rightarrow> True | _ \<Rightarrow> False)"

definition decode_output :: "string list \<Rightarrow> int \<times> string \<times> string \<Rightarrow> json result" where
  "decode_output command = (\<lambda>(rc, out, err).
     if rc \<noteq> 0
     then Inl (AwsCommandError (join_with '' '' command @ '' failed: '' @ failure_detail out err))
     else bindE (if strip out \<noteq> [] then json_loads out else Inr (JObj [])) (\<lambda>v.
       if is_dict v then Inr v
       else Inl (AwsCommandError (join_with '' '' command @ '' did not return a JSON object''))))"

definition run_json :: "cost_machine \<Rightarrow> aws_cli \<Rightarrow> string list \<Rightarrow> (world, json) proc" where
  "run_json m c arguments =
     (let command = cli_command c (arguments @ [''--output'', ''json'']) in
      seq (run_process (commands m) command []) (\<lambda>r. liftE (decode_output command r)))"

definition login_command :: "aws_cli \<Rightarrow> string list" where
  "login_command c =
     [''aws'', ''sso'', ''login''] @ (if profile c \<noteq> [] then [''--profile'', profile c] else [])"

definition login :: "cost_machine \<Rightarrow> aws_cli \<Rightarrow> (world, unit) proc" where
  "login m c =
     seq (run_process (commands m) (login_command c) []) (\<lambda>(rc, out, err).
       if rc \<noteq> 0 then raising (AwsCommandError (join_with '' '' (login_command c) @ '' failed'')) else ret ())"

definition require_aws_cli :: "cost_machine \<Rightarrow> (world, unit) proc" where
  "require_aws_cli m =
     (if on_path m ''aws'' then ret ()
      else raising (RuntimeError ''aws CLI is not installed or is not on PATH''))"

definition identity_query :: "string list" where
  "identity_query = [''sts'', ''get-caller-identity'']"

definition authenticate :: "cost_machine \<Rightarrow> aws_cli \<Rightarrow> string \<Rightarrow> (world, json) proc" where
  "authenticate m c login_mode =
     seq (whenP (login_mode = ''always'') (login m c)) (\<lambda>_.
     try_except (run_json m c identity_query) (\<lambda>e.
       case e of
         AwsCommandError _ \<Rightarrow>
           if login_mode \<noteq> ''auto'' then raising e
           else seq (login m c) (\<lambda>_. run_json m c identity_query)
       | _ \<Rightarrow> raising e))"


section \<open>Reading responses\<close>

text \<open>A comprehension whose element gives any number of values, and \<open>sum\<close> over integers.\<close>

definition gatherE :: "('a \<Rightarrow> 'b list result) \<Rightarrow> 'a list \<Rightarrow> 'b list result" where
  "gatherE f xs = bindE (mapE f xs) (\<lambda>yss. Inr (concat yss))"

definition list_field :: "json \<Rightarrow> string \<Rightarrow> json list result" where
  "list_field d k = bindE (get_or d k (JList [])) elements"

definition sum_field :: "string \<Rightarrow> json list \<Rightarrow> int result" where
  "sum_field k items =
     bindE (mapE (\<lambda>item. bindE (get_or item k (JInt 0)) json_int) items) (\<lambda>ns. Inr (sum_list ns))"

definition flatten_instances :: "json \<Rightarrow> json list result" where
  "flatten_instances response =
     bindE (list_field response ''Reservations'') (gatherE (\<lambda>reservation. list_field reservation ''Instances''))"


section \<open>Snapshots\<close>

definition page_arguments :: "string \<Rightarrow> json \<Rightarrow> string list result" where
  "page_arguments snapshot_id token =
     (let arguments = [''ebs'', ''list-snapshot-blocks'', ''--snapshot-id'', snapshot_id, ''--max-results'',
        ''10000'', ''--no-paginate''] in
      if truthy token then bindE (as_str token) (\<lambda>t. Inr (arguments @ [''--next-token'', t]))
      else Inr arguments)"

text \<open>The block size of a page, its number of blocks and the token of the next page.\<close>

definition read_page :: "string \<Rightarrow> int option \<Rightarrow> json \<Rightarrow> (int \<times> nat \<times> json) result" where
  "read_page snapshot_id block_size response =
     bindE (bindE (get_or response ''BlockSize'' (JInt 0)) json_int) (\<lambda>current.
     bindE (guardE (0 < current)
              (AwsCommandError (''snapshot '' @ snapshot_id @ '' returned no block size''))) (\<lambda>_.
     bindE (guardE (block_size = None \<or> block_size = Some current)
              (AwsCommandError (''snapshot '' @ snapshot_id @ '' changed block size between pages''))) (\<lambda>_.
     bindE (bindE (get_or response ''Blocks'' (JList [])) json_len) (\<lambda>blocks.
     bindE (get_or response ''NextToken'' JNull) (\<lambda>token. Inr (current, blocks, token))))))"

text \<open>The loop over the pages. The service decides when it ends, so it has fuel.\<close>

fun snapshot_pages ::
  "nat \<Rightarrow> cost_machine \<Rightarrow> aws_cli \<Rightarrow> string \<Rightarrow> json \<Rightarrow> int option \<Rightarrow> nat \<Rightarrow> (world, int) proc" where
  "snapshot_pages 0 m c snapshot_id token block_size block_count = raising OutOfFuel"
| "snapshot_pages (Suc n) m c snapshot_id token block_size block_count =
     seq (liftE (page_arguments snapshot_id token)) (\<lambda>arguments.
     seq (run_json m c arguments) (\<lambda>response.
     seq (liftE (read_page snapshot_id block_size response)) (\<lambda>(current, blocks, next).
       if truthy next then snapshot_pages n m c snapshot_id next (Some current) (block_count + blocks)
       else ret (int (block_count + blocks) * current))))"

definition snapshot_allocated_bytes :: "nat \<Rightarrow> cost_machine \<Rightarrow> aws_cli \<Rightarrow> string \<Rightarrow> (world, int) proc" where
  "snapshot_allocated_bytes fuel m c snapshot_id = snapshot_pages fuel m c snapshot_id JNull None 0"


section \<open>Prices\<close>

record storage_prices =
  snapshot_gib_month :: rat
  ecr_gib_month :: rat
  s3_gib_month :: rat

definition dimension_price :: "string \<Rightarrow> json \<Rightarrow> rat list result" where
  "dimension_price unit dimension =
     bindE (get_or dimension ''unit'' JNull) (\<lambda>u.
       if \<not> is_str u unit then Inr []
       else bindE (get_or dimension ''beginRange'' (JStr ''0'')) (\<lambda>b.
         if \<not> is_str b ''0'' then Inr []
         else bindE (item_at dimension ''pricePerUnit'') (\<lambda>p.
              bindE (item_at p ''USD'') (\<lambda>usd.
              bindE (json_float usd) (\<lambda>x. Inr [x])))))"

definition values_field :: "json \<Rightarrow> string \<Rightarrow> json list result" where
  "values_field d k = bindE (get_or d k (JObj [])) json_values"

definition ends_otherwise :: "string option \<Rightarrow> json \<Rightarrow> bool result" where
  "ends_otherwise ending usage_type =
     (case ending of
        None \<Rightarrow> Inr False
      | Some s \<Rightarrow>
          if s = [] then Inr False
          else (case usage_type of JStr u \<Rightarrow> Inr (\<not> endswith u s) | _ \<Rightarrow> Inl attribute_error))"

definition product_prices :: "string \<Rightarrow> string option \<Rightarrow> json \<Rightarrow> rat list result" where
  "product_prices unit ending encoded =
     bindE (case encoded of JStr s \<Rightarrow> json_loads s | _ \<Rightarrow> Inr encoded) (\<lambda>product.
     bindE (get_or product ''product'' (JObj [])) (\<lambda>p.
     bindE (get_or p ''attributes'' (JObj [])) (\<lambda>attributes.
     bindE (get_or attributes ''usagetype'' (JStr [])) (\<lambda>usage_type.
     bindE (ends_otherwise ending usage_type) (\<lambda>skipped.
       if skipped then Inr []
       else
         bindE (get_or product ''terms'' (JObj [])) (\<lambda>terms.
         bindE (values_field terms ''OnDemand'') (gatherE (\<lambda>term.
         bindE (values_field term ''priceDimensions'') (gatherE (dimension_price unit))))))))))"

definition price_per_unit :: "json \<Rightarrow> string \<Rightarrow> string option \<Rightarrow> rat result" where
  "price_per_unit response unit ending =
     bindE (list_field response ''PriceList'') (\<lambda>products.
     bindE (gatherE (product_prices unit ending) products) (\<lambda>candidates.
       if candidates = [] then Inl (AwsCommandError (''AWS Pricing returned no '' @ unit @ '' price''))
       else Inr (min_list candidates)))"

definition products_query :: "string \<Rightarrow> string list \<Rightarrow> string list" where
  "products_query service filters =
     [''pricing'', ''get-products'', ''--service-code'', service, ''--filters''] @ filters
       @ [''--max-results'', ''100'']"

definition get_storage_prices :: "cost_machine \<Rightarrow> aws_cli \<Rightarrow> string \<Rightarrow> (world, storage_prices) proc" where
  "get_storage_prices m pricing reg =
     (let common = [''Type=TERM_MATCH,Field=regionCode,Value='' @ reg] in
      seq (run_json m pricing (products_query ''AmazonEC2''
             (common @ [''Type=TERM_MATCH,Field=productFamily,Value=Storage Snapshot'']))) (\<lambda>snapshot.
      seq (run_json m pricing (products_query ''AmazonECR''
             (common @ [''Type=TERM_MATCH,Field=productFamily,Value=EC2 Container Registry'']))) (\<lambda>ecr.
      seq (run_json m pricing (products_query ''AmazonS3''
             (common @ [''Type=TERM_MATCH,Field=productFamily,Value=Storage'',
                ''Type=TERM_MATCH,Field=volumeType,Value=Standard'',
                ''Type=TERM_MATCH,Field=storageClass,Value=General Purpose'']))) (\<lambda>s3.
      liftE (
        bindE (price_per_unit snapshot ''GB-Mo'' (Some ''EBS:SnapshotUsage'')) (\<lambda>p1.
        bindE (price_per_unit ecr ''GB-Mo'' None) (\<lambda>p2.
        bindE (price_per_unit s3 ''GB-Mo'' None) (\<lambda>p3.
          Inr \<lparr>snapshot_gib_month = p1, ecr_gib_month = p2, s3_gib_month = p3\<rparr>))))))))"

definition monthly_and_daily_cost :: "int \<Rightarrow> rat \<Rightarrow> rat \<times> rat" where
  "monthly_and_daily_cost size_bytes gib_month_price =
     (let monthly = fmul (fdiv (of_int size_bytes) (2 ^ 30)) gib_month_price;
          daily = fdiv (fmul monthly 12) 365
      in (monthly, daily))"


section \<open>Active resources\<close>

text \<open>One question whose answer is the list under a key.\<close>

definition listing :: "cost_machine \<Rightarrow> aws_cli \<Rightarrow> string list \<Rightarrow> string \<Rightarrow> (world, json) proc" where
  "listing m c arguments key =
     seq (run_json m c arguments) (\<lambda>response. liftE (get_or response key (JList [])))"

definition instance_entry :: "json \<Rightarrow> json result" where
  "instance_entry item =
     bindE (get_or item ''InstanceId'' JNull) (\<lambda>i.
     bindE (bindE (get_or item ''State'' (JObj [])) (\<lambda>s. get_or s ''Name'' JNull)) (\<lambda>state.
     bindE (get_or item ''InstanceType'' JNull) (\<lambda>t.
       Inr (JObj [(''id'', i), (''state'', state), (''type'', t)]))))"

definition volume_entry :: "json \<Rightarrow> json result" where
  "volume_entry item =
     bindE (get_or item ''VolumeId'' JNull) (\<lambda>i.
     bindE (get_or item ''State'' JNull) (\<lambda>state.
     bindE (get_or item ''Size'' JNull) (\<lambda>gib.
     bindE (get_or item ''VolumeType'' JNull) (\<lambda>t.
       Inr (JObj [(''id'', i), (''state'', state), (''size_gib'', gib), (''type'', t)])))))"

text \<open>\<open>[f(item) for item in items]\<close> as a value of the report.\<close>

definition entries :: "(json \<Rightarrow> json result) \<Rightarrow> json \<Rightarrow> json result" where
  "entries f items = bindE (elements items) (\<lambda>xs. bindE (mapE f xs) (\<lambda>ys. Inr (JList ys)))"

definition names_under :: "string \<Rightarrow> json \<Rightarrow> json result" where
  "names_under key items = entries (\<lambda>item. get_or item key JNull) items"

definition collect_active_resources :: "cost_machine \<Rightarrow> aws_cli \<Rightarrow> (world, (string \<times> json) list) proc" where
  "collect_active_resources m c =
     seq (listing m c [''eks'', ''list-clusters''] ''clusters'') (\<lambda>clusters.
     seq (run_json m c [''ec2'', ''describe-instances'', ''--filters'',
            ''Name=instance-state-name,Values=pending,running,stopping,stopped'']) (\<lambda>reservations.
     seq (liftE (flatten_instances reservations)) (\<lambda>instances.
     seq (listing m c [''ec2'', ''describe-volumes''] ''Volumes'') (\<lambda>volumes.
     seq (listing m c [''ec2'', ''describe-nat-gateways'', ''--filter'',
            ''Name=state,Values=pending,available''] ''NatGateways'') (\<lambda>nat_gateways.
     seq (listing m c [''ec2'', ''describe-addresses''] ''Addresses'') (\<lambda>addresses.
     seq (listing m c [''elbv2'', ''describe-load-balancers''] ''LoadBalancers'') (\<lambda>load_balancers.
     seq (listing m c [''rds'', ''describe-db-instances''] ''DBInstances'') (\<lambda>databases.
     seq (listing m c [''efs'', ''describe-file-systems''] ''FileSystems'') (\<lambda>filesystems.
     seq (listing m c [''fsx'', ''describe-file-systems''] ''FileSystems'') (\<lambda>fsx_filesystems.
     seq (listing m c [''ec2'', ''describe-vpc-endpoints''] ''VpcEndpoints'') (\<lambda>vpc_endpoints.
     seq (listing m c [''route53'', ''list-hosted-zones''] ''HostedZones'') (\<lambda>hosted_zones.
     seq (listing m c [''logs'', ''describe-log-groups''] ''logGroups'') (\<lambda>log_groups.
     seq (listing m c [''secretsmanager'', ''list-secrets''] ''SecretList'') (\<lambda>secrets.
       liftE (mapE (\<lambda>(key, r). bindE r (\<lambda>v. Inr (key, v)))
         [(''eks_clusters'', Inr clusters),
          (''ec2_instances'', entries instance_entry (JList instances)),
          (''ebs_volumes'', entries volume_entry volumes),
          (''nat_gateways'', names_under ''NatGatewayId'' nat_gateways),
          (''elastic_ips'', names_under ''AllocationId'' addresses),
          (''load_balancers'', names_under ''LoadBalancerArn'' load_balancers),
          (''rds_instances'', names_under ''DBInstanceIdentifier'' databases),
          (''efs_filesystems'', names_under ''FileSystemId'' filesystems),
          (''fsx_filesystems'', names_under ''FileSystemId'' fsx_filesystems),
          (''vpc_endpoints'', names_under ''VpcEndpointId'' vpc_endpoints),
          (''route53_hosted_zones'', names_under ''Id'' hosted_zones),
          (''cloudwatch_log_groups'', names_under ''logGroupName'' log_groups),
          (''secrets_manager_secrets'', names_under ''Name'' secrets)])))))))))))))))"


section \<open>Storage\<close>

record snapshot_detail =
  snapshot_name :: string
  allocated_bytes :: int
  image_ids :: "json list"

record snapshot_storage =
  image_names :: "(json \<times> json) list"
  snapshots :: "snapshot_detail list"
  snapshot_bytes :: int

definition mappings :: "json \<Rightarrow> json list result" where
  "mappings img = list_field img ''BlockDeviceMappings''"

text \<open>\<open>mapping.get("Ebs", {}).get("SnapshotId")\<close>\<close>

definition mapped_snapshot :: "json \<Rightarrow> json result" where
  "mapped_snapshot mapping = bindE (get_or mapping ''Ebs'' (JObj [])) (\<lambda>ebs. get_or ebs ''SnapshotId'' JNull)"

definition snapshot_of :: "json \<Rightarrow> json list result" where
  "snapshot_of mapping =
     bindE (mapped_snapshot mapping) (\<lambda>v.
       if \<not> truthy v then Inr []
       else bindE (item_at mapping ''Ebs'') (\<lambda>ebs.
            bindE (item_at ebs ''SnapshotId'') (\<lambda>s. bindE (hashable s) (\<lambda>h. Inr [h]))))"

text \<open>The set is sorted, which needs comparable values, and its elements are then arguments of a command,
  which need to be strings: any other value ends in a \<open>TypeError\<close> before the first command runs.\<close>

definition snapshot_ids :: "json list \<Rightarrow> string list result" where
  "snapshot_ids images =
     bindE (gatherE (\<lambda>img. bindE (mappings img) (gatherE snapshot_of)) images) (\<lambda>ids.
     bindE (mapE as_str ids) (\<lambda>names. Inr (sort (remdups names))))"

definition images_with :: "string \<Rightarrow> json list \<Rightarrow> json list result" where
  "images_with snapshot_id images =
     gatherE (\<lambda>img.
       bindE (bindE (mappings img) (mapE (\<lambda>mapping. bindE (mapped_snapshot mapping) hashable))) (\<lambda>ids.
         if JStr snapshot_id \<in> set ids then bindE (get_or img ''ImageId'' JNull) (\<lambda>i. Inr [i]) else Inr []))
       images"

definition snapshot_entry ::
  "nat \<Rightarrow> cost_machine \<Rightarrow> aws_cli \<Rightarrow> json list \<Rightarrow> string \<Rightarrow> (world, snapshot_detail) proc" where
  "snapshot_entry fuel m c images snapshot_id =
     seq (snapshot_allocated_bytes fuel m c snapshot_id) (\<lambda>allocated.
     seq (liftE (images_with snapshot_id images)) (\<lambda>ids.
       ret \<lparr>snapshot_name = snapshot_id, allocated_bytes = allocated, image_ids = ids\<rparr>))"

definition collect_snapshots :: "nat \<Rightarrow> cost_machine \<Rightarrow> aws_cli \<Rightarrow> string \<Rightarrow> (world, snapshot_storage) proc" where
  "collect_snapshots fuel m c resource_prefix =
     seq (run_json m c [''ec2'', ''describe-images'', ''--owners'', ''self'', ''--filters'',
            ''Name=name,Values='' @ resource_prefix @ ''*'']) (\<lambda>response.
     seq (liftE (list_field response ''Images'')) (\<lambda>images.
     seq (liftE (snapshot_ids images)) (\<lambda>ids.
     seq (map_each (snapshot_entry fuel m c images) ids) (\<lambda>details.
     seq (liftE (mapE (\<lambda>img. bindE (get_or img ''ImageId'' JNull) (\<lambda>i.
            bindE (get_or img ''Name'' JNull) (\<lambda>n. Inr (i, n)))) images)) (\<lambda>names.
       ret \<lparr>image_names = names, snapshots = details,
            snapshot_bytes = sum_list (map allocated_bytes details)\<rparr>)))))"

record repository_detail =
  repository_name :: string
  image_count :: nat
  logical_bytes :: int

record ecr_storage =
  repositories :: "repository_detail list"
  repository_count :: nat
  ecr_image_count :: nat
  ecr_bytes :: int

text \<open>\<open>item[key] for item in items if item.get(key, "").startswith(prefix)\<close>\<close>

definition name_with_prefix :: "string \<Rightarrow> string \<Rightarrow> json \<Rightarrow> string list result" where
  "name_with_prefix key start item =
     bindE (get_or item key (JStr [])) (\<lambda>v.
       case v of
         JStr name \<Rightarrow>
           if startswith name start
           then bindE (item_at item key) (\<lambda>v'. bindE (as_str v') (\<lambda>n. Inr [n])) else Inr []
       | _ \<Rightarrow> Inl attribute_error)"

definition repository_entry :: "cost_machine \<Rightarrow> aws_cli \<Rightarrow> string \<Rightarrow> (world, repository_detail) proc" where
  "repository_entry m c name =
     seq (listing m c [''ecr'', ''describe-images'', ''--repository-name'', name] ''imageDetails'') (\<lambda>images.
     seq (liftE (json_len images)) (\<lambda>n.
     seq (liftE (bindE (elements images) (sum_field ''imageSizeInBytes''))) (\<lambda>bytes.
       ret \<lparr>repository_name = name, image_count = n, logical_bytes = bytes\<rparr>)))"

definition collect_ecr :: "cost_machine \<Rightarrow> aws_cli \<Rightarrow> string \<Rightarrow> (world, ecr_storage) proc" where
  "collect_ecr m c resource_prefix =
     seq (listing m c [''ecr'', ''describe-repositories''] ''repositories'') (\<lambda>repos.
     seq (liftE (bindE (elements repos) (gatherE (name_with_prefix ''repositoryName'' (resource_prefix @ ''/''))))) (\<lambda>names.
     seq (map_each (repository_entry m c) (sort names)) (\<lambda>details.
       ret \<lparr>repositories = details, repository_count = length details,
            ecr_image_count = sum_list (map image_count details),
            ecr_bytes = sum_list (map logical_bytes details)\<rparr>)))"

record bucket_detail =
  bucket_name :: string
  version_count :: nat
  version_bytes :: int
  upload_count :: nat
  multipart_bytes :: int
  total_bytes :: int

record s3_storage =
  buckets :: "bucket_detail list"
  bucket_count :: nat
  s3_version_count :: nat
  s3_upload_count :: nat
  s3_bytes :: int

text \<open>The parts of one incomplete upload.\<close>

definition upload_bytes_of :: "cost_machine \<Rightarrow> aws_cli \<Rightarrow> string \<Rightarrow> json \<Rightarrow> (world, int) proc" where
  "upload_bytes_of m c name upload =
     seq (liftE (bindE (item_at upload ''Key'') (\<lambda>k. bindE (item_at upload ''UploadId'') (\<lambda>u.
            bindE (as_str k) (\<lambda>key. bindE (as_str u) (\<lambda>upload_id. Inr (key, upload_id))))))) (\<lambda>(key, upload_id).
     seq (listing m c [''s3api'', ''list-parts'', ''--bucket'', name, ''--key'', key, ''--upload-id'', upload_id]
            ''Parts'') (\<lambda>parts.
       liftE (bindE (elements parts) (sum_field ''Size''))))"

definition bucket_entry :: "cost_machine \<Rightarrow> aws_cli \<Rightarrow> string \<Rightarrow> (world, bucket_detail) proc" where
  "bucket_entry m c name =
     seq (listing m c [''s3api'', ''list-object-versions'', ''--bucket'', name] ''Versions'') (\<lambda>versions.
     seq (run_json m c [''s3api'', ''list-multipart-uploads'', ''--bucket'', name]) (\<lambda>response.
     seq (liftE (get_or response ''Uploads'' JNull)) (\<lambda>found.
     seq (liftE (if truthy found then elements found else Inr [])) (\<lambda>uploads.
     seq (map_each (upload_bytes_of m c name) uploads) (\<lambda>multipart.
     seq (liftE (bindE (elements versions) (sum_field ''Size''))) (\<lambda>bytes.
     seq (liftE (json_len versions)) (\<lambda>n.
       ret \<lparr>bucket_name = name, version_count = n, version_bytes = bytes, upload_count = length uploads,
            multipart_bytes = sum_list multipart, total_bytes = bytes + sum_list multipart\<rparr>)))))))"

definition collect_s3 :: "cost_machine \<Rightarrow> aws_cli \<Rightarrow> string \<Rightarrow> (world, s3_storage) proc" where
  "collect_s3 m c resource_prefix =
     seq (listing m c [''s3api'', ''list-buckets''] ''Buckets'') (\<lambda>found.
     seq (liftE (bindE (elements found) (gatherE (name_with_prefix ''Name'' resource_prefix)))) (\<lambda>names.
     seq (map_each (bucket_entry m c) (sort names)) (\<lambda>details.
       ret \<lparr>buckets = details, bucket_count = length details,
            s3_version_count = sum_list (map version_count details),
            s3_upload_count = sum_list (map upload_count details),
            s3_bytes = sum_list (map total_bytes details)\<rparr>)))"


section \<open>Cost history\<close>

text \<open>The Gregorian calendar of \<open>datetime.date\<close>, day by day.\<close>

definition month_days :: "nat \<Rightarrow> nat \<Rightarrow> nat" where
  "month_days y mo =
     (if mo = 2 then (if 4 dvd y \<and> (\<not> 100 dvd y \<or> 400 dvd y) then 29 else 28)
      else if mo \<in> {4, 6, 9, 11} then 30 else 31)"

definition next_day :: "nat \<times> nat \<times> nat \<Rightarrow> nat \<times> nat \<times> nat" where
  "next_day = (\<lambda>(y, mo, d).
     if d < month_days y mo then (y, mo, d + 1) else if mo < 12 then (y, mo + 1, 1) else (y + 1, 1, 1))"

definition date_of :: "nat \<Rightarrow> nat \<times> nat \<times> nat" where
  "date_of n = (next_day ^^ (n - 1)) (1, 1, 1)"

definition padded :: "nat \<Rightarrow> nat \<Rightarrow> string" where
  "padded width n = (let s = str_of_nat n in replicate (width - length s) (CHR ''0'') @ s)"

definition date_text :: "nat \<Rightarrow> string" where
  "date_text n = (case date_of n of (y, mo, d) \<Rightarrow> padded 4 y @ ''-'' @ padded 2 mo @ ''-'' @ padded 2 d)"

record day_cost =
  day :: json
  estimated :: bool
  total_usd :: rat
  services :: "(json \<times> rat) list"

text \<open>\<open>sum\<close> over floats, and a dict built from pairs: a later value replaces an earlier one in its place. Two
  keys that are numbers are the same if they are written the same.\<close>

definition float_sum :: "rat list \<Rightarrow> rat" where
  "float_sum xs = foldl fadd 0 xs"

fun put_item :: "'k \<Rightarrow> 'v \<Rightarrow> ('k \<times> 'v) list \<Rightarrow> ('k \<times> 'v) list" where
  "put_item k v [] = [(k, v)]"
| "put_item k v ((k', v') # d) = (if k' = k then (k, v) # d else (k', v') # put_item k v d)"

definition service_cost :: "json \<Rightarrow> (json \<times> rat) result" where
  "service_cost g =
     bindE (bindE (item_at g ''Keys'') (\<lambda>ks. index_at ks 0)) (\<lambda>k.
     bindE (bindE (item_at g ''Metrics'') (\<lambda>ms. bindE (item_at ms ''UnblendedCost'') (\<lambda>u. item_at u ''Amount''))) (\<lambda>a.
     bindE (json_float a) (\<lambda>x. bindE (hashable k) (\<lambda>h. Inr (h, x)))))"

definition day_entry :: "json \<Rightarrow> day_cost result" where
  "day_entry period =
     bindE (bindE (list_field period ''Groups'') (mapE service_cost)) (\<lambda>costs.
     let per_service = fold (\<lambda>(k, x). put_item k x) costs [] in
     bindE (bindE (item_at period ''TimePeriod'') (\<lambda>t. item_at t ''Start'')) (\<lambda>start.
     bindE (get_or period ''Estimated'' JNull) (\<lambda>estimate.
       Inr \<lparr>day = start, estimated = truthy estimate, total_usd = float_sum (map snd per_service),
            services = per_service\<rparr>)))"

definition collect_cost_history :: "cost_machine \<Rightarrow> aws_cli \<Rightarrow> nat \<Rightarrow> (world, day_cost list) proc" where
  "collect_cost_history m c days =
     seq (gets (\<lambda>w. today m (trace w))) (\<lambda>now.
     seq (run_json m c [''ce'', ''get-cost-and-usage'', ''--time-period'',
            ''Start='' @ date_text (now - days) @ '',End='' @ date_text (now + 1),
            ''--granularity'', ''DAILY'', ''--metrics'', ''UnblendedCost'', ''--group-by'',
            ''Type=DIMENSION,Key=SERVICE'']) (\<lambda>response.
       liftE (bindE (list_field response ''ResultsByTime'') (mapE day_entry))))"


section \<open>The report\<close>

record idle_cost =
  snapshot_monthly :: rat
  snapshot_daily :: rat
  ecr_monthly :: rat
  ecr_daily :: rat
  s3_monthly :: rat
  s3_daily :: rat
  total_monthly :: rat
  total_daily :: rat

record cost_report =
  account :: json
  principal_arn :: json
  report_profile :: string
  report_region :: string
  report_prefix :: string
  active_resources :: "(string \<times> json) list"
  snapshot_section :: snapshot_storage
  ecr_section :: ecr_storage
  s3_section :: s3_storage
  prices :: storage_prices
  idle_storage_cost :: idle_cost
  recent_cost :: "day_cost list"

definition idle_costs :: "int \<Rightarrow> int \<Rightarrow> int \<Rightarrow> storage_prices \<Rightarrow> idle_cost" where
  "idle_costs in_snapshots in_ecr in_s3 p =
     (let (sm, sd) = monthly_and_daily_cost in_snapshots (snapshot_gib_month p);
          (em, ed) = monthly_and_daily_cost in_ecr (ecr_gib_month p);
          (bm, bd) = monthly_and_daily_cost in_s3 (s3_gib_month p)
      in \<lparr>snapshot_monthly = sm, snapshot_daily = sd, ecr_monthly = em, ecr_daily = ed, s3_monthly = bm,
          s3_daily = bd, total_monthly = fadd (fadd sm em) bm, total_daily = fadd (fadd sd ed) bd\<rparr>)"

definition build_report ::
  "nat \<Rightarrow> cost_machine \<Rightarrow> aws_cli \<Rightarrow> aws_cli \<Rightarrow> json \<Rightarrow> string \<Rightarrow> nat \<Rightarrow> (world, cost_report) proc" where
  "build_report fuel m c pricing identity resource_prefix days =
     seq (collect_active_resources m c) (\<lambda>active.
     seq (collect_snapshots fuel m c resource_prefix) (\<lambda>snaps.
     seq (collect_ecr m c resource_prefix) (\<lambda>ecr.
     seq (collect_s3 m c resource_prefix) (\<lambda>s3.
     seq (get_storage_prices m pricing (region c)) (\<lambda>p.
     seq (liftE (get_or identity ''Account'' JNull)) (\<lambda>acc.
     seq (liftE (get_or identity ''Arn'' JNull)) (\<lambda>arn.
     seq (collect_cost_history m c days) (\<lambda>history.
       ret \<lparr>account = acc, principal_arn = arn, report_profile = profile c, report_region = region c,
            report_prefix = resource_prefix, active_resources = active, snapshot_section = snaps,
            ecr_section = ecr, s3_section = s3, prices = p,
            idle_storage_cost = idle_costs (snapshot_bytes snaps) (ecr_bytes ecr) (s3_bytes s3) p,
            recent_cost = history\<rparr>))))))))"

record cost_arguments =
  profile_argument :: string
  region_argument :: string
  resource_prefix :: string
  history_days :: int
  sso_login :: string

definition cost_report_for :: "nat \<Rightarrow> cost_machine \<Rightarrow> cost_arguments \<Rightarrow> (world, cost_report) proc" where
  "cost_report_for fuel m args =
     (if history_days args < 1 \<or> history_days args > 90
      then raising (ValueError ''--history-days must be between 1 and 90'')
      else
        seq (require_aws_cli m) (\<lambda>_.
        let c = \<lparr>profile = profile_argument args, region = region_argument args\<rparr>;
            pricing = \<lparr>profile = profile_argument args, region = ''us-east-1''\<rparr> in
        seq (authenticate m c (sso_login args)) (\<lambda>identity.
          build_report fuel m c pricing identity (resource_prefix args) (nat (history_days args)))))"

text \<open>The exit status: the errors of the tool become a message and 1.\<close>

definition cost_status :: "'a result \<Rightarrow> int result" where
  "cost_status r =
     (case r of
        Inr _ \<Rightarrow> Inr 0
      | Inl (AwsCommandError _) \<Rightarrow> Inr 1
      | Inl (RuntimeError _) \<Rightarrow> Inr 1
      | Inl (ValueError _) \<Rightarrow> Inr 1
      | Inl e \<Rightarrow> Inl e)"

end
