(* ===== verification/Cost_Inventory.thy ===== *)
theory Cost_Inventory
  imports Aws_Cost
begin

text \<open>
  What the inventory of \<open>Aws_Cost\<close> does and finds: it only asks questions, a snapshot's size is that of all
  its pages, each snapshot counts once, a price is the lowest on offer, and the estimate is exact but for
  rounding. The examples at the end run the tool against a small simulated account.
\<close>


section \<open>The inventory only reads\<close>

definition reads :: "string list \<Rightarrow> bool" where
  "reads arguments \<longleftrightarrow>
     1 < length arguments
     \<and> (startswith (arguments ! 1) ''describe-'' \<or> startswith (arguments ! 1) ''list-''
        \<or> startswith (arguments ! 1) ''get-'')"

text \<open>A call of the tool that asks for something, with one of two clients.\<close>

definition query :: "aws_cli \<Rightarrow> call \<Rightarrow> bool" where
  "query c call \<longleftrightarrow> (\<exists>arguments. call = Run (cli_command c arguments) [] \<and> reads arguments)"

definition logged :: "(call \<Rightarrow> bool) \<Rightarrow> call list \<Rightarrow> world \<Rightarrow> bool" where
  "logged P t w \<longleftrightarrow> (\<exists>calls. trace w = t @ calls \<and> list_all P calls)"

lemma logged_run: "P (Run argv text) \<Longrightarrow> keeps (logged P t) (run_process env argv text)"
  by (rule keeps_run_process) (auto simp: logged_def)

lemma reads_simps [simp]:
  "reads (a # b # l) \<longleftrightarrow> startswith b ''describe-'' \<or> startswith b ''list-'' \<or> startswith b ''get-''"
  by (simp add: reads_def)

lemma reads_page: "page_arguments s token = Inr arguments \<Longrightarrow> reads arguments"
  by (auto simp: page_arguments_def Let_def result_iff split: if_splits)

lemma keeps_lift_then:
  "(\<And>a. r = Inr a \<Longrightarrow> keeps I (f a)) \<Longrightarrow> keeps I (seq (liftE r) f)"
  by (cases r) (auto simp: keeps_snd seq_def liftE_def)

text \<open>The contract of a client whose questions are permitted: whatever it is made to ask, the calls stay within
  what is permitted.\<close>

locale permitted_client =
  fixes P :: "call \<Rightarrow> bool"
    and c :: aws_cli
  assumes permitted: "query c call \<Longrightarrow> P call"
begin

lemma logged_run_json:
  assumes "reads arguments"
  shows "keeps (logged P t) (run_json m c arguments)"
proof -
  have "reads (arguments @ [''--output'', ''json''])" using assms by (auto simp: reads_def nth_append)
  then have "P (Run (cli_command c (arguments @ [''--output'', ''json''])) [])"
    using permitted by (auto simp: query_def)
  then show ?thesis
    unfolding run_json_def Let_def by (intro keeps_intros logged_run)
qed

lemma logged_listing: "reads arguments \<Longrightarrow> keeps (logged P t) (listing m c arguments key)"
  unfolding listing_def by (intro keeps_intros logged_run_json)

lemma logged_pages: "keeps (logged P t) (snapshot_pages n m c s token block_size block_count)"
proof (induction n arbitrary: token block_size block_count)
  case (Suc n)
  show ?case
    unfolding snapshot_pages.simps
    by (rule keeps_lift_then, intro keeps_intros logged_run_json)
       (auto intro!: keeps_intros Suc.IH dest: reads_page split: prod.splits)
qed (simp add: keeps_raising)

lemmas logged_intros = logged_run_json logged_listing logged_pages keeps_intros

lemma logged_active: "keeps (logged P t) (collect_active_resources m c)"
  unfolding collect_active_resources_def by (intro logged_intros) simp_all

lemma logged_snapshots: "keeps (logged P t) (collect_snapshots fuel m c start)"
  unfolding collect_snapshots_def snapshot_entry_def snapshot_allocated_bytes_def
  by (intro logged_intros) simp_all

lemma logged_ecr: "keeps (logged P t) (collect_ecr m c start)"
  unfolding collect_ecr_def repository_entry_def by (intro logged_intros) simp_all

lemma logged_s3: "keeps (logged P t) (collect_s3 m c start)"
  unfolding collect_s3_def bucket_entry_def upload_bytes_of_def split_def
  by (intro logged_intros) simp_all

lemma logged_prices: "keeps (logged P t) (get_storage_prices m c reg)"
  unfolding get_storage_prices_def Let_def products_query_def by (intro logged_intros) simp_all

lemma logged_history: "keeps (logged P t) (collect_cost_history m c days)"
  unfolding collect_cost_history_def by (intro logged_intros) simp_all

lemma logged_authenticate:
  assumes "mode \<noteq> ''never'' \<Longrightarrow> P (Run (login_command c) [])"
  shows "keeps (logged P t) (authenticate m c mode)"
proof -
  have login: "keeps (logged P t) (login m c)" if "mode \<noteq> ''never''"
    unfolding login_def split_def using assms [OF that] by (intro keeps_intros logged_run)
  have ask: "keeps (logged P t) (run_json m c identity_query)"
    by (rule logged_run_json) (simp add: identity_query_def)
  have "keeps (logged P t) (whenP (mode = ''always'') (login m c))"
    using login by (cases "mode = ''always''") (auto intro: keeps_intros)
  then show ?thesis
    unfolding authenticate_def using login ask
    by (auto intro!: keeps_intros split: exn.split)
qed

end

text \<open>The two clients of a run, and what it is permitted to call.\<close>

definition region_client :: "cost_arguments \<Rightarrow> aws_cli" where
  "region_client args = \<lparr>profile = profile_argument args, region = region_argument args\<rparr>"

definition pricing_client :: "cost_arguments \<Rightarrow> aws_cli" where
  "pricing_client args = \<lparr>profile = profile_argument args, region = ''us-east-1''\<rparr>"

definition allowed :: "cost_arguments \<Rightarrow> call \<Rightarrow> bool" where
  "allowed args call \<longleftrightarrow> query (region_client args) call \<or> query (pricing_client args) call
     \<or> call = Run (login_command (region_client args)) [] \<and> sso_login args \<noteq> ''never''"

interpretation in_region: permitted_client "allowed args" "region_client args" for args
  by unfold_locales (simp add: allowed_def)

interpretation for_prices: permitted_client "allowed args" "pricing_client args" for args
  by unfold_locales (simp add: allowed_def)

text \<open>C20: the inventory is read-only, as the documentation promises: whatever AWS answers and however the run
  ends, it only runs commands that describe, list or get, for the configured region or for prices, and a
  login when logging in is not switched off.\<close>

theorem cost_report_reads_only:
  "\<exists>calls. trace (snd (cost_report_for fuel m args w)) = trace w @ calls \<and> list_all (allowed args) calls"
proof -
  have "keeps (logged (allowed args) (trace w)) (cost_report_for fuel m args)"
    unfolding cost_report_for_def build_report_def require_aws_cli_def Let_def
      region_client_def [symmetric] pricing_client_def [symmetric]
    by (intro keeps_intros in_region.logged_active in_region.logged_snapshots in_region.logged_ecr
        in_region.logged_s3 for_prices.logged_prices in_region.logged_history in_region.logged_authenticate)
       (simp add: allowed_def)
  then have "logged (allowed args) (trace w) (snd (cost_report_for fuel m args w))"
    by (auto simp: keeps_snd logged_def)
  then show ?thesis by (simp add: logged_def)
qed


section \<open>Paging\<close>

text \<open>The outcome of one question when the calls \<open>t\<close> have been made.\<close>

definition asked :: "string list \<Rightarrow> aws_cli \<Rightarrow> call" where
  "asked arguments c = Run (cli_command c (arguments @ [''--output'', ''json''])) []"

definition answered :: "cost_machine \<Rightarrow> aws_cli \<Rightarrow> call list \<Rightarrow> string list \<Rightarrow> json \<Rightarrow> bool" where
  "answered m c t arguments v \<longleftrightarrow>
     (case fst (commands m t (asked arguments c)) of
        Completed rc out err \<Rightarrow>
          decode_output (cli_command c (arguments @ [''--output'', ''json''])) (rc, out, err) = Inr v
      | _ \<Rightarrow> False)"

lemma run_json_trace: "trace (snd (run_json m c arguments w)) = trace w @ [asked arguments c]"
  unfolding run_json_def Let_def asked_def
  using run_process_trace [of "commands m" "cli_command c (arguments @ [''--output'', ''json''])" "[]" w]
  by (auto simp: seq_def liftE_def split: prod.splits sum.splits)

lemma run_json_Inr: "run_json m c arguments w = (Inr v, w') \<Longrightarrow> answered m c (trace w) arguments v"
  by (auto simp: run_json_def answered_def asked_def Let_def seq_def liftE_def run_process_def perform_call_def
      ret_def raising_def split: prod.splits sum.splits answer.splits)

lemma run_json_answered:
  "answered m c (trace w) arguments v \<Longrightarrow>
     \<exists>w'. run_json m c arguments w = (Inr v, w') \<and> trace w' = trace w @ [asked arguments c]"
  by (auto simp: run_json_def answered_def asked_def Let_def seq_def liftE_def run_process_def perform_call_def
      ret_def raising_def split: prod.splits sum.splits answer.splits)

text \<open>The pages the service has for a snapshot, each with its block size and its number of blocks: asked in
  order, each with the token of the one before, up to the first without a token.\<close>

inductive served :: "cost_machine \<Rightarrow> aws_cli \<Rightarrow> string \<Rightarrow> call list \<Rightarrow> json \<Rightarrow> (int \<times> nat) list \<Rightarrow> bool"
  for m c snapshot_id where
  last_page: "page_arguments snapshot_id token = Inr arguments \<Longrightarrow> answered m c t arguments response \<Longrightarrow>
     read_page snapshot_id None response = Inr (s, n, follow) \<Longrightarrow> \<not> truthy follow \<Longrightarrow>
     served m c snapshot_id t token [(s, n)]"
| more_pages: "page_arguments snapshot_id token = Inr arguments \<Longrightarrow> answered m c t arguments response \<Longrightarrow>
     read_page snapshot_id None response = Inr (s, n, follow) \<Longrightarrow> truthy follow \<Longrightarrow>
     served m c snapshot_id (t @ [asked arguments c]) follow pages \<Longrightarrow>
     served m c snapshot_id t token ((s, n) # pages)"

inductive_cases served_elim: "served m c snapshot_id t token ((s, n) # pages)"

lemma read_page_known:
  "read_page snapshot_id (Some b) response = Inr (s, n, follow) \<longleftrightarrow>
     read_page snapshot_id None response = Inr (s, n, follow) \<and> s = b"
  by (auto simp: read_page_def result_iff)

lemma read_page_any:
  "read_page snapshot_id b response = Inr (s, n, follow) \<longleftrightarrow>
     read_page snapshot_id None response = Inr (s, n, follow) \<and> (b = None \<or> b = Some s)"
  by (cases b) (auto simp: read_page_known)

lemma snapshot_pages_sound:
  assumes "snapshot_pages fuel m c snapshot_id token b k w = (Inr total_size, w')"
  shows "\<exists>s ns. ns \<noteq> [] \<and> length ns \<le> fuel \<and> served m c snapshot_id (trace w) token (map (Pair s) ns)
    \<and> (b = None \<or> b = Some s) \<and> total_size = s * int (k + sum_list ns)
    \<and> length (trace w') = length (trace w) + length ns"
  using assms
proof (induction fuel arbitrary: token b k w)
  case (Suc fuel)
  from Suc.prems obtain arguments response u s n follow where
    args: "page_arguments snapshot_id token = Inr arguments"
    and r: "run_json m c arguments w = (Inr response, u)"
    and read: "read_page snapshot_id b response = Inr (s, n, follow)"
    and rest: "(if truthy follow then snapshot_pages fuel m c snapshot_id follow (Some s) (k + n)
                else ret (int (k + n) * s)) u = (Inr total_size, w')"
    by (auto simp: seq_Inr liftE_run)
  from read have page: "read_page snapshot_id None response = Inr (s, n, follow)" "b = None \<or> b = Some s"
    by (simp_all only: read_page_any [of snapshot_id b])
  note a = run_json_Inr [OF r]
  have u: "trace u = trace w @ [asked arguments c]" using run_json_trace [of m c arguments w] r by simp
  show ?case
  proof (cases "truthy follow")
    case True
    with rest have "snapshot_pages fuel m c snapshot_id follow (Some s) (k + n) u = (Inr total_size, w')" by simp
    from Suc.IH [OF this] obtain ns where "ns \<noteq> []" "length ns \<le> fuel"
      "served m c snapshot_id (trace u) follow (map (Pair s) ns)" "total_size = s * int (k + n + sum_list ns)"
      "length (trace w') = length (trace u) + length ns" by auto
    with page(2) u more_pages [OF args a page(1) True] show ?thesis
      by (intro exI [of _ s] exI [of _ "n # ns"]) (auto simp: add.assoc)
  next
    case False
    with rest have "total_size = s * int (k + n)" "w' = u" by (simp_all add: ret_run mult.commute)
    with page(2) u last_page [OF args a page(1) False] show ?thesis
      by (intro exI [of _ s] exI [of _ "[n]"]) auto
  qed
qed (simp add: raising_run)

lemma snapshot_pages_complete:
  assumes "served m c snapshot_id (trace w) token (map (Pair s) ns)" and "length ns \<le> fuel"
    and "b = None \<or> b = Some s"
  shows "\<exists>w'. snapshot_pages fuel m c snapshot_id token b k w = (Inr (s * int (k + sum_list ns)), w')"
  using assms
proof (induction ns arbitrary: token b k w fuel)
  case Nil
  then show ?case by (auto elim: served.cases)
next
  case (Cons n ns)
  obtain f where f: "fuel = Suc f" using Cons.prems(2) by (cases fuel) auto
  have "served m c snapshot_id (trace w) token ((s, n) # map (Pair s) ns)" using Cons.prems(1) by simp
  then obtain arguments response follow where args: "page_arguments snapshot_id token = Inr arguments"
    and a: "answered m c (trace w) arguments response"
    and page: "read_page snapshot_id None response = Inr (s, n, follow)"
    and follow: "if truthy follow then served m c snapshot_id (trace w @ [asked arguments c]) follow (map (Pair s) ns)
               else ns = []"
    by (elim served_elim) auto
  obtain u where r: "run_json m c arguments w = (Inr response, u)" "trace u = trace w @ [asked arguments c]"
    using run_json_answered [OF a] by auto
  have known: "read_page snapshot_id b response = Inr (s, n, follow)"
    using page Cons.prems(3) by (simp only: read_page_any [of snapshot_id b])
  have step: "snapshot_pages fuel m c snapshot_id token b k w =
      (if truthy follow then snapshot_pages f m c snapshot_id follow (Some s) (k + n) else ret (int (k + n) * s)) u"
    using r(1) by (simp add: f seq_def liftE_run args known)
  show ?case
  proof (cases "truthy follow")
    case True
    with follow r(2) Cons.IH [of u follow f "Some s" "k + n"] Cons.prems(2) f
    obtain w' where "snapshot_pages f m c snapshot_id follow (Some s) (k + n) u
        = (Inr (s * int (k + n + sum_list ns)), w')" by auto
    then show ?thesis unfolding step using True by (simp add: add.assoc)
  next
    case False
    with follow show ?thesis unfolding step by (simp add: ret_run mult.commute)
  qed
qed

text \<open>C13: the size of a snapshot: the loop over the pages returns a number exactly when the service has a last
  page within the fuel and all pages agree on the block size, and then it is that size times the blocks of
  all pages, each asked for once. The fuel bounds nothing else.\<close>

theorem snapshot_allocated_bytes_pages:
  "fst (snapshot_allocated_bytes fuel m c snapshot_id w) = Inr b \<longleftrightarrow>
     (\<exists>s ns. length ns \<le> fuel \<and> served m c snapshot_id (trace w) JNull (map (Pair s) ns)
        \<and> b = s * int (sum_list ns))"
proof
  assume "fst (snapshot_allocated_bytes fuel m c snapshot_id w) = Inr b"
  then obtain w' where "snapshot_pages fuel m c snapshot_id JNull None 0 w = (Inr b, w')"
    unfolding snapshot_allocated_bytes_def by (metis prod.collapse)
  from snapshot_pages_sound [OF this] show "\<exists>s ns. length ns \<le> fuel
      \<and> served m c snapshot_id (trace w) JNull (map (Pair s) ns) \<and> b = s * int (sum_list ns)" by auto
next
  assume "\<exists>s ns. length ns \<le> fuel \<and> served m c snapshot_id (trace w) JNull (map (Pair s) ns)
      \<and> b = s * int (sum_list ns)"
  then obtain s ns where "length ns \<le> fuel" "served m c snapshot_id (trace w) JNull (map (Pair s) ns)"
    and b: "b = s * int (sum_list ns)" by auto
  from snapshot_pages_complete [OF this(2,1), of None 0] b
  show "fst (snapshot_allocated_bytes fuel m c snapshot_id w) = Inr b"
    by (auto simp: snapshot_allocated_bytes_def)
qed


section \<open>Prices\<close>

lemma gatherE_member:
  "gatherE f xs = Inr ys \<Longrightarrow> y \<in> set ys \<longleftrightarrow> (\<exists>x \<in> set xs. \<exists>l. f x = Inr l \<and> y \<in> set l)"
proof (induction xs arbitrary: ys)
  case (Cons x xs)
  then obtain l ls where "f x = Inr l" "gatherE f xs = Inr ls" "ys = l @ ls"
    by (auto simp: gatherE_def result_iff)
  with Cons.IH [of ls] show ?case by auto
qed (simp add: gatherE_def)

lemma gatherE_defined: "gatherE f xs = Inr ys \<Longrightarrow> x \<in> set xs \<Longrightarrow> \<exists>l. f x = Inr l"
  using mapE_member [of f xs _ x] by (auto simp: gatherE_def result_iff)

text \<open>A price on demand for a unit: that of the first tier of a product whose usage type ends as asked.\<close>

definition tier_price :: "string \<Rightarrow> json \<Rightarrow> rat \<Rightarrow> bool" where
  "tier_price unit d x \<longleftrightarrow>
     get_or d ''unit'' JNull = Inr (JStr unit) \<and> get_or d ''beginRange'' (JStr ''0'') = Inr (JStr ''0'')
     \<and> (\<exists>per_unit usd. item_at d ''pricePerUnit'' = Inr per_unit \<and> item_at per_unit ''USD'' = Inr usd
          \<and> json_float usd = Inr x)"

definition offers :: "string \<Rightarrow> string option \<Rightarrow> json \<Rightarrow> rat \<Rightarrow> bool" where
  "offers unit ending encoded x \<longleftrightarrow>
     (\<exists>product p attributes usage_type terms ts term ds d.
        (case encoded of JStr s \<Rightarrow> json_loads s | _ \<Rightarrow> Inr encoded) = Inr product
        \<and> get_or product ''product'' (JObj []) = Inr p \<and> get_or p ''attributes'' (JObj []) = Inr attributes
        \<and> get_or attributes ''usagetype'' (JStr []) = Inr usage_type
        \<and> ends_otherwise ending usage_type = Inr False
        \<and> get_or product ''terms'' (JObj []) = Inr terms \<and> values_field terms ''OnDemand'' = Inr ts
        \<and> term \<in> set ts \<and> values_field term ''priceDimensions'' = Inr ds \<and> d \<in> set ds
        \<and> tier_price unit d x)"

definition offered :: "json \<Rightarrow> string \<Rightarrow> string option \<Rightarrow> rat \<Rightarrow> bool" where
  "offered response unit ending x \<longleftrightarrow>
     (\<exists>products encoded. list_field response ''PriceList'' = Inr products \<and> encoded \<in> set products
        \<and> offers unit ending encoded x)"

lemma dimension_price_member:
  "(\<exists>l. dimension_price unit d = Inr l \<and> x \<in> set l) \<longleftrightarrow> tier_price unit d x"
  by (auto simp: dimension_price_def tier_price_def result_iff is_str_def split: if_splits)

lemma product_prices_member:
  assumes "product_prices unit ending encoded = Inr l"
  shows "x \<in> set l \<longleftrightarrow> offers unit ending encoded x"
proof -
  from assms obtain product p attributes usage_type skipped where
    product: "(case encoded of JStr s \<Rightarrow> json_loads s | _ \<Rightarrow> Inr encoded) = Inr product"
      "get_or product ''product'' (JObj []) = Inr p" "get_or p ''attributes'' (JObj []) = Inr attributes"
      "get_or attributes ''usagetype'' (JStr []) = Inr usage_type"
      "ends_otherwise ending usage_type = Inr skipped"
    and rest: "(if skipped then Inr []
       else bindE (get_or product ''terms'' (JObj [])) (\<lambda>terms.
         bindE (values_field terms ''OnDemand'') (gatherE (\<lambda>term.
         bindE (values_field term ''priceDimensions'') (gatherE (dimension_price unit)))))) = Inr l"
    unfolding product_prices_def bindE_Inr_iff by blast
  show ?thesis
  proof (cases skipped)
    case True
    with rest product show ?thesis by (simp add: offers_def)
  next
    case False
    with rest obtain terms ts where terms: "get_or product ''terms'' (JObj []) = Inr terms"
        "values_field terms ''OnDemand'' = Inr ts"
      and l: "gatherE (\<lambda>term. bindE (values_field term ''priceDimensions'') (gatherE (dimension_price unit))) ts = Inr l"
      by (auto simp: result_iff)
    have inner: "(\<exists>k. bindE (values_field term ''priceDimensions'') (gatherE (dimension_price unit)) = Inr k \<and> x \<in> set k)
      \<longleftrightarrow> (\<exists>ds d. values_field term ''priceDimensions'' = Inr ds \<and> d \<in> set ds
             \<and> tier_price unit d x)" if t: "term \<in> set ts" for "term"
    proof -
      have "\<exists>k. bindE (values_field term ''priceDimensions'') (gatherE (dimension_price unit)) = Inr k"
        using gatherE_defined [OF l t] .
      then show ?thesis by (auto simp: result_iff gatherE_member dimension_price_member)
    qed
    show ?thesis
      unfolding gatherE_member [OF l] offers_def using product terms False inner by auto
  qed
qed

lemma price_per_unit_offers:
  assumes "list_field response ''PriceList'' = Inr products"
    and "gatherE (product_prices unit ending) products = Inr candidates"
  shows "x \<in> set candidates \<longleftrightarrow> offered response unit ending x"
proof -
  have "\<exists>l. product_prices unit ending encoded = Inr l" if "encoded \<in> set products" for encoded
    using gatherE_defined [OF assms(2) that] .
  then have "x \<in> set candidates \<longleftrightarrow> (\<exists>encoded \<in> set products. offers unit ending encoded x)"
    unfolding gatherE_member [OF assms(2)] using product_prices_member by metis
  then show ?thesis
    unfolding offered_def using assms(1) by auto
qed

text \<open>C14: the price that is used is on offer in the response for that unit and usage type, in the first tier,
  and no such price is lower.\<close>

theorem price_per_unit_lowest:
  assumes "price_per_unit response unit ending = Inr x"
  shows "offered response unit ending x \<and> (\<forall>y. offered response unit ending y \<longrightarrow> x \<le> y)"
proof -
  from assms obtain products candidates where
    c: "list_field response ''PriceList'' = Inr products"
      "gatherE (product_prices unit ending) products = Inr candidates"
    and x: "candidates \<noteq> []" "x = min_list candidates"
    by (auto simp: price_per_unit_def result_iff split: if_splits)
  have "min_list candidates = Min (set candidates)" using x(1) by (rule min_list_Min)
  then have "x \<in> set candidates" "\<forall>y \<in> set candidates. x \<le> y" using x by simp_all
  then show ?thesis by (simp add: price_per_unit_offers [OF c])
qed


section \<open>Rounding\<close>

text \<open>\<open>x\<close> is \<open>y\<close> after at most \<open>k\<close> roundings.\<close>

definition near :: "nat \<Rightarrow> rat \<Rightarrow> rat \<Rightarrow> bool" where
  "near k x y \<longleftrightarrow> 0 \<le> y \<and> y * (1 - 1 / 2 ^ 53) ^ k \<le> x \<and> x \<le> y * (1 + 1 / 2 ^ 53) ^ k"

lemma near_refl: "0 \<le> x \<Longrightarrow> near 0 x x"
  by (simp add: near_def)

lemma near_round:
  assumes "near k x y"
  shows "near (Suc k) (to_double x) y"
proof -
  let ?l = "1 - 1 / 2 ^ 53 :: rat" and ?h = "1 + 1 / 2 ^ 53 :: rat"
  have y: "0 \<le> y" "y * ?l ^ k \<le> x" "x \<le> y * ?h ^ k" using assms by (simp_all add: near_def)
  have "0 \<le> y * ?l ^ k" using y(1) by simp
  then have x: "0 \<le> x" using y(2) by linarith
  have "y * ?l ^ Suc k \<le> x * ?l" using mult_right_mono [OF y(2), of ?l] by (simp add: mult_ac)
  moreover have "x * ?h \<le> y * ?h ^ Suc k" using mult_right_mono [OF y(3), of ?h] by (simp add: mult_ac)
  ultimately show ?thesis using to_double_between [OF x] y(1) unfolding near_def by linarith
qed

lemma near_more: "near k x y \<Longrightarrow> near (Suc k) x y"
proof -
  assume n: "near k x y"
  let ?l = "1 - 1 / 2 ^ 53 :: rat" and ?h = "1 + 1 / 2 ^ 53 :: rat"
  have "?l ^ Suc k \<le> ?l ^ k" by (rule power_decreasing) simp_all
  then have "y * ?l ^ Suc k \<le> y * ?l ^ k" using n by (auto simp: near_def intro: mult_left_mono)
  moreover have "?h ^ k \<le> ?h ^ Suc k" by (rule power_increasing) simp_all
  then have "y * ?h ^ k \<le> y * ?h ^ Suc k" using n by (auto simp: near_def intro: mult_left_mono)
  ultimately show ?thesis using n unfolding near_def by linarith
qed

lemma near_scale: "near k x y \<Longrightarrow> 0 \<le> c \<Longrightarrow> near k (x * c) (y * c)"
  using mult_right_mono [of _ _ c] by (fastforce simp: near_def mult_ac)

lemma near_add: "near k x y \<Longrightarrow> near k x' y' \<Longrightarrow> near k (x + x') (y + y')"
  by (auto simp: near_def distrib_right)

lemma near_bound:
  assumes "near 6 x y"
  shows "\<bar>x - y\<bar> \<le> y / 2 ^ 50"
proof -
  have "1 - 1 / 2 ^ 50 \<le> (1 - 1 / 2 ^ 53 :: rat) ^ 6" "(1 + 1 / 2 ^ 53 :: rat) ^ 6 \<le> 1 + 1 / 2 ^ 50"
    by (simp_all add: power_numeral_reduce field_simps)
  moreover have "0 \<le> y" using assms by (simp add: near_def)
  ultimately have "y * (1 - 1 / 2 ^ 50) \<le> y * (1 - 1 / 2 ^ 53) ^ 6" "y * (1 + 1 / 2 ^ 53) ^ 6 \<le> y * (1 + 1 / 2 ^ 50)"
    by (simp_all only: mult_left_mono)
  then have "y * (1 - 1 / 2 ^ 50) \<le> x" "x \<le> y * (1 + 1 / 2 ^ 50)" using assms unfolding near_def by linarith+
  then show ?thesis by (cases "x \<le> y") (simp_all add: abs_if algebra_simps)
qed

text \<open>The cost of a store of \<open>size_bytes\<close> at a price for a GiB and a month, in exact numbers.\<close>

definition exact_monthly :: "int \<Rightarrow> rat \<Rightarrow> rat" where
  "exact_monthly size_bytes price = of_int size_bytes / 1024 ^ 3 * price"

lemma monthly_near:
  assumes "0 \<le> size_bytes" and "0 \<le> price"
  shows "near 2 (fst (monthly_and_daily_cost size_bytes price)) (exact_monthly size_bytes price)"
proof -
  have "near 0 (of_int size_bytes / 2 ^ 30) (of_int size_bytes / 2 ^ 30)" using assms(1) by (intro near_refl) simp
  from near_round [OF near_scale [OF near_round [OF this] assms(2)]]
  show ?thesis
    by (simp add: monthly_and_daily_cost_def Let_def fmul_def fdiv_def exact_monthly_def numeral_2_eq_2)
qed

lemma daily_near:
  assumes "0 \<le> size_bytes" and "0 \<le> price"
  shows "near 4 (snd (monthly_and_daily_cost size_bytes price)) (exact_monthly size_bytes price * 12 / 365)"
proof -
  let ?m = "fst (monthly_and_daily_cost size_bytes price)"
  have "near 4 (to_double (to_double (?m * 12) * (1 / 365))) (exact_monthly size_bytes price * 12 * (1 / 365))"
    using near_round [OF near_scale [OF near_round [OF near_scale [OF monthly_near [OF assms], of 12]], of "1 / 365"]]
    by (simp add: eval_nat_numeral)
  then show ?thesis by (simp add: monthly_and_daily_cost_def Let_def fmul_def fdiv_def)
qed

lemma near_sum3:
  assumes "near k a a'" and "near k b b'" and "near k c c'"
  shows "near (Suc (Suc k)) (fadd (fadd a b) c) (a' + b' + c')"
  unfolding fadd_def using assms by (intro near_round near_add near_more)

text \<open>C31: the totals of the estimate are the exact ones but for a part in \<open>2\<^sup>5\<^sup>0\<close>, whatever the sizes and prices:
  none of the six roundings on the way adds up to more.\<close>

theorem idle_costs_accurate:
  assumes "0 \<le> in_snapshots" and "0 \<le> in_ecr" and "0 \<le> in_s3"
    and "0 \<le> snapshot_gib_month p" and "0 \<le> ecr_gib_month p" and "0 \<le> s3_gib_month p"
  shows "let exact = exact_monthly in_snapshots (snapshot_gib_month p) + exact_monthly in_ecr (ecr_gib_month p)
               + exact_monthly in_s3 (s3_gib_month p);
             costs = idle_costs in_snapshots in_ecr in_s3 p
         in \<bar>total_monthly costs - exact\<bar> \<le> exact / 2 ^ 50
            \<and> \<bar>total_daily costs - exact * 12 / 365\<bar> \<le> exact * 12 / 365 / 2 ^ 50"
proof -
  let ?e = "exact_monthly in_snapshots (snapshot_gib_month p) + exact_monthly in_ecr (ecr_gib_month p)
               + exact_monthly in_s3 (s3_gib_month p)"
  let ?c = "idle_costs in_snapshots in_ecr in_s3 p"
  have "near 4 (total_monthly ?c) ?e"
    using near_sum3 [OF monthly_near [OF assms(1,4)] monthly_near [OF assms(2,5)] monthly_near [OF assms(3,6)]]
    by (simp add: idle_costs_def Let_def split_def eval_nat_numeral)
  then have "near 6 (total_monthly ?c) ?e"
    using near_more [OF near_more, of 4] by (simp add: eval_nat_numeral)
  moreover have "near 6 (total_daily ?c) (?e * 12 / 365)"
    using near_sum3 [OF daily_near [OF assms(1,4)] daily_near [OF assms(2,5)] daily_near [OF assms(3,6)]]
    by (simp add: idle_costs_def Let_def split_def eval_nat_numeral add_divide_distrib distrib_right)
  ultimately show ?thesis unfolding Let_def using near_bound by blast
qed

theorem idle_costs_accurate_witness:
  "let p = \<lparr>snapshot_gib_month = 1 / 16, ecr_gib_month = 1 / 8, s3_gib_month = 1 / 32\<rparr>
   in \<bar>total_monthly (idle_costs (2 ^ 34) (2 ^ 30) 5 p) - (1 + 1 / 8 + 5 / 2 ^ 35)\<bar> \<le> (1 + 1 / 8 + 5 / 2 ^ 35) / 2 ^ 50"
  using idle_costs_accurate [of "2 ^ 34" "2 ^ 30" 5
      "\<lparr>snapshot_gib_month = 1 / 16, ecr_gib_month = 1 / 8, s3_gib_month = 1 / 32\<rparr>"]
  by (simp add: exact_monthly_def Let_def)


section \<open>Authentication\<close>




section \<open>Snapshots\<close>

definition backed_by :: "json \<Rightarrow> string \<Rightarrow> bool" where
  "backed_by img snapshot_id \<longleftrightarrow>
     snapshot_id \<noteq> [] \<and> (\<exists>ms mapping. mappings img = Inr ms \<and> mapping \<in> set ms
        \<and> mapped_snapshot mapping = Inr (JStr snapshot_id))"

lemma get_or_item: "get_or d k dflt = Inr v \<Longrightarrow> v \<noteq> dflt \<Longrightarrow> item_at d k = Inr v"
  by (auto simp: get_or_def item_at_def split: json.splits option.splits)

lemma snapshot_of_mapped:
  assumes "mapped_snapshot mapping = Inr v"
  shows "snapshot_of mapping = (if truthy v then bindE (hashable v) (\<lambda>h. Inr [h]) else Inr [])"
proof (cases "truthy v")
  case True
  from assms obtain ebs where ebs: "get_or mapping ''Ebs'' (JObj []) = Inr ebs" "get_or ebs ''SnapshotId'' JNull = Inr v"
    by (auto simp: mapped_snapshot_def result_iff)
  have "v \<noteq> JNull" using True by (auto simp: truthy_def)
  then have "item_at ebs ''SnapshotId'' = Inr v" using ebs(2) get_or_item by blast
  moreover have "ebs \<noteq> JObj []" using ebs(2) \<open>v \<noteq> JNull\<close> by (auto simp: get_or_def)
  then have "item_at mapping ''Ebs'' = Inr ebs" using ebs(1) get_or_item by blast
  ultimately show ?thesis using assms True by (simp add: snapshot_of_def)
qed (simp add: snapshot_of_def assms)

lemma snapshot_of_member:
  assumes "snapshot_of mapping = Inr l"
  shows "JStr s \<in> set l \<longleftrightarrow> s \<noteq> [] \<and> mapped_snapshot mapping = Inr (JStr s)"
proof -
  from assms obtain v where v: "mapped_snapshot mapping = Inr v" by (auto simp: snapshot_of_def result_iff)
  have "hashable v = Inr h \<Longrightarrow> h = v" for h by (auto simp: hashable_def split: json.splits)
  with assms v show ?thesis
    by (auto simp: snapshot_of_mapped result_iff truthy_def hashable_def split: if_splits)
qed

lemma snapshot_ids_member:
  assumes "snapshot_ids images = Inr ids"
  shows "sorted ids \<and> distinct ids \<and> set ids = {s. \<exists>img \<in> set images. backed_by img s}"
proof -
  from assms obtain found names where
    found: "gatherE (\<lambda>img. bindE (mappings img) (gatherE snapshot_of)) images = Inr found"
    and names: "mapE as_str found = Inr names" and ids: "ids = sort (remdups names)"
    by (auto simp: snapshot_ids_def result_iff)
  have "found = map JStr names"
    using names by (induction found arbitrary: names) (auto simp: result_iff as_str_def split: json.splits)
  then have "set names = {s. JStr s \<in> set found}" by auto
  moreover have "JStr s \<in> set found \<longleftrightarrow> (\<exists>img \<in> set images. backed_by img s)" for s
  proof -
    have "(\<exists>l. bindE (mappings img) (gatherE snapshot_of) = Inr l \<and> JStr s \<in> set l) \<longleftrightarrow> backed_by img s"
      if img: "img \<in> set images" for img
    proof -
      from gatherE_defined [OF found img] obtain ms l where "mappings img = Inr ms" "gatherE snapshot_of ms = Inr l"
        by (auto simp: result_iff)
      moreover from this(2) have "\<exists>k. snapshot_of mapping = Inr k" if "mapping \<in> set ms" for mapping
        using gatherE_defined that by metis
      ultimately show ?thesis
        using snapshot_of_member by (auto simp: backed_by_def gatherE_member) metis+
    qed
    then show ?thesis unfolding gatherE_member [OF found] by auto
  qed
  ultimately show ?thesis by (simp add: ids)
qed

lemma map_each_results:
  "map_each f xs w = (Inr ys, w') \<Longrightarrow> (\<And>x y u u'. f x u = (Inr y, u') \<Longrightarrow> g y = x) \<Longrightarrow> map g ys = xs"
proof (induction xs arbitrary: w ys)
  case (Cons x xs)
  then obtain y u zs v where "f x w = (Inr y, u)" "map_each f xs u = (Inr zs, v)" "ys = y # zs"
    by (auto simp: seq_Inr ret_run)
  moreover from this(1) have "g y = x" by (rule Cons.prems(2))
  ultimately show ?case using Cons.IH [of u zs] Cons.prems by (auto simp: ret_run)
qed (simp add: ret_run)

text \<open>C32: a snapshot that several images share is counted once: the snapshots are sorted and distinct, they are
  exactly those behind the images whose name has the prefix, and the total is the sum of their sizes.\<close>

theorem collect_snapshots_once:
  assumes "collect_snapshots fuel m c start w = (Inr s, w')"
  shows "\<exists>response images.
       answered m c (trace w) [''ec2'', ''describe-images'', ''--owners'', ''self'', ''--filters'',
         ''Name=name,Values='' @ start @ ''*''] response
     \<and> list_field response ''Images'' = Inr images
     \<and> distinct (map snapshot_name (snapshots s)) \<and> sorted (map snapshot_name (snapshots s))
     \<and> snapshot_name ` set (snapshots s) = {i. \<exists>img \<in> set images. backed_by img i}
     \<and> snapshot_bytes s = sum_list (map allocated_bytes (snapshots s))"
proof -
  from assms obtain response u images ids details v where
    r: "run_json m c [''ec2'', ''describe-images'', ''--owners'', ''self'', ''--filters'',
         ''Name=name,Values='' @ start @ ''*''] w = (Inr response, u)"
    and images: "list_field response ''Images'' = Inr images" and ids: "snapshot_ids images = Inr ids"
    and details: "map_each (snapshot_entry fuel m c images) ids u = (Inr details, v)"
    and s: "snapshots s = details" "snapshot_bytes s = sum_list (map allocated_bytes details)"
    by (auto simp: collect_snapshots_def seq_Inr liftE_run ret_run)
  have "map snapshot_name details = ids"
    using details by (rule map_each_results) (auto simp: snapshot_entry_def seq_Inr ret_run)
  then have "snapshot_name ` set details = set ids" by (metis set_map)
  with run_json_Inr [OF r] images snapshot_ids_member [OF ids] s \<open>map snapshot_name details = ids\<close>
  show ?thesis by (intro exI [of _ response] exI [of _ images]) simp
qed



section \<open>Examples\<close>

definition demo_client :: aws_cli where
  "demo_client = \<lparr>profile = ''p'', region = ''r''\<rparr>"

definition demo_answer :: "call list \<Rightarrow> string list \<Rightarrow> answer" where
  "demo_answer t argv =
     (if ''login'' \<in> set argv then Completed 0 [] []
      else if ''get-caller-identity'' \<in> set argv
      then (if Run (login_command demo_client) [] \<in> set t then Completed 0 ''{}'' [] else Completed 255 [] ''expired'')
      else if ''describe-images'' \<in> set argv
      then Completed 0 (json_compact (JObj [(''Images'', JList [JObj [(''ImageId'', JStr ''i''),
             (''BlockDeviceMappings'', JList [JObj [(''Ebs'', JObj [(''SnapshotId'', JStr ''s'')])]])]])])) []
      else if ''--next-token'' \<in> set argv
      then Completed 0 (json_compact (JObj [(''BlockSize'', JInt 8), (''Blocks'', JList [JNull])])) []
      else Completed 0 (json_compact (JObj [(''BlockSize'', JInt 8), (''Blocks'', JList [JNull, JNull]),
             (''NextToken'', JStr ''n'')])) [])"

definition demo_machine :: cost_machine where
  "demo_machine = \<lparr>commands = (\<lambda>t c. case c of Run argv text \<Rightarrow> (demo_answer t argv, 1) | _ \<Rightarrow> (Done, 0)),
     on_path = (\<lambda>_. True), today = (\<lambda>_. 739000)\<rparr>"

definition demo_world :: world where
  "demo_world = \<lparr>clock = 0, trace = []\<rparr>"


lemmas demo_simps = demo_machine_def demo_world_def seq_def liftE_def ret_def raising_def run_process_def perform_call_def


definition tick :: "call \<Rightarrow> world \<Rightarrow> world" where
  "tick c w = w\<lparr>clock := clock w + 1, trace := trace w @ [c]\<rparr>"

lemma demo_run:
  assumes "demo_answer (trace w) (cli_command demo_client (arguments @ [''--output'', ''json''])) = Completed 0 out []"
    and "decode_output (cli_command demo_client (arguments @ [''--output'', ''json''])) (0, out, []) = Inr v"
  shows "run_json demo_machine demo_client arguments w = (Inr v, tick (asked arguments demo_client) w)"
  using assms by (simp add: run_json_def asked_def Let_def demo_simps tick_def)

lemma demo_decode:
  assumes "strip out \<noteq> []" and "json_loads out = Inr (JObj d)"
  shows "decode_output k (0, out, []) = Inr (JObj d)"
  using assms by (simp add: decode_output_def is_dict_def)




text \<open>The two pages of a snapshot.\<close>

definition demo_images :: json where
  "demo_images = JObj [(''Images'', JList [JObj [(''ImageId'', JStr ''i''),
     (''BlockDeviceMappings'', JList [JObj [(''Ebs'', JObj [(''SnapshotId'', JStr ''s'')])]])]])]"

definition demo_pages :: "json list" where
  "demo_pages = [JObj [(''BlockSize'', JInt 8), (''Blocks'', JList [JNull, JNull]), (''NextToken'', JStr ''n'')],
     JObj [(''BlockSize'', JInt 8), (''Blocks'', JList [JNull])]]"

definition images_query :: "string list" where
  "images_query = [''ec2'', ''describe-images'', ''--owners'', ''self'', ''--filters'', ''Name=name,Values=x*'']"

lemma demo_images_run:
  "run_json demo_machine demo_client images_query w = (Inr demo_images, tick (asked images_query demo_client) w)"
proof (rule demo_run)
  show "demo_answer (trace w) (cli_command demo_client (images_query @ [''--output'', ''json'']))
      = Completed 0 (json_compact demo_images) []"
    by (simp add: demo_answer_def cli_command_def demo_client_def images_query_def demo_images_def)
  show "decode_output k (0, json_compact demo_images, []) = Inr demo_images" for k
    unfolding demo_images_def by (rule demo_decode; code_simp)
qed

lemma demo_pages_run:
  assumes "page_arguments ''s'' token = Inr arguments" and "token = JNull \<and> n = 0 \<or> token = JStr ''n'' \<and> n = 1"
  shows "run_json demo_machine demo_client arguments w = (Inr (demo_pages ! n), tick (asked arguments demo_client) w)"
proof (rule demo_run)
  show "demo_answer (trace w) (cli_command demo_client (arguments @ [''--output'', ''json'']))
      = Completed 0 (json_compact (demo_pages ! n)) []"
    using assms
    by (auto simp: demo_answer_def cli_command_def demo_client_def page_arguments_def demo_pages_def truthy_def
        as_str_def)
  show "decode_output k (0, json_compact (demo_pages ! n), []) = Inr (demo_pages ! n)" for k
  proof -
    have "decode_output k (0, json_compact (demo_pages ! 0), []) = Inr (demo_pages ! 0)"
      unfolding demo_pages_def nth_Cons_0 by (rule demo_decode; code_simp)
    moreover have "decode_output k (0, json_compact (demo_pages ! 1), []) = Inr (demo_pages ! 1)"
      unfolding demo_pages_def One_nat_def nth_Cons_Suc nth_Cons_0 by (rule demo_decode; code_simp)
    ultimately show ?thesis using assms(2) by auto
  qed
qed

lemma demo_size: "\<exists>w'. snapshot_allocated_bytes 2 demo_machine demo_client ''s'' w = (Inr 24, w')"
proof -
  have page: "read_page ''s'' None (demo_pages ! 0) = Inr (8, 2, JStr ''n'')"
    "read_page ''s'' (Some 8) (demo_pages ! 1) = Inr (8, 1, JNull)" by code_simp+
  obtain a1 a2 where args: "page_arguments ''s'' JNull = Inr a1" "page_arguments ''s'' (JStr ''n'') = Inr a2"
    by (simp add: page_arguments_def truthy_def as_str_def)
  from demo_pages_run [OF args(1), of 0] demo_pages_run [OF args(2), of 1] page args show ?thesis
    by (simp add: snapshot_allocated_bytes_def numeral_2_eq_2 seq_def liftE_run truthy_def ret_run)
qed

definition demo_storage :: snapshot_storage where
  "demo_storage = \<lparr>image_names = [(JStr ''i'', JNull)],
     snapshots = [\<lparr>snapshot_name = ''s'', allocated_bytes = 24, image_ids = [JStr ''i'']\<rparr>], snapshot_bytes = 24\<rparr>"

lemma demo_collect: "\<exists>w'. collect_snapshots 2 demo_machine demo_client ''x'' demo_world = (Inr demo_storage, w')"
proof -
  let ?images = "[JObj [(''ImageId'', JStr ''i''),
     (''BlockDeviceMappings'', JList [JObj [(''Ebs'', JObj [(''SnapshotId'', JStr ''s'')])]])]]"
  have pure: "list_field demo_images ''Images'' = Inr ?images" "snapshot_ids ?images = Inr [''s'']"
      "images_with ''s'' ?images = Inr [JStr ''i'']"
      "mapE (\<lambda>img. bindE (get_or img ''ImageId'' JNull) (\<lambda>i. bindE (get_or img ''Name'' JNull) (\<lambda>n. Inr (i, n)))) ?images
        = Inr [(JStr ''i'', JNull)]"
    by code_simp+
  have query: "[''ec2'', ''describe-images'', ''--owners'', ''self'', ''--filters'', ''Name=name,Values='' @ ''x'' @ ''*'']
      = images_query" by (simp add: images_query_def)
  obtain w' where "snapshot_allocated_bytes 2 demo_machine demo_client ''s'' (tick (asked images_query demo_client) demo_world)
      = (Inr 24, w')" using demo_size by blast
  with pure show ?thesis
    unfolding collect_snapshots_def query
    by (simp add: demo_images_run snapshot_entry_def seq_def liftE_run ret_run demo_storage_def)
qed

theorem collect_snapshots_once_witness:
  "distinct (map snapshot_name (snapshots demo_storage)) \<and> snapshot_bytes demo_storage = 24"
proof -
  obtain w' where "collect_snapshots 2 demo_machine demo_client ''x'' demo_world = (Inr demo_storage, w')"
    using demo_collect by blast
  from collect_snapshots_once [OF this] show ?thesis by (auto simp: demo_storage_def)
qed

definition demo_prices :: json where
  "demo_prices = JObj [(''PriceList'', JList [JObj [(''terms'', JObj [(''OnDemand'', JObj [(''a'', JObj [(''priceDimensions'',
     JObj [(''x'', JObj [(''unit'', JStr ''GB-Mo''), (''pricePerUnit'', JObj [(''USD'', JStr ''3'')])]),
           (''y'', JObj [(''unit'', JStr ''GB-Mo''), (''pricePerUnit'', JObj [(''USD'', JStr ''2'')])]),
           (''z'', JObj [(''unit'', JStr ''GB-Mo''), (''beginRange'', JStr ''51200''),
                          (''pricePerUnit'', JObj [(''USD'', JStr ''1'')])])])])])])]])]"

theorem price_per_unit_lowest_witness:
  "offered demo_prices ''GB-Mo'' None 2 \<and> offered demo_prices ''GB-Mo'' None 3"
proof -
  have two: "price_per_unit demo_prices ''GB-Mo'' None = Inr 2" by code_simp
  have "gatherE (product_prices ''GB-Mo'' None) xs = Inr [3, 2]" if "list_field demo_prices ''PriceList'' = Inr xs" for xs
  proof -
    have "bindE (list_field demo_prices ''PriceList'') (gatherE (product_prices ''GB-Mo'' None)) = Inr [3, 2]"
      by code_simp
    with that show ?thesis by simp
  qed
  moreover obtain xs where "list_field demo_prices ''PriceList'' = Inr xs" by (simp add: demo_prices_def json_reads list_field_def)
  ultimately have "offered demo_prices ''GB-Mo'' None 3" using price_per_unit_offers [of demo_prices xs] by fastforce
  with price_per_unit_lowest [OF two] show ?thesis by simp
qed

end
