(* ===== verification/Cost_Report.thy ===== *)
theory Cost_Report
  imports Aws_Cost
begin

text \<open>
  \<open>print_report\<close> of \<open>tools/xolis_aws_cost.py\<close>: the lines of the text report. A value that has no length
  among the active resources ends it with a \<open>TypeError\<close>; the lines printed before that are left out here.
\<close>

section \<open>Numbers\<close>

text \<open>\<open>format(x, ".nf")\<close>: the exact value of the float, rounded to \<open>n\<close> places, ties to even.\<close>

definition fixed :: "nat \<Rightarrow> rat \<Rightarrow> string" where
  "fixed places x =
     (let n = nat (round_even (\<bar>x\<bar> * 10 ^ places));
          whole = str_of_nat (n div 10 ^ places)
      in (if x < 0 then ''-'' else []) @ whole
           @ (if places = 0 then [] else ''.'' @ padded places (n mod 10 ^ places)))"

definition gib :: "int \<Rightarrow> rat" where
  "gib amount = fdiv (of_int amount) (2 ^ 30)"


section \<open>The report\<close>

definition active_lines :: "(string \<times> json) list \<Rightarrow> string list result" where
  "active_lines active =
     mapE (\<lambda>(name, values).
       bindE (json_len values) (\<lambda>n. Inr (''  '' @ name @ '': '' @ str_of_nat n))) active"

definition storage_lines :: "cost_report \<Rightarrow> string list" where
  "storage_lines r =
     (let s = snapshot_section r; e = ecr_section r; b = s3_section r in
      [''  AMIs: '' @ str_of_nat (length (image_names s)) @ ''; snapshots: '' @ str_of_nat (length (snapshots s))
         @ ''; allocated: '' @ fixed 3 (gib (snapshot_bytes s)) @ '' GiB'',
       ''  ECR: '' @ str_of_nat (repository_count e) @ '' repositories, '' @ str_of_nat (ecr_image_count e)
         @ '' images, logical size: '' @ fixed 3 (gib (ecr_bytes e)) @ '' GiB'',
       ''  S3: '' @ str_of_nat (bucket_count b) @ '' buckets, '' @ str_of_nat (s3_version_count b)
         @ '' object versions, '' @ str_of_nat (s3_upload_count b) @ '' incomplete multipart uploads, size: ''
         @ fixed 3 (gib (s3_bytes b)) @ '' GiB''])"

definition cost_line :: "string \<Rightarrow> rat \<Rightarrow> rat \<Rightarrow> string" where
  "cost_line name daily monthly =
     ''  '' @ name @ '': $'' @ fixed 4 daily @ ''/day, $'' @ fixed 2 monthly @ ''/month''"

definition cost_lines :: "idle_cost \<Rightarrow> string list" where
  "cost_lines c =
     [cost_line ''EBS snapshots'' (snapshot_daily c) (snapshot_monthly c),
      cost_line ''ECR upper bound'' (ecr_daily c) (ecr_monthly c),
      cost_line ''S3 Standard'' (s3_daily c) (s3_monthly c),
      cost_line ''Total upper bound'' (total_daily c) (total_monthly c)]"

definition history_line :: "(json \<Rightarrow> string) \<Rightarrow> day_cost \<Rightarrow> string" where
  "history_line rep d =
     ''  '' @ json_str rep (day d) @ '': $'' @ fixed 4 (total_usd d) @ (if estimated d then '' estimated'' else [])"

definition warning_lines :: "string list" where
  "warning_lines =
     [[], ''WARNING: active resources exist. Their current run rate is not included in the idle storage ''
            @ ''estimate; use the Cost Explorer history above.'']"

definition not_estimated :: "string list" where
  "not_estimated =
     [''compute, EKS, NAT, load balancer, RDS, EFS, FSx, VPC endpoint, ''
        @ ''Route 53, CloudWatch Logs, Secrets Manager, and EBS volume run rate'',
      ''network transfer and request charges'',
      ''ECR layer deduplication; the ECR estimate sums logical image sizes'',
      ''taxes, credits, Savings Plans, and Reserved Instance adjustments'']"

text \<open>\<open>rep\<close> is Python's \<open>repr\<close> of a list, a dict or a float.\<close>

definition print_report :: "(json \<Rightarrow> string) \<Rightarrow> cost_report \<Rightarrow> string list result" where
  "print_report rep r =
     bindE (active_lines (active_resources r)) (\<lambda>active.
       Inr ([''AWS account '' @ json_str rep (account r) @ '' via profile '' @ report_profile r @ '' in ''
               @ report_region r, [], ''Active resources'']
         @ active
         @ [[], ''Persistent Xolis storage''] @ storage_lines r
         @ [[], ''Estimated idle storage cost''] @ cost_lines (idle_storage_cost r)
         @ [[], ''Recent Cost Explorer unblended cost''] @ map (history_line rep) (recent_cost r)
         @ (if list_ex (truthy \<circ> snd) (active_resources r) then warning_lines else [])
         @ [[], ''Cost exclusions''] @ map (\<lambda>item. ''  - '' @ item) not_estimated))"


section \<open>A printed amount\<close>

lemma round_even_nonneg: "0 \<le> x \<Longrightarrow> 0 \<le> round_even x"
  by (auto simp: round_even_def Let_def)

text \<open>A printed amount is within half a unit of its last place.\<close>

lemma fixed_error:
  "\<bar>of_int (round_even (x * 10 ^ places)) / 10 ^ places - x\<bar> \<le> 1 / (2 * 10 ^ places)"
proof -
  have "\<bar>of_int (round_even (x * 10 ^ places)) - x * 10 ^ places\<bar> \<le> 1 / 2" by (rule round_even_error)
  then have "\<bar>of_int (round_even (x * 10 ^ places)) - x * 10 ^ places\<bar> / 10 ^ places \<le> 1 / 2 / 10 ^ places"
    by (intro divide_right_mono) simp_all
  moreover have "of_int (round_even (x * 10 ^ places)) / 10 ^ places - x
      = (of_int (round_even (x * 10 ^ places)) - x * 10 ^ places) / 10 ^ places"
    by (simp add: diff_divide_distrib)
  ultimately show ?thesis by (simp add: abs_divide)
qed

lemma digits_value_zeros: "digits_value 0 (replicate k (CHR ''0'') @ s) = digits_value 0 s"
proof -
  have "digit_value (CHR ''0'') = 0" by code_simp
  then show ?thesis by (induction k) simp_all
qed

lemma padded_facts:
  assumes "m < 10 ^ p" and "0 < p"
  shows "length (padded p m) = p" and "digits_value 0 (padded p m) = m" and "list_all is_digit (padded p m)"
proof -
  have zero: "is_digit (CHR ''0'')" by code_simp
  show "length (padded p m) = p" using str_of_nat_length [OF assms] by (simp add: padded_def Let_def)
  show "digits_value 0 (padded p m) = m"
    by (simp add: padded_def Let_def digits_value_zeros digits_value_str_of_nat)
  show "list_all is_digit (padded p m)"
    using zero by (auto simp: padded_def Let_def list_all_iff dest: str_of_nat_digits)
qed

lemma takeWhile_digits_point:
  assumes "list_all is_digit a"
  shows "takeWhile is_digit (a @ CHR ''.'' # b) = a" and "dropWhile is_digit (a @ CHR ''.'' # b) = CHR ''.'' # b"
proof -
  have "\<not> is_digit (CHR ''.'')" by code_simp
  moreover have "\<forall>c \<in> set a. is_digit c" using assms by (simp add: list_all_iff)
  ultimately show "takeWhile is_digit (a @ CHR ''.'' # b) = a" and "dropWhile is_digit (a @ CHR ''.'' # b) = CHR ''.'' # b"
    by (simp_all add: takeWhile_append2 dropWhile_append2)
qed

lemma decimal_value_point:
  assumes "list_all is_digit a" and "list_all is_digit b" and "a \<noteq> []"
  shows "decimal_value ((if neg then ''-'' else []) @ a @ ''.'' @ b)
    = Some ((if neg then -1 else 1) * of_nat (digits_value 0 (a @ b)) / 10 ^ length b)"
proof -
  have "hd a \<noteq> CHR ''-'' \<and> hd a \<noteq> CHR ''+''"
  proof -
    have "is_digit (hd a)" using assms by (cases a) auto
    moreover have "\<not> is_digit (CHR ''-'')" "\<not> is_digit (CHR ''+'')" by code_simp+
    ultimately show ?thesis by metis
  qed
  then have s: "signed ((if neg then ''-'' else []) @ a @ ''.'' @ b) = (neg, a @ CHR ''.'' # b)"
    using assms(3) by (cases a) (auto simp: signed_def)
  have b: "takeWhile is_digit b = b" "dropWhile is_digit b = []"
    using assms(2) by (simp_all add: list_all_iff)
  show ?thesis
    unfolding decimal_value_def s Let_def prod.case takeWhile_digits_point [OF assms(1)]
    using assms(3) by (simp add: b exponent_value_def pow10_def)
qed

text \<open>An amount in the text report reads back as the amount, up to half a unit of its last place.\<close>

lemma fixed_reads_back:
  assumes "0 < places"
  shows "\<exists>y. decimal_value (fixed places x) = Some y \<and> \<bar>y - x\<bar> \<le> 1 / (2 * 10 ^ places)"
proof -
  define n where "n = nat (round_even (\<bar>x\<bar> * 10 ^ places))"
  have n: "of_nat n = (of_int (round_even (\<bar>x\<bar> * 10 ^ places)) :: rat)"
    using round_even_nonneg [of "\<bar>x\<bar> * 10 ^ places"] by (simp add: n_def)
  have frac: "n mod 10 ^ places < 10 ^ places" by simp
  note p = padded_facts [OF frac assms]
  have whole: "list_all is_digit (str_of_nat (n div 10 ^ places))"
    by (auto simp: list_all_iff dest: str_of_nat_digits)
  have f: "fixed places x = (if x < 0 then ''-'' else []) @ str_of_nat (n div 10 ^ places) @ ''.''
      @ padded places (n mod 10 ^ places)"
    using assms by (simp add: fixed_def Let_def n_def)
  have "decimal_value (fixed places x) = Some ((if x < 0 then -1 else 1) * of_nat n / 10 ^ places)"
    unfolding f decimal_value_point [OF whole p(3) str_of_nat_not_Nil] digits_value_join p
      digits_value_str_of_nat div_mult_mod_eq ..
  moreover have "\<bar>(if x < 0 then -1 else 1) * of_nat n / 10 ^ places - x\<bar> = \<bar>of_nat n / 10 ^ places - \<bar>x\<bar>\<bar>"
    by (auto simp: abs_if)
  ultimately show ?thesis using fixed_error [of "\<bar>x\<bar>" places] unfolding n by auto
qed

end
