(* ===== verification/Spec2Isabelle.thy ===== *)
theory Spec2Isabelle
  imports Runtime_Files Runtime_Stream Image_Builder Lab_Workflows Lab_Config
    Kernel_Config Hermes_Profile Hermes_Safety Runtime_Interactive Runtime_App Cost_Inventory Cost_Report
begin

text \<open>
  A model of the Python program of xolis, with the theorems that make it correct.

  The program has two sides. Inside a sandbox runs the runtime (\<open>services/xolis-runtime-python\<close>), an HTTP
  service that executes commands, streams their output, holds interactive terminal sessions and moves files
  in and out of a workspace. Around it are the tools of its operators: \<open>tools/xolis_aws_lab.py\<close> (start,
  exercise and stop a cluster), \<open>tools/xolis_image_builder.py\<close> (build images on a temporary instance),
  \<open>tools/xolis_aws_cost.py\<close> (inventory and cost), \<open>tools/hermes_demo.py\<close> and
  \<open>tools/render_hermes_profile.py\<close> (prepare a cluster for the Hermes agent and attach a terminal to it), and
  \<open>image/aws/pvm/scripts/validate-kernel-config.py\<close>.

  The theories.

  \<^item> What Python gives: \<open>Prelude\<close> (exceptions, results as sums, operations on lists and strings),
    \<open>Py_Text\<close> (UTF-8, \<open>strip\<close>, \<open>int\<close>), \<open>Py_Json\<close> (the decoder and encoder of \<open>json\<close>, and what code does with
    decoded values of any shape), \<open>Py_Base64\<close>, \<open>Py_Shlex\<close>, \<open>Py_Float\<close> (doubles as rounded rationals),
    \<open>Shell_Words\<close> (how a shell splits a line that needs no expansion, used to state what a script says),
    \<open>Py_Fs\<close> and \<open>Py_Os\<close> (a file system with symbolic links and the calls on it), \<open>Py_Effects\<close> (procedures
    that may raise, \<open>try\<close>, \<open>finally\<close>, and their weakest preconditions), \<open>World\<close> (commands, HTTP, sockets, the
    terminal and the clock as an environment that answers each call from the calls before it) and \<open>Budget\<close>
    (the contract of a bounded reader).
  \<^item> \<open>Runtime_Core\<close>: of \<open>core.py\<close> the settings, \<open>parse_command\<close>, \<open>resolve_workspace_path\<close>, \<open>_read_limited\<close>
    and \<open>execute_command\<close>. \<open>Runtime_Files\<close>: \<open>write_upload\<close> and \<open>list_directory\<close>. \<open>Runtime_Stream\<close>:
    \<open>stream_command\<close>, a generator and two reader tasks as a step relation (\<open>stream_step\<close>), so that what
    holds of the reachable states holds for every interleaving. Every \<open>await\<close> is a place of its own, those
    after a kill and in the \<open>finally\<close> block included, and at each the generator can be cancelled.
  \<^item> \<open>Runtime_Interactive\<close>: \<open>interactive.py\<close>, four coroutines around a process on a pseudo terminal, one
    labelled transition function (\<open>session_act\<close>) whose moves go from one \<open>await\<close> to the next.
  \<^item> \<open>Runtime_App\<close>: the handlers of \<open>app.py\<close>, the status codes of the exceptions and the body of the event
    stream (\<open>response_act\<close>), which runs beside the generator.
  \<^item> \<open>Aws_Lab\<close> and \<open>Lab_Workflows\<close>: the lab's configuration, its runner with dry runs and a log, the
    operations on nodes and pools, and the workflows made of them. \<open>Lab_Config\<close>: which configurations it
    accepts. \<open>Image_Builder\<close>: the whole of the image builder. \<open>Kernel_Config\<close>: the kernel check.
  \<^item> \<open>Aws_Cost\<close>, \<open>Cost_Inventory\<close>, \<open>Cost_Report\<close>: the cost tool, what it does and finds, its text report.
  \<^item> \<open>Hermes_Profile\<close> (rendering), \<open>Hermes_Frames\<close> (WebSocket frames), \<open>Hermes_Demo\<close> (cluster and API client),
    \<open>Hermes_Session\<close> (handshake, session, \<open>main\<close> with its clean-up), \<open>Hermes_Safety\<close> (what it leaves behind).

  What is proved. For paths: an accepted one is canonical, free of links and below the workspace. For
  uploads: all or nothing, and what was uploaded can be downloaded. For commands: the captured output is the
  longest prefix in the budget, killed or not; the call returns when the process has ended and both pipes
  are closed (its timeout does not bound it: what the command leaves in the background can hold a pipe open);
  and the stream and the buffered call agree. For the stream and the session: invariants by rule induction
  over all interleavings (order and budget of the output, legal event sequences, no process and no task left
  unless a cancellation cut the clean-up short), a simulation of the session by the automaton of its
  protocol, and that both end. What the clean-up leaves in the cases it does not cover is stated too: the
  group after a normal exit (\<open>stream_leaves_group\<close>), a clean-up cut short (\<open>stream_cleanup_interrupted\<close>,
  \<open>session_cleanup_interrupted\<close>), a response that never started (\<open>response_abandoned_unstarted\<close>). For the
  tools: what each leaves running or switched on, whatever fails; that waiting ends; that every line of the
  build script says what is meant, whatever the values in it; that validation accepts exactly what it should
  and reads a configuration as the kernel build writes it; that the inventory only reads, and how exact its
  estimate is. Interfaces are locales, interpreted
  on the model: \<open>output_budget\<close> by the buffered reader, the stream and the session, \<open>workspace_resolver\<close> and
  \<open>workspace_writer\<close> by the file operations, \<open>deadline_loop\<close> by the waiting loops. This theory has the
  properties of two components: the Hermes client and the runtime agree on the messages of a session.

  Fuel. Loops whose end the outside decides have it: \<open>iterate\<close> in \<open>World\<close> (its deadline loops get enough to
  reach the deadline, since every round that goes on takes time, and \<open>deadline_loop\<close> shows it never runs
  out), the rounds of the user's session, the pages of a snapshot (the theorem says for which fuel there is
  a result, and that any more gives the same) and the bytes of the upgrade response, of which the code
  reads at most 16384. JSON decoding has twice the length of the text, which suffices for every text.

  Representation. A string is its UTF-8 encoding, a char per byte; a path is the list of its names; a process is a
  function from when its group is killed to what it prints and when it ends; times are milliseconds. A float
  is the rational it stands for.

  Not modelled. Printing and progress messages, except the text report of the cost tool. The parsers of
  the command lines, whose result is the argument of the models. The routing and validation of the web
  framework, and its health check, which returns a constant. Infinities, overflow and subnormal floats.
  Failures of \<open>ioctl\<close>, of \<open>killpg\<close> beyond a missing process, and of writing a log. The gateway under
  \<open>services/xolis-api\<close>, which is not Python, the manifests under \<open>deploy\<close>, the shell and Packer scripts under
  \<open>image\<close>, the infrastructure under \<open>infra\<close> and the tests.
\<close>


section \<open>The Hermes client and the runtime\<close>

lemma session_names_ok:
  "well_formed (encode ''type'')" "well_formed (encode ''start'')" "well_formed (encode ''command'')"
  "well_formed (encode ''ttl_seconds'')" "well_formed (encode ''rows'')" "well_formed (encode ''columns'')"
  "well_formed (encode ''resize'')" "well_formed (encode ''input'')" "well_formed (encode ''data'')"
  "well_formed (encode ''output'')" "well_formed (encode ''exit'')" "well_formed (encode ''exit_code'')"
  "well_formed (encode ''cancel'')" "well_formed (encode ''close'')"
  by (rule ascii_well_formed; code_simp)+

lemma b64_well_formed: "well_formed (encode (b64encode s))"
proof (rule ascii_text)
  have "\<forall>b \<in> set (map code_of s). b < 256" by (auto simp: code_of_less)
  from b64_bits_ascii [OF this] show "\<forall>c \<in> set (b64encode s). code_of c < 128"
    by (simp add: b64encode_def comp_def list_all_iff ascii_char_def code_of_def)
qed

lemmas client_messages = start_message_def resize_message_def input_message_def plain_message_def

text \<open>C18: what the client of the Hermes demo sends to open a session is read by the runtime as it was meant:
  the command, the size of the terminal and the life time, if the runtime allows that; a longer one is
  refused with the limit, although the client accepts up to 7200 seconds.\<close>

theorem hermes_session_start:
  assumes "well_formed (encode (shlex_join (hermes_command args)))" and "1 \<le> session_ttl args"
  shows "bindE (json_loads (json_compact (start_message args (r, k)))) (start_fields rep st) =
    (if session_ttl args \<le> maximum_command_timeout_seconds st
     then Inr (session_ttl args, hermes_command args, int r, int k)
     else Inl (InvalidCommand (''timeout_seconds must be between 1 and ''
                 @ str_of_int (maximum_command_timeout_seconds st))))"
proof -
  let ?words = "shlex_join (hermes_command args)"
  have sent: "json_loads (json_compact (start_message args (r, k))) = Inr (start_message args (r, k))"
    by (rule json_loads_compact) (simp add: start_message_def session_names_ok assms(1) del: encode_simps)
  have "strip ?words \<noteq> []" by (rule strip_shlex_join) (simp add: hermes_command_def)
  moreover have "hermes_command args \<noteq> []" by (simp add: hermes_command_def)
  ultimately have "parse_command st ?words (session_ttl args) =
      (if session_ttl args \<le> maximum_command_timeout_seconds st then Inr (hermes_command args)
       else Inl (InvalidCommand (''timeout_seconds must be between 1 and ''
                   @ str_of_int (maximum_command_timeout_seconds st))))"
    using assms(2) by (simp add: parse_command_def shlex_split_join)
  then show ?thesis
    unfolding sent by (simp add: start_fields_def start_message_def json_reads)
qed

theorem hermes_session_start_witness:
  "bindE (json_loads (json_compact (start_message (demo_arguments\<lparr>session_ttl := 1800\<rparr>) (24, 80)))) 
      (start_fields (\<lambda>_. []) (demo_settings\<lparr>maximum_command_timeout_seconds := 900\<rparr>))
     = Inl (InvalidCommand ''timeout_seconds must be between 1 and 900'')
   \<and> bindE (json_loads (json_compact (start_message demo_arguments (24, 80))))
      (start_fields (\<lambda>_. []) (demo_settings\<lparr>maximum_command_timeout_seconds := 900\<rparr>))
     = Inr (900, [''hermes''], 24, 80)"
proof -
  have "well_formed (encode (shlex_join [''hermes'']))" "str_of_int 900 = ''900''" by code_simp+
  then show ?thesis
    using hermes_session_start [of "demo_arguments\<lparr>session_ttl := 1800\<rparr>" 24 80 "\<lambda>_. []"
        "demo_settings\<lparr>maximum_command_timeout_seconds := 900\<rparr>"]
      hermes_session_start [of demo_arguments 24 80 "\<lambda>_. []" "demo_settings\<lparr>maximum_command_timeout_seconds := 900\<rparr>"]
    by (simp add: demo_arguments_def hermes_command_def del: encode_simps)
qed

text \<open>C19: the two ends of a session agree on its messages: what the user types, a new size and the end of
  the input arrive at the terminal as they left, and what the terminal delivers is written to the user's
  output byte for byte; the exit code ends the client with that code.\<close>

theorem hermes_session_messages:
  "bindE (json_loads (json_compact (input_message keys))) read_input = Inr (Type keys)
   \<and> bindE (json_loads (json_compact (resize_message (r, k)))) read_input = Inr (Resize (int r) (int k))
   \<and> bindE (json_loads (json_compact (plain_message ''close''))) read_input = Inr (Leave ''close'')
   \<and> bindE (json_loads (json_compact (plain_message ''cancel''))) read_input = Inr (Leave ''cancel'')
   \<and> handle_frame env (1, json_compact (message_json (output_message chunk)))
       = seq (ask (outside env) (Device (Write_Output (map char_of_byte chunk)))) (\<lambda>_. ret None)
   \<and> handle_frame env (1, json_compact (message_json (SExit n))) = ret (Some n)"
proof -
  have liftE_Inr: "seq (liftE (Inr a)) f = f a" for a and f :: "_ \<Rightarrow> (demo, _) proc"
    by (rule ext) (simp add: seq_def liftE_def)
  have sent: "json_loads (json_compact (input_message keys)) = Inr (input_message keys)"
    "json_loads (json_compact (resize_message (r, k))) = Inr (resize_message (r, k))"
    "json_loads (json_compact (plain_message ''close'')) = Inr (plain_message ''close'')"
    "json_loads (json_compact (plain_message ''cancel'')) = Inr (plain_message ''cancel'')"
    "json_loads (json_compact (message_json (output_message chunk))) = Inr (message_json (output_message chunk))"
    "json_loads (json_compact (message_json (SExit n))) = Inr (message_json (SExit n))"
    by (rule json_loads_compact,
        simp add: client_messages message_json_def output_message_def session_names_ok b64_well_formed del: encode_simps)+
  show ?thesis
    unfolding handle_frame_def sent prod.case
    by (simp add: sent liftE_Inr read_input_def handle_message_def client_messages message_json_def output_message_def
        json_reads hashable_def b64_round_trip)
qed

end
